(* ===== verification/Prelude.thy ===== *)
theory Prelude
  imports Main "HOL-Library.Char_ord" "HOL-Library.List_Lexorder" "HOL-Library.Sublist"
begin

text \<open>
  Shared vocabulary of the development: the parts of the C++ standard library on strings that
  the tools use (\<open>find\<close>, \<open>rfind\<close>, \<open>substr\<close>, decimal printing and \<open>std::stoll\<close>), lexicographic
  order on strings for \<open>std::map\<close>, ordered association lists as the model of
  \<open>std::map<string, T>\<close>, and the collections of simplification rules the component theories add to.
\<close>

named_theorems str_simps \<open>searching and cutting strings\<close>
named_theorems num_simps \<open>printing and parsing decimal numbers\<close>
named_theorems omap_simps \<open>ordered association lists\<close>

section \<open>Characters\<close>

definition is_digit :: "char \<Rightarrow> bool" where
  "is_digit c = (48 \<le> (of_char c :: nat) \<and> (of_char c :: nat) \<le> 57)"

definition digit_val :: "char \<Rightarrow> nat" where
  "digit_val c = of_char c - 48"

definition digit_char :: "nat \<Rightarrow> char" where
  "digit_char d = ''0123456789'' ! d"

lemma less_10_cases: "d < (10::nat) \<Longrightarrow> d \<in> {0,1,2,3,4,5,6,7,8,9}"
  by auto

lemma digit_char_facts [num_simps]:
  assumes "d < 10"
  shows "is_digit (digit_char d)" and "digit_val (digit_char d) = d" and "digit_char d \<noteq> CHR ''-''"
    and "digit_char d \<noteq> CHR ''/''"
  using less_10_cases [OF assms] by (auto simp: is_digit_def digit_val_def digit_char_def)

lemma is_digit_not_sep: "is_digit c \<Longrightarrow> c \<noteq> CHR ''-'' \<and> c \<noteq> CHR ''/''"
  by (auto simp: is_digit_def)

section \<open>Decimal numbers\<close>

fun show_nat :: "nat \<Rightarrow> string" where
  "show_nat n = (if n < 10 then [digit_char n] else show_nat (n div 10) @ [digit_char (n mod 10)])"

declare show_nat.simps [simp del]

text \<open>\<open>fmt::format("{}", n)\<close> and \<open>std::to_string(n)\<close> of a signed integer.\<close>

definition show_int :: "int \<Rightarrow> string" where
  "show_int i = (if i < 0 then CHR ''-'' # show_nat (nat (- i)) else show_nat (nat i))"

definition digits_value :: "string \<Rightarrow> nat" where
  "digits_value s = foldl (\<lambda>v c. 10 * v + digit_val c) 0 s"

lemma digits_value_snoc [num_simps]: "digits_value (s @ [c]) = 10 * digits_value s + digit_val c"
  by (simp add: digits_value_def)

lemma digits_value_single [num_simps]: "digits_value [c] = digit_val c"
  by (simp add: digits_value_def)

lemma show_nat_not_Nil [simp]: "show_nat n \<noteq> []"
  by (subst show_nat.simps) simp

lemma digits_value_show_nat [num_simps]: "digits_value (show_nat n) = n"
proof (induction n rule: show_nat.induct)
  case (1 n)
  show ?case
  proof (cases "n < 10")
    case True
    then show ?thesis by (subst show_nat.simps) (simp add: num_simps)
  next
    case False
    with 1 show ?thesis by (subst show_nat.simps) (simp add: num_simps)
  qed
qed

lemma show_nat_digits [num_simps]: "list_all is_digit (show_nat n)"
proof (induction n rule: show_nat.induct)
  case (1 n)
  show ?case
  proof (cases "n < 10")
    case True
    then show ?thesis by (subst show_nat.simps) (simp add: num_simps)
  next
    case False
    with 1 show ?thesis by (subst show_nat.simps) (simp add: num_simps)
  qed
qed

lemma show_nat_inj [num_simps]: "show_nat m = show_nat n \<longleftrightarrow> m = n"
  by (metis digits_value_show_nat)

lemma digits_no_sep:
  assumes "list_all is_digit s"
  shows "CHR ''-'' \<notin> set s" and "CHR ''/'' \<notin> set s"
  using assms by (auto simp: list_all_iff is_digit_def)

lemma show_nat_no_dash [num_simps]: "CHR ''-'' \<notin> set (show_nat n)"
  by (rule digits_no_sep(1) [OF show_nat_digits])

lemma show_nat_no_slash [num_simps]: "CHR ''/'' \<notin> set (show_nat n)"
  by (rule digits_no_sep(2) [OF show_nat_digits])

lemma show_int_nat: "0 \<le> i \<Longrightarrow> show_int i = show_nat (nat i)"
  by (simp add: show_int_def)

lemma show_int_no_slash [num_simps]: "CHR ''/'' \<notin> set (show_int i)"
  by (simp add: show_int_def num_simps)

lemma show_int_not_Nil [simp]: "show_int i \<noteq> []"
  by (simp add: show_int_def)

text \<open>
  \<open>std::stoll\<close> and \<open>std::stol\<close> (64 bit) on a string the caller has already checked to consist of
  digits only: \<open>None\<close> is the \<open>std::out_of_range\<close> exception.
\<close>

definition LLONG_MAX :: int where
  "LLONG_MAX = 9223372036854775807"

definition stoll_digits :: "string \<Rightarrow> int option" where
  "stoll_digits s = (let v = int (digits_value s) in if v \<le> LLONG_MAX then Some v else None)"

lemma stoll_show_nat [num_simps]: "int n \<le> LLONG_MAX \<Longrightarrow> stoll_digits (show_nat n) = Some (int n)"
  by (simp add: stoll_digits_def num_simps)

lemma stoll_nonneg: "stoll_digits s = Some v \<Longrightarrow> 0 \<le> v \<and> v \<le> LLONG_MAX"
  by (auto simp: stoll_digits_def Let_def split: if_splits)

section \<open>Searching strings\<close>

text \<open>\<open>s.find(c)\<close> and \<open>s.rfind(c)\<close>; \<open>None\<close> is \<open>std::string::npos\<close>.\<close>

fun find_char :: "char \<Rightarrow> string \<Rightarrow> nat option" where
  "find_char c [] = None"
| "find_char c (x # xs) = (if x = c then Some 0 else map_option Suc (find_char c xs))"

fun rfind_char :: "char \<Rightarrow> string \<Rightarrow> nat option" where
  "rfind_char c [] = None"
| "rfind_char c (x # xs) =
     (case rfind_char c xs of Some i \<Rightarrow> Some (Suc i) | None \<Rightarrow> if x = c then Some 0 else None)"

lemma find_char_None [str_simps]: "find_char c s = None \<longleftrightarrow> c \<notin> set s"
  by (induction s) auto

lemma rfind_char_None [str_simps]: "rfind_char c s = None \<longleftrightarrow> c \<notin> set s"
  by (induction s) (auto split: option.splits)

lemma find_char_append [str_simps]: "c \<notin> set a \<Longrightarrow> find_char c (a @ c # b) = Some (length a)"
  by (induction a) auto

lemma rfind_char_append [str_simps]: "c \<notin> set b \<Longrightarrow> rfind_char c (a @ c # b) = Some (length a)"
proof (induction a)
  case Nil
  then show ?case by (auto simp: str_simps split: option.splits)
next
  case (Cons x a)
  then show ?case by simp
qed

lemma find_char_Some:
  "find_char c s = Some i \<Longrightarrow> s = take i s @ c # drop (Suc i) s \<and> c \<notin> set (take i s) \<and> i < length s"
  by (induction s arbitrary: i) (auto split: if_splits)

lemma rfind_char_Some:
  "rfind_char c s = Some i \<Longrightarrow> s = take i s @ c # drop (Suc i) s \<and> c \<notin> set (drop (Suc i) s) \<and> i < length s"
proof (induction s arbitrary: i)
  case Nil
  then show ?case by simp
next
  case (Cons x s)
  show ?case
  proof (cases "rfind_char c s")
    case None
    with Cons.prems show ?thesis by (auto simp: str_simps split: if_splits)
  next
    case (Some j)
    with Cons show ?thesis by auto
  qed
qed

lemma rfind_char_split:
  assumes "rfind_char c s = Some i"
  obtains a b where "s = a @ c # b" "c \<notin> set b" "i = length a"
proof -
  from rfind_char_Some [OF assms]
  have s: "s = take i s @ c # drop (Suc i) s" and n: "c \<notin> set (drop (Suc i) s)" and i: "i < length s"
    by auto
  from i have "i = length (take i s)" by simp
  then show thesis by (rule that [OF s n])
qed

section \<open>Ordered maps\<close>

text \<open>
  \<open>std::map<string, T>\<close> as an association list sorted by key: iteration runs in list order,
  \<open>m[k] = v\<close> is \<open>omap_put\<close>, \<open>m.at(k)\<close> and \<open>m.find(k)\<close> are \<open>map_of\<close>.
\<close>

type_synonym 'v omap = "(string \<times> 'v) list"

fun omap_put :: "string \<Rightarrow> 'v \<Rightarrow> 'v omap \<Rightarrow> 'v omap" where
  "omap_put k v [] = [(k, v)]"
| "omap_put k v ((k', v') # m) =
     (if k = k' then (k, v) # m else if k < k' then (k, v) # (k', v') # m else (k', v') # omap_put k v m)"

definition omap_ok :: "'v omap \<Rightarrow> bool" where
  "omap_ok m = (sorted (map fst m) \<and> distinct (map fst m))"

lemma omap_put_keys [omap_simps]: "set (map fst (omap_put k v m)) = insert k (set (map fst m))"
  by (induction k v m rule: omap_put.induct) auto

lemma map_of_omap_put [omap_simps]:
  "omap_ok m \<Longrightarrow> map_of (omap_put k v m) = (map_of m)(k \<mapsto> v)"
proof (induction k v m rule: omap_put.induct)
  case (1 k v)
  then show ?case by simp
next
  case (2 k v k' v' m)
  then have "omap_ok m" by (simp add: omap_ok_def)
  with 2 show ?case by (auto simp: fun_eq_iff)
qed

lemma omap_ok_put [omap_simps]: "omap_ok m \<Longrightarrow> omap_ok (omap_put k v m)"
proof (induction k v m rule: omap_put.induct)
  case (1 k v)
  then show ?case by (simp add: omap_ok_def)
next
  case (2 k v k' v' m)
  from 2(2) have m: "omap_ok m" and le: "\<forall>x \<in> set (map fst m). k' \<le> x" and ni: "k' \<notin> set (map fst m)"
    by (auto simp: omap_ok_def)
  show ?case
  proof (cases "k \<le> k'")
    case True
    with 2(2) show ?thesis by (fastforce simp: omap_ok_def)
  next
    case False
    then have ih: "omap_ok (omap_put k v m)" using 2(1) m by auto
    have "\<forall>x \<in> insert k (set (map fst m)). k' \<le> x" "k' \<notin> insert k (set (map fst m))"
      using False le ni by auto
    then have "\<forall>x \<in> set (map fst (omap_put k v m)). k' \<le> x" "k' \<notin> set (map fst (omap_put k v m))"
      by (simp_all add: omap_put_keys del: set_map)
    with False ih show ?thesis by (auto simp: omap_ok_def)
  qed
qed

lemma omap_ok_Nil [omap_simps]: "omap_ok []"
  by (simp add: omap_ok_def)

section \<open>Formatted output\<close>

text \<open>The formats \<open>{:<n}\<close>, with a filling character, and \<open>{:>n}\<close> of \<open>fmt\<close>, and truth values.\<close>

definition pad :: "nat \<Rightarrow> char \<Rightarrow> string \<Rightarrow> string" where
  "pad n c s = s @ replicate (n - length s) c"

definition pad_left :: "nat \<Rightarrow> string \<Rightarrow> string" where
  "pad_left n s = replicate (n - length s) (CHR '' '') @ s"

definition show_bool :: "bool \<Rightarrow> string" where
  "show_bool b = (if b then ''true'' else ''false'')"

end
