(* ===== verification/Glob.thy ===== *)
theory Glob
  imports Prelude
begin

text \<open>
  \<open>glob_match\<close> of \<open>src/src/utils.cpp\<close>: the pattern matcher behind every listing of the database
  and of the workspace directories. The model keeps the pointers \<open>pat\<close>, \<open>str\<close>, \<open>back_pat\<close> and
  \<open>back_str\<close> as the remaining strings; the terminating NUL is the end of the list. The reference
  is a token list (\<open>glob_tokens\<close>) with a declarative meaning (\<open>tokens_match\<close>), in which a star
  may stand for any string.
\<close>

section \<open>The matcher as the code has it\<close>

text \<open>
  The character class loop: \<open>a\<close> is the first character of the remaining class; \<open>None\<close> is the jump
  to \<open>literal\<close> of a malformed class, otherwise the flag \<open>match\<close> and the pattern behind \<open>]\<close>.
\<close>

definition class_span :: "char \<Rightarrow> string \<Rightarrow> (char \<times> string) option" where
  "class_span a cclass =
     (case cclass of
        x # y # rest \<Rightarrow>
          if x = CHR ''-'' \<and> y \<noteq> CHR '']'' then Some (y, rest) else Some (a, cclass)
      | [x] \<Rightarrow> if x = CHR ''-'' then None else Some (a, cclass)
      | [] \<Rightarrow> Some (a, cclass))"

lemma class_span_length: "class_span a cl = Some (b, cl') \<Longrightarrow> length cl' \<le> length cl"
  by (auto simp: class_span_def split: list.splits if_splits)

function (sequential) class_loop :: "char \<Rightarrow> bool \<Rightarrow> string \<Rightarrow> (bool \<times> string) option" where
  "class_loop c m [] = None"
| "class_loop c m (a # cclass) =
     (case class_span a cclass of
        None \<Rightarrow> None
      | Some (b, rest) \<Rightarrow>
          let m' = (m \<or> (a \<le> c \<and> c \<le> b))
          in case rest of
               [] \<Rightarrow> None
             | a' # rest' \<Rightarrow> if a' = CHR '']'' then Some (m', rest') else class_loop c m' rest)"
  by pat_completeness auto
termination
  by (relation "measure (\<lambda>(c, m, s). length s)") (auto dest: class_span_length)

declare class_loop.simps(2) [simp del]

text \<open>The class as a whole: a leading \<open>!\<close> inverts; the result says whether \<open>c\<close> is accepted.\<close>

definition class_match :: "char \<Rightarrow> string \<Rightarrow> (bool \<times> string) option" where
  "class_match c pat =
     (let inverted = (pat \<noteq> [] \<and> hd pat = CHR ''!'');
          cclass = (if inverted then tl pat else pat)
      in map_option (\<lambda>(m, rest). (m \<noteq> inverted, rest)) (class_loop c False cclass))"

lemma class_loop_length: "class_loop c m s = Some (r, rest) \<Longrightarrow> length rest < length s"
proof (induction c m s arbitrary: r rest rule: class_loop.induct)
  case (1 c m)
  then show ?case by simp
next
  case (2 c m a cclass)
  from "2.prems" obtain b a' rest' where span: "class_span a cclass = Some (b, a' # rest')"
    by (auto simp: class_loop.simps(2) Let_def split: option.splits list.splits)
  have len: "length (a' # rest') \<le> length cclass" by (rule class_span_length [OF span])
  show ?case
  proof (cases "a' = CHR '']''")
    case True
    with "2.prems" span len show ?thesis by (simp add: class_loop.simps(2) Let_def)
  next
    case False
    with "2.prems" span have "class_loop c (m \<or> a \<le> c \<and> c \<le> b) (a' # rest') = Some (r, rest)"
      by (simp add: class_loop.simps(2) [of c m a cclass])
    from "2.IH" [OF span refl refl refl False this] len show ?thesis by simp
  qed
qed

lemma class_match_length: "class_match c s = Some (r, rest) \<Longrightarrow> length rest < length s"
  by (cases s) (auto simp: class_match_def Let_def dest!: class_loop_length split: if_splits)

text \<open>
  What the switch decides for one token: \<open>Accept\<close> (return true), \<open>Reject\<close> (return false),
  \<open>Next p s\<close> (go on behind the token), \<open>Star p\<close> (remember the position) or \<open>Retry\<close> (the label
  \<open>backtrack\<close>).
\<close>

datatype glob_step = Accept | Reject | Next string string | Star string | Retry

fun literal :: "char option \<Rightarrow> string \<Rightarrow> string \<Rightarrow> glob_step" where
  "literal None p [] = Accept"
| "literal (Some d) p (c # s) = (if c = d then Next p s else Retry)"
| "literal d p s = Retry"

fun glob_token :: "string \<Rightarrow> string \<Rightarrow> glob_step" where
  "glob_token [] str = literal None [] str"
| "glob_token (d # p) str =
     (if d = CHR ''?'' then (case str of [] \<Rightarrow> Reject | c # s \<Rightarrow> Next p s)
      else if d = CHR ''*'' then (if p = [] then Accept else Star p)
      else if d = CHR ''['' then
        (case str of
           [] \<Rightarrow> Reject
         | c # s \<Rightarrow>
             (case class_match c p of
                None \<Rightarrow> literal (Some d) p str
              | Some (ok, rest) \<Rightarrow> if ok then Next rest s else Retry))
      else if d = CHR 0x5C then
        (case p of [] \<Rightarrow> literal None [] str | e # p' \<Rightarrow> literal (Some e) p' str)
      else literal (Some d) p str)"

lemma literal_Next: "literal d p s = Next p' s' \<Longrightarrow> d \<noteq> None \<and> p' = p \<and> length s' < length s"
  by (cases "(d, p, s)" rule: literal.cases) (auto split: if_splits)

lemma literal_not_Star: "literal d p s \<noteq> Star p'"
  by (cases "(d, p, s)" rule: literal.cases) auto

lemma glob_token_Next: "glob_token pat s = Next p' s' \<Longrightarrow> length p' < length pat"
  by (cases "(pat, s)" rule: glob_token.cases)
    (auto split: if_splits list.splits option.splits prod.splits
      dest!: literal_Next class_match_length simp: less_Suc_eq)

lemma glob_token_Star: "glob_token pat s = Star p' \<Longrightarrow> pat = CHR ''*'' # p' \<and> p' \<noteq> []"
  by (cases "(pat, s)" rule: glob_token.cases)
    (auto split: if_splits list.splits option.splits prod.splits simp: literal_not_Star)

text \<open>
  The loop. \<open>bk\<close> holds \<open>back_pat\<close> and \<open>back_str\<close>. It stops for every argument: a star shortens
  both patterns, a retry shortens \<open>back_str\<close>, and every other token shortens the pattern.
\<close>

function glob_loop :: "string \<Rightarrow> string \<Rightarrow> (string \<times> string) option \<Rightarrow> bool" where
  "glob_loop pat str bk =
     (case glob_token pat str of
        Accept \<Rightarrow> True
      | Reject \<Rightarrow> False
      | Next p s \<Rightarrow> glob_loop p s bk
      | Star p \<Rightarrow> glob_loop p str (Some (p, str))
      | Retry \<Rightarrow>
          if str = [] then False
          else (case bk of
                  Some (bp, b # bs) \<Rightarrow> glob_loop bp bs (Some (bp, bs))
                | _ \<Rightarrow> False))"
  by pat_completeness auto
termination
  by (relation "measures [\<lambda>(pat, str, bk). max (length pat) (case bk of None \<Rightarrow> 0 | Some (bp, bs) \<Rightarrow> length bp),
                          \<lambda>(pat, str, bk). (case bk of None \<Rightarrow> 0 | Some (bp, bs) \<Rightarrow> length bs),
                          \<lambda>(pat, str, bk). length pat]")
    (auto dest!: glob_token_Next glob_token_Star split: option.splits)

declare glob_loop.simps [simp del]

definition glob_match :: "string \<Rightarrow> string \<Rightarrow> bool" where
  "glob_match pat str = glob_loop pat str None"

section \<open>The reference: tokens and their meaning\<close>

datatype gtoken = GAny | GStar | GClass bool "(char \<times> char) list" | GLit char | GEnd

function (sequential) parse_spans :: "string \<Rightarrow> ((char \<times> char) list \<times> string) option" where
  "parse_spans [] = None"
| "parse_spans (a # cclass) =
     (case class_span a cclass of
        None \<Rightarrow> None
      | Some (b, rest) \<Rightarrow>
          (case rest of
             [] \<Rightarrow> None
           | a' # rest' \<Rightarrow>
               if a' = CHR '']'' then Some ([(a, b)], rest')
               else map_option (\<lambda>(sp, r). ((a, b) # sp, r)) (parse_spans rest)))"
  by pat_completeness auto
termination
  by (relation "measure length") (auto dest: class_span_length)

definition parse_class :: "string \<Rightarrow> (bool \<times> (char \<times> char) list \<times> string) option" where
  "parse_class pat =
     (let inverted = (pat \<noteq> [] \<and> hd pat = CHR ''!'')
      in map_option (\<lambda>(sp, rest). (inverted, sp, rest)) (parse_spans (if inverted then tl pat else pat)))"

definition in_spans :: "char \<Rightarrow> (char \<times> char) list \<Rightarrow> bool" where
  "in_spans c sp = list_ex (\<lambda>(a, b). a \<le> c \<and> c \<le> b) sp"

lemma class_loop_spans:
  "class_loop c m s = map_option (\<lambda>(sp, rest). (m \<or> in_spans c sp, rest)) (parse_spans s)"
proof (induction c m s rule: class_loop.induct)
  case (1 c m)
  then show ?case by simp
next
  case (2 c m a cclass)
  then show ?case
    by (auto simp: class_loop.simps(2) [of c m a cclass] in_spans_def Let_def option.map_comp comp_def case_prod_beta
        split: option.splits list.splits)
qed

lemma class_match_parse:
  "class_match c p = map_option (\<lambda>(neg, sp, rest). (in_spans c sp \<noteq> neg, rest)) (parse_class p)"
  by (simp add: class_match_def parse_class_def Let_def class_loop_spans option.map_comp comp_def case_prod_beta)

lemma parse_class_length: "parse_class p = Some (neg, sp, rest) \<Longrightarrow> length rest < length p"
  using class_match_length [of undefined p "in_spans undefined sp \<noteq> neg" rest] by (simp add: class_match_parse)

function (sequential) glob_tokens :: "string \<Rightarrow> gtoken list" where
  "glob_tokens [] = []"
| "glob_tokens (d # p) =
     (if d = CHR ''?'' then GAny # glob_tokens p
      else if d = CHR ''*'' then GStar # glob_tokens p
      else if d = CHR ''['' then
        (case parse_class p of
           None \<Rightarrow> GLit d # glob_tokens p
         | Some (neg, sp, rest) \<Rightarrow> GClass neg sp # glob_tokens rest)
      else if d = CHR 0x5C then
        (case p of [] \<Rightarrow> [GEnd] | e # p' \<Rightarrow> GLit e # glob_tokens p')
      else GLit d # glob_tokens p)"
  by pat_completeness auto
termination
  by (relation "measure length") (auto dest: parse_class_length)

fun token_char :: "gtoken \<Rightarrow> char \<Rightarrow> bool" where
  "token_char GAny c = True"
| "token_char (GClass neg sp) c = (in_spans c sp \<noteq> neg)"
| "token_char (GLit d) c = (c = d)"
| "token_char _ c = False"

fun tokens_match :: "gtoken list \<Rightarrow> string \<Rightarrow> bool" where
  "tokens_match [] s = (s = [])"
| "tokens_match (GStar # ts) s = list_ex (tokens_match ts) (suffixes s)"
| "tokens_match (GEnd # ts) s = (s = [])"
| "tokens_match (t # ts) [] = False"
| "tokens_match (t # ts) (c # s) = (token_char t c \<and> tokens_match ts s)"

definition fixed_token :: "gtoken \<Rightarrow> bool" where
  "fixed_token t = (t \<noteq> GStar \<and> t \<noteq> GEnd)"

lemma tokens_match_fixed:
  "fixed_token t \<Longrightarrow> tokens_match (t # ts) s \<longleftrightarrow> (\<exists>c s'. s = c # s' \<and> token_char t c \<and> tokens_match ts s')"
  by (cases t; cases s) (auto simp: fixed_token_def)

lemma tokens_match_Star: "tokens_match (GStar # ts) s \<longleftrightarrow> (\<exists>s'. suffix s' s \<and> tokens_match ts s')"
  by (auto simp: list_ex_iff)

lemma tokens_match_prefix:
  "list_all fixed_token al \<Longrightarrow> tokens_match (al @ ts) s \<Longrightarrow>
     length al \<le> length s \<and> tokens_match ts (drop (length al) s)"
proof (induction al arbitrary: s)
  case Nil
  then show ?case by simp
next
  case (Cons t al)
  from Cons.prems obtain c s' where "s = c # s'" "tokens_match (al @ ts) s'" "list_all fixed_token al"
    by (auto simp: tokens_match_fixed)
  with Cons.IH [of s'] show ?case by simp
qed

section \<open>One level of backtracking is enough\<close>

text \<open>
  The invariant of the loop: since the last star only tokens of one character were consumed, so the
  text consumed since then is as long as that piece of the pattern.
\<close>

fun back_inv :: "string \<Rightarrow> string \<Rightarrow> (string \<times> string) option \<Rightarrow> bool" where
  "back_inv pat str None = True"
| "back_inv pat str (Some (bp, bs)) =
     (\<exists>al u. list_all fixed_token al \<and> glob_tokens bp = al @ glob_tokens pat \<and> bs = u @ str \<and> length u = length al)"

fun back_possible :: "(string \<times> string) option \<Rightarrow> bool" where
  "back_possible None = False"
| "back_possible (Some (bp, bs)) = (\<exists>s. strict_suffix s bs \<and> tokens_match (glob_tokens bp) s)"

lemma suffix_short: "suffix x (u @ str) \<Longrightarrow> length x \<le> length str \<Longrightarrow> suffix x str"
  by (auto simp: suffix_append)

lemma strict_suffix_drop:
  "strict_suffix s (u @ str) \<Longrightarrow> length u \<le> length s \<Longrightarrow> suffix (drop (length u) s) str"
proof -
  assume "strict_suffix s (u @ str)" and len: "length u \<le> length s"
  then have "suffix (drop (length u) s) (u @ str)"
    by (meson suffix_drop suffix_order.dual_order.strict_implies_order suffix_order.trans)
  moreover have "length (drop (length u) s) \<le> length str"
    using suffix_length_le [of s "u @ str"] \<open>strict_suffix s (u @ str)\<close> by (simp add: strict_suffix_def)
  ultimately show ?thesis by (rule suffix_short)
qed

lemma back_possible_tail:
  assumes "back_inv pat str bk" and "back_possible bk"
  obtains s where "suffix s str" "tokens_match (glob_tokens pat) s" "length s < length str"
proof -
  from assms(2) obtain bp bs s where b: "bk = Some (bp, bs)" and s: "strict_suffix s bs"
    and m: "tokens_match (glob_tokens bp) s"
    by (cases bk) auto
  from assms(1) b obtain al u where al: "list_all fixed_token al" "glob_tokens bp = al @ glob_tokens pat"
    and u: "bs = u @ str" "length u = length al"
    by auto
  from tokens_match_prefix [OF al(1)] m al(2) have
    "length al \<le> length s" "tokens_match (glob_tokens pat) (drop (length al) s)" by auto
  moreover have "length s < length bs"
    using s by (metis suffix_length_less)
  moreover have "suffix (drop (length u) s) str" if "length al \<le> length s"
    using strict_suffix_drop [of s u str] s u that by simp
  ultimately show thesis
    using that [of "drop (length al) s"] u by auto
qed

lemma back_inv_Next:
  assumes "back_inv pat (c # s) bk" and "glob_tokens pat = t # glob_tokens p" and "fixed_token t"
  shows "back_inv p s bk"
proof (cases bk)
  case None
  then show ?thesis by simp
next
  case (Some b)
  obtain bp bs where b: "b = (bp, bs)" by (cases b)
  with Some assms(1) obtain al u where "list_all fixed_token al" "glob_tokens bp = al @ glob_tokens pat"
    "bs = u @ c # s" "length u = length al"
    by auto
  with assms(2,3) have "list_all fixed_token (al @ [t])" "glob_tokens bp = (al @ [t]) @ glob_tokens p"
    "bs = (u @ [c]) @ s" "length (u @ [c]) = length (al @ [t])"
    by auto
  then show ?thesis unfolding Some b back_inv.simps by blast
qed

lemma tokens_match_nonempty: "suffix s [] \<Longrightarrow> length s < length ([] :: string) \<Longrightarrow> False"
  by simp

text \<open>How one token of the code relates to one token of the reference.\<close>

lemma literal_cases:
  "literal (Some d) p str = (case str of c # s \<Rightarrow> if c = d then Next p s else Retry | [] \<Rightarrow> Retry)"
  "literal None p str = (if str = [] then Accept else Retry)"
  by (cases str; simp)+

lemma glob_token_cases:
  "case glob_token pat str of
     Accept \<Rightarrow> tokens_match (glob_tokens pat) str
   | Reject \<Rightarrow> str = [] \<and> \<not> tokens_match (glob_tokens pat) str
   | Retry \<Rightarrow> \<not> tokens_match (glob_tokens pat) str
   | Star p \<Rightarrow> glob_tokens pat = GStar # glob_tokens p
   | Next p s \<Rightarrow> (\<exists>c t. str = c # s \<and> glob_tokens pat = t # glob_tokens p \<and> fixed_token t \<and> token_char t c)"
proof (cases pat)
  case Nil
  then show ?thesis by (cases str) auto
next
  case (Cons d p)
  consider "d = CHR ''?''" | "d = CHR ''*''" | "d = CHR ''[''" "parse_class p = None"
    | neg sp rest where "d = CHR ''[''" "parse_class p = Some (neg, sp, rest)"
    | "d = CHR 0x5C" "p = []" | e p' where "d = CHR 0x5C" "p = e # p'"
    | "d \<notin> {CHR ''?'', CHR ''*'', CHR ''['', CHR 0x5C}"
    by (cases "parse_class p"; cases p) auto
  then show ?thesis
  proof cases
    case 1
    with Cons show ?thesis by (cases str) (auto simp: fixed_token_def)
  next
    case 2
    with Cons show ?thesis by (auto simp: tokens_match_Star simp del: tokens_match.simps(2))
  next
    case 3
    with Cons show ?thesis by (cases str) (auto simp: fixed_token_def class_match_parse)
  next
    case (4 neg sp rest)
    with Cons show ?thesis by (cases str) (auto simp: fixed_token_def class_match_parse)
  next
    case 5
    with Cons show ?thesis by (cases str) auto
  next
    case (6 e p')
    with Cons show ?thesis by (cases str) (auto simp: fixed_token_def)
  next
    case 7
    with Cons show ?thesis by (cases str) (auto simp: fixed_token_def)
  qed
qed

lemma back_possible_Retry:
  "back_possible (Some (bp, b # bs)) \<longleftrightarrow> tokens_match (glob_tokens bp) bs \<or> back_possible (Some (bp, bs))"
proof -
  have "strict_suffix s (b # bs) \<longleftrightarrow> s = bs \<or> strict_suffix s bs" for s
    using suffix_length_le [of "b # bs" bs] by (auto simp: strict_suffix_def suffix_Cons)
  then show ?thesis by auto
qed

lemma glob_loop_correct:
  "back_inv pat str bk \<Longrightarrow>
     glob_loop pat str bk \<longleftrightarrow> tokens_match (glob_tokens pat) str \<or> back_possible bk"
proof (induction pat str bk rule: glob_loop.induct)
  case (1 pat str bk)
  note tok = glob_token_cases [of pat str]
  note binv = "1.prems"
  show ?case
  proof (cases "glob_token pat str")
    case Accept
    with tok show ?thesis by (simp add: glob_loop.simps [of pat])
  next
    case Reject
    with tok binv show ?thesis
      by (auto simp: glob_loop.simps [of pat] elim!: back_possible_tail)
  next
    case (Next p s)
    with tok obtain c t where t: "str = c # s" "glob_tokens pat = t # glob_tokens p" "fixed_token t" "token_char t c"
      by auto
    have "back_inv p s bk" using binv t by (auto intro: back_inv_Next)
    from "1.IH"(1) [OF Next this] Next t show ?thesis
      by (auto simp: glob_loop.simps [of pat] tokens_match_fixed)
  next
    case (Star p)
    have "back_inv p str (Some (p, str))" by (auto intro: exI [of _ "[]"])
    from "1.IH"(2) [OF Star this] Star tok
    have "glob_loop pat str bk \<longleftrightarrow> tokens_match (glob_tokens pat) str"
      by (auto simp: glob_loop.simps [of pat] tokens_match_Star strict_suffix_def simp del: tokens_match.simps(2))
    moreover have "back_possible bk \<Longrightarrow> tokens_match (glob_tokens pat) str"
    proof -
      assume "back_possible bk"
      with binv obtain s where "suffix s str" "tokens_match (glob_tokens pat) s"
        by (rule back_possible_tail)
      with Star tok show ?thesis
        by (auto simp: tokens_match_Star simp del: tokens_match.simps(2) dest: suffix_order.trans)
    qed
    ultimately show ?thesis by blast
  next
    case Retry
    show ?thesis
    proof (cases "str = []")
      case True
      with Retry tok binv show ?thesis
        by (auto simp: glob_loop.simps [of pat] elim!: back_possible_tail)
    next
      case str: False
      show ?thesis
      proof (cases bk)
        case None
        with Retry tok str show ?thesis by (simp add: glob_loop.simps [of pat])
      next
        case (Some b)
        obtain bp bs0 where b: "b = (bp, bs0)" by (cases b)
        from binv str Some b obtain c bs where bs: "bs0 = c # bs" by (cases bs0) auto
        have "back_inv bp bs (Some (bp, bs))" by (auto intro: exI [of _ "[]"])
        from "1.IH"(3) [OF Retry str _ _ _ this] Some b bs
        have "glob_loop bp bs (Some (bp, bs)) \<longleftrightarrow> back_possible bk"
          by (auto simp: back_possible_Retry simp del: back_possible.simps)
        with Retry tok str Some b bs show ?thesis
          by (simp add: glob_loop.simps [of pat] del: back_possible.simps)
      qed
    qed
  qed
qed

section \<open>Results\<close>

text \<open>
  For every pattern and every name, \<open>glob_match\<close>, which only ever returns to the last star,
  answers as the declarative meaning of the pattern does (stars stand for any string, \<open>?\<close> for one
  character, a class for one of its characters, a malformed class for a literal bracket, a
  backslash for the next character): one level of backtracking is enough.
\<close>

lemma glob_match_tokens: "glob_match pat str \<longleftrightarrow> tokens_match (glob_tokens pat) str"
  by (simp add: glob_match_def glob_loop_correct)

text \<open>A string without special characters, as user names and workspace names are.\<close>

definition glob_plain :: "string \<Rightarrow> bool" where
  "glob_plain s = list_all (\<lambda>c. c \<noteq> CHR ''?'' \<and> c \<noteq> CHR ''*'' \<and> c \<noteq> CHR ''['' \<and> c \<noteq> CHR 0x5C) s"

lemma glob_plain_append [simp]: "glob_plain (a @ b) \<longleftrightarrow> glob_plain a \<and> glob_plain b"
  by (simp add: glob_plain_def)

lemma glob_tokens_plain: "glob_plain s \<Longrightarrow> glob_tokens (s @ p) = map GLit s @ glob_tokens p"
  by (induction s) (auto simp: glob_plain_def)

lemma tokens_match_literals: "tokens_match (map GLit s @ ts) str \<longleftrightarrow> (\<exists>t. str = s @ t \<and> tokens_match ts t)"
proof (induction s arbitrary: str)
  case Nil
  then show ?case by simp
next
  case (Cons d s)
  then show ?case by (cases str) auto
qed

lemma glob_match_plain_prefix:
  "glob_plain s \<Longrightarrow> glob_match (s @ p) str \<longleftrightarrow> (\<exists>t. str = s @ t \<and> glob_match p t)"
  by (simp add: glob_match_tokens glob_tokens_plain tokens_match_literals)

lemma glob_match_Nil [simp]: "glob_match [] str \<longleftrightarrow> str = []"
  by (simp add: glob_match_tokens)

lemma glob_match_star [simp]: "glob_match ''*'' str"
  by (auto simp: glob_match_tokens tokens_match_Star simp del: tokens_match.simps(2))

lemma glob_match_plain: "glob_plain s \<Longrightarrow> glob_match s str \<longleftrightarrow> str = s"
  using glob_match_plain_prefix [of s "[]" str] by simp

lemma glob_match_star_prefix:
  "glob_match (CHR ''*'' # p) str \<longleftrightarrow> (\<exists>s'. suffix s' str \<and> glob_match p s')"
  by (auto simp: glob_match_tokens tokens_match_Star simp del: tokens_match.simps(2))

section \<open>Properties\<close>

text \<open>C6. The matcher with its single restart position after a star (the loop of \<open>glob_match\<close>, which
  never backtracks more than one level) accepts a string exactly when the tokens of the pattern match
  it in the naive, fully backtracking sense; in particular the loop ends on every input.\<close>

theorem glob_match_correct: "glob_match pat str \<longleftrightarrow> tokens_match (glob_tokens pat) str"
  by (rule glob_match_tokens)

end
