(* ===== verification/Text.thy ===== *)
theory Text
  imports Prelude
begin

text \<open>
  The string helpers of \<open>src/src/utils.cpp\<close>: \<open>splitString\<close>, \<open>getFirstLine\<close>, \<open>trimright\<close>, the
  workspace name check, the owner and name parts of an id (\<open>getOwner\<close>, \<open>getID\<close>) and the trailing
  timestamp of a deleted id (\<open>timestampFromId\<close>), together with \<open>HasGroupIntersection\<close> of
  \<open>src/src/utils.h\<close>.
\<close>

section \<open>splitString, getFirstLine, trimright\<close>

text \<open>
  The loop of \<open>std::getline\<close> calls: each call takes the characters up to the delimiter; it fails
  when the stream is at its end, so a trailing delimiter adds no empty word.
\<close>

function splitString :: "string \<Rightarrow> char \<Rightarrow> string list" where
  "splitString str delimiter =
     (if str = [] then []
      else takeWhile (\<lambda>c. c \<noteq> delimiter) str
           # splitString (drop (Suc (length (takeWhile (\<lambda>c. c \<noteq> delimiter) str))) str) delimiter)"
  by pat_completeness auto
termination
  by (relation "measure (\<lambda>(s, d). length s)") auto

declare splitString.simps [simp del]

lemma splitString_Nil [str_simps]: "splitString [] d = []"
  by (simp add: splitString.simps)

lemma splitString_single [str_simps]: "s \<noteq> [] \<Longrightarrow> d \<notin> set s \<Longrightarrow> splitString s d = [s]"
proof -
  assume s: "s \<noteq> []" "d \<notin> set s"
  then have tw: "takeWhile (\<lambda>c. c \<noteq> d) s = s" by (auto simp: takeWhile_eq_all_conv)
  show ?thesis using s(1) unfolding splitString.simps [of s] tw by (simp add: str_simps)
qed

lemma takeWhile_delim: "d \<notin> set a \<Longrightarrow> takeWhile (\<lambda>c. c \<noteq> d) (a @ d # b) = a"
  by (induction a) auto

lemma splitString_Cons [str_simps]: "d \<notin> set a \<Longrightarrow> splitString (a @ d # b) d = a # splitString b d"
  by (subst splitString.simps) (simp add: takeWhile_delim)

lemma splitString_no_delim: "w \<in> set (splitString s d) \<Longrightarrow> d \<notin> set w"
proof (induction s d rule: splitString.induct)
  case (1 str delimiter)
  show ?case
  proof (cases "str = []")
    case True
    with "1.prems" show ?thesis by (simp add: str_simps)
  next
    case False
    with 1 show ?thesis
      by (subst (asm) splitString.simps) (auto dest: set_takeWhileD)
  qed
qed

text \<open>The words joined with the delimiter, as \<open>generateToHeader\<close> and the command lines write them.\<close>

fun join_with :: "char \<Rightarrow> string list \<Rightarrow> string" where
  "join_with d [] = []"
| "join_with d [w] = w"
| "join_with d (w # ws) = w @ d # join_with d ws"

lemma splitString_join:
  "list_all (\<lambda>w. d \<notin> set w) ws \<Longrightarrow> ws = [] \<or> last ws \<noteq> [] \<Longrightarrow> splitString (join_with d ws) d = ws"
  by (induction d ws rule: join_with.induct) (auto simp: str_simps)

definition getFirstLine :: "string \<Rightarrow> string" where
  "getFirstLine s = (case find_char (CHR 0x0A) s of None \<Rightarrow> s | Some pos \<Rightarrow> take pos s)"

lemma getFirstLine_no_newline: "CHR 0x0A \<notin> set (getFirstLine s)"
  by (auto simp: getFirstLine_def str_simps split: option.splits dest!: find_char_Some)

lemma getFirstLine_append: "CHR 0x0A \<notin> set a \<Longrightarrow> getFirstLine (a @ CHR 0x0A # b) = a"
  by (simp add: getFirstLine_def str_simps)

definition trimright :: "string \<Rightarrow> string" where
  "trimright s = rev (dropWhile (\<lambda>c. c \<in> {CHR '' '', CHR 0x0A, CHR 0x0D, CHR 0x09}) (rev s))"

section \<open>Workspace names\<close>

definition between :: "char \<Rightarrow> char \<Rightarrow> char \<Rightarrow> bool" where
  "between lo hi c = (lo \<le> c \<and> c \<le> hi)"

definition isAsciiAlnum :: "char \<Rightarrow> bool" where
  "isAsciiAlnum c =
     (between (CHR ''a'') (CHR ''z'') c \<or> between (CHR ''A'') (CHR ''Z'') c \<or> between (CHR ''0'') (CHR ''9'') c)"

fun isValidWorkspaceName :: "string \<Rightarrow> bool" where
  "isValidWorkspaceName [] = False"
| "isValidWorkspaceName (c # cs) =
     (isAsciiAlnum c \<and>
      list_all (\<lambda>c. isAsciiAlnum c \<or> c = CHR ''.'' \<or> c = CHR ''_'' \<or> c = CHR ''-'') cs)"

lemma isAsciiAlnum_not:
  "isAsciiAlnum c \<Longrightarrow> c \<notin> {CHR ''/'', CHR ''?'', CHR ''*'', CHR ''['', CHR 0x5C, CHR ''.'', CHR ''-'', CHR 0x0A}"
  by (auto simp: isAsciiAlnum_def between_def less_eq_char_def)

lemma valid_name_chars:
  "isValidWorkspaceName s \<Longrightarrow> c \<in> set s \<Longrightarrow> isAsciiAlnum c \<or> c = CHR ''.'' \<or> c = CHR ''_'' \<or> c = CHR ''-''"
  by (cases s) (auto simp: list_all_iff)

section \<open>Owner and name of an id\<close>

text \<open>
  \<open>user::exists\<close> (a lookup in the passwd database) is the parameter \<open>known\<close>. The loop of
  \<open>getOwner\<close> goes from the last dash backwards; \<open>owner_loop known wsid i\<close> looks at the dashes
  before position \<open>i\<close>.
\<close>

fun owner_loop :: "(string \<Rightarrow> bool) \<Rightarrow> string \<Rightarrow> nat \<Rightarrow> string option" where
  "owner_loop known wsid 0 = None"
| "owner_loop known wsid (Suc i) =
     (if wsid ! i = CHR ''-'' \<and> known (take i wsid) then Some (take i wsid)
      else owner_loop known wsid i)"

definition getOwner :: "(string \<Rightarrow> bool) \<Rightarrow> string \<Rightarrow> string" where
  "getOwner known wsid =
     (case find_char (CHR ''-'') wsid of
        None \<Rightarrow> []
      | Some pos \<Rightarrow>
          (case owner_loop known wsid (length wsid) of
             Some owner \<Rightarrow> owner
           | None \<Rightarrow> take pos wsid))"

text \<open>\<open>s.substr(pos)\<close> throws \<open>std::out_of_range\<close> (\<open>None\<close>) when \<open>pos\<close> is behind the end.\<close>

definition substr_from :: "nat \<Rightarrow> string \<Rightarrow> string option" where
  "substr_from pos s = (if pos \<le> length s then Some (drop pos s) else None)"

definition getID :: "(string \<Rightarrow> bool) \<Rightarrow> string \<Rightarrow> string option" where
  "getID known wsid =
     (if count_list wsid (CHR ''-'') = 1 then
        (case rfind_char (CHR ''-'') wsid of
           None \<Rightarrow> Some []
         | Some last_dash \<Rightarrow> substr_from (last_dash + 1) wsid)
      else substr_from (length (getOwner known wsid) + 1) wsid)"

lemma owner_loop_Some:
  "owner_loop known wsid i = Some u \<Longrightarrow> i \<le> length wsid \<Longrightarrow> known u \<and> prefix (u @ ''-'') wsid"
proof (induction i)
  case 0
  then show ?case by simp
next
  case (Suc i)
  show ?case
  proof (cases "wsid ! i = CHR ''-'' \<and> known (take i wsid)")
    case True
    with Suc.prems have "u = take i wsid" "known u" by auto
    moreover have "take (Suc i) wsid = u @ ''-''"
      using True Suc.prems(2) \<open>u = take i wsid\<close> by (simp add: take_Suc_conv_app_nth)
    ultimately show ?thesis by (metis take_is_prefix)
  next
    case False
    with Suc show ?thesis by auto
  qed
qed

lemma owner_loop_longest:
  assumes "known u" and "length u < i" and "prefix (u @ ''-'') wsid" and "i \<le> length wsid"
    and "\<forall>v. known v \<longrightarrow> prefix (v @ ''-'') wsid \<longrightarrow> length v \<le> length u"
  shows "owner_loop known wsid i = Some u"
  using assms
proof (induction i)
  case 0
  then show ?case by simp
next
  case (Suc i)
  from Suc.prems(3) obtain r where w: "wsid = u @ CHR ''-'' # r" by (auto simp: prefix_def)
  show ?case
  proof (cases "i = length u")
    case True
    with w Suc.prems(1) show ?thesis by simp
  next
    case False
    then have lt: "length u < i" using Suc.prems(2) by simp
    have "\<not> (wsid ! i = CHR ''-'' \<and> known (take i wsid))"
    proof
      assume a: "wsid ! i = CHR ''-'' \<and> known (take i wsid)"
      then have "prefix (take i wsid @ ''-'') wsid"
        using Suc.prems(4) take_Suc_conv_app_nth [of i wsid] by (metis Suc_le_eq take_is_prefix)
      with a Suc.prems(5) have "length (take i wsid) \<le> length u" by blast
      with lt Suc.prems(4) show False by simp
    qed
    with Suc lt show ?thesis by auto
  qed
qed

section \<open>The timestamp of a deleted id\<close>

definition timestampFromId :: "string \<Rightarrow> int option" where
  "timestampFromId wsid =
     (case rfind_char (CHR ''-'') wsid of
        None \<Rightarrow> None
      | Some dash \<Rightarrow>
          if dash = 0 \<or> dash + 1 \<ge> length wsid then None
          else (let suffix = drop (dash + 1) wsid
                in if list_all is_digit suffix then stoll_digits suffix else None))"

lemma timestampFromId_show [str_simps]:
  assumes "base \<noteq> []" and "int n \<le> LLONG_MAX"
  shows "timestampFromId (base @ CHR ''-'' # show_nat n) = Some (int n)"
  using assms by (simp add: timestampFromId_def str_simps num_simps Let_def)

lemma timestampFromId_nonneg: "timestampFromId wsid = Some ts \<Longrightarrow> 0 \<le> ts \<and> ts \<le> LLONG_MAX"
  by (auto simp: timestampFromId_def Let_def split: option.splits if_splits dest: stoll_nonneg)

section \<open>Common groups of two users\<close>

text \<open>
  \<open>HasGroupIntersection\<close>: the sorted group list of the caller and a cache of answers.
  \<open>user::getUserGroupList\<close> is the parameter \<open>groups_of\<close>. \<open>set_intersection\<close> merges two sorted
  ranges.
\<close>

fun set_intersection :: "string list \<Rightarrow> string list \<Rightarrow> string list" where
  "set_intersection [] ys = []"
| "set_intersection xs [] = []"
| "set_intersection (x # xs) (y # ys) =
     (if x < y then set_intersection xs (y # ys)
      else if y < x then set_intersection (x # xs) ys
      else x # set_intersection xs ys)"

record group_cache =
  baselist :: "string list"
  resultcache :: "string \<rightharpoonup> bool"

definition new_group_cache :: "(string \<Rightarrow> string list) \<Rightarrow> string \<Rightarrow> group_cache" where
  "new_group_cache groups_of baseuser = \<lparr>baselist = sort (groups_of baseuser), resultcache = Map.empty\<rparr>"

definition hasCommonGroups :: "(string \<Rightarrow> string list) \<Rightarrow> string \<Rightarrow> group_cache \<Rightarrow> bool \<times> group_cache" where
  "hasCommonGroups groups_of user gc =
     (case resultcache gc user of
        Some r \<Rightarrow> (r, gc)
      | None \<Rightarrow>
          let comparelist = groups_of user
          in if comparelist = [] then (True, gc\<lparr>resultcache := (resultcache gc)(user \<mapsto> True)\<rparr>)
             else let r = (set_intersection (baselist gc) (sort comparelist) \<noteq> [])
                  in (r, gc\<lparr>resultcache := (resultcache gc)(user \<mapsto> r)\<rparr>))"

lemma set_intersection_sound:
  "sorted xs \<Longrightarrow> sorted ys \<Longrightarrow> set (set_intersection xs ys) = set xs \<inter> set ys"
proof (induction xs ys rule: set_intersection.induct)
  case (3 x xs y ys)
  have "x \<notin> set (y # ys)" if "x < y" using 3(5) that by auto
  moreover have "y \<notin> set (x # xs)" if "y < x" using 3(4) that by auto
  ultimately show ?case using 3 by auto
qed auto

text \<open>What the answer means, and the invariant of the cache.\<close>

definition common_groups :: "(string \<Rightarrow> string list) \<Rightarrow> string \<Rightarrow> string \<Rightarrow> bool" where
  "common_groups groups_of u v = (groups_of v = [] \<or> set (groups_of u) \<inter> set (groups_of v) \<noteq> {})"

definition group_cache_ok :: "(string \<Rightarrow> string list) \<Rightarrow> string \<Rightarrow> group_cache \<Rightarrow> bool" where
  "group_cache_ok groups_of u gc \<longleftrightarrow>
     sorted (baselist gc) \<and> set (baselist gc) = set (groups_of u) \<and>
     (\<forall>v r. resultcache gc v = Some r \<longrightarrow> r = common_groups groups_of u v)"

lemma new_group_cache_ok: "group_cache_ok groups_of u (new_group_cache groups_of u)"
  by (simp add: group_cache_ok_def new_group_cache_def)

lemma intersection_common:
  "group_cache_ok groups_of u gc \<Longrightarrow>
     (set_intersection (baselist gc) (sort xs) \<noteq> []) = (set (groups_of u) \<inter> set xs \<noteq> {})"
  using set_intersection_sound [of "baselist gc" "sort xs"]
  by (simp add: group_cache_ok_def flip: set_empty)

lemma hasCommonGroups_miss:
  assumes "group_cache_ok groups_of u gc" and "resultcache gc v = None"
  shows "hasCommonGroups groups_of v gc =
    (common_groups groups_of u v,
     gc\<lparr>resultcache := (resultcache gc)(v \<mapsto> common_groups groups_of u v)\<rparr>)"
  using intersection_common [OF assms(1), of "groups_of v"] assms(2)
  by (simp add: hasCommonGroups_def common_groups_def Let_def)

lemma hasCommonGroups_hit:
  assumes "group_cache_ok groups_of u gc" and "resultcache gc v = Some r"
  shows "hasCommonGroups groups_of v gc = (common_groups groups_of u v, gc)"
  using assms by (auto simp: hasCommonGroups_def group_cache_ok_def)

lemma hasCommonGroups_answer:
  "group_cache_ok groups_of u gc \<Longrightarrow>
     fst (hasCommonGroups groups_of v gc) = common_groups groups_of u v"
  by (cases "resultcache gc v") (simp_all add: hasCommonGroups_miss hasCommonGroups_hit)

lemma hasCommonGroups_cache:
  assumes "group_cache_ok groups_of u gc"
  shows "group_cache_ok groups_of u (snd (hasCommonGroups groups_of v gc))"
proof (cases "resultcache gc v")
  case None
  show ?thesis unfolding hasCommonGroups_miss [OF assms None] snd_conv
    using assms by (simp add: group_cache_ok_def)
next
  case (Some r)
  with assms show ?thesis by (simp add: hasCommonGroups_hit)
qed

section \<open>Properties\<close>

lemma count_dash_split:
  "count_list (u @ CHR ''-'' # n) (CHR ''-'') = 1 \<longleftrightarrow> CHR ''-'' \<notin> set u \<and> CHR ''-'' \<notin> set n"
  by (simp add: count_list_0_iff)

lemma getOwner_longest:
  assumes "known u" and "\<forall>v. known v \<longrightarrow> prefix (v @ ''-'') (u @ CHR ''-'' # n) \<longrightarrow> length v \<le> length u"
  shows "getOwner known (u @ CHR ''-'' # n) = u"
proof -
  have "owner_loop known (u @ CHR ''-'' # n) (length (u @ CHR ''-'' # n)) = Some u"
    by (rule owner_loop_longest) (use assms in \<open>auto simp: prefix_def\<close>)
  moreover have "find_char (CHR ''-'') (u @ CHR ''-'' # n) \<noteq> None" by (simp add: str_simps)
  ultimately show ?thesis by (auto simp: getOwner_def split: option.splits)
qed

text \<open>The id of a workspace can be taken apart again: when the user is known to the system and no
  longer known name is a prefix of the id up to a dash, \<open>getOwner\<close> gives the user and \<open>getID\<close> the name,
  with any number of dashes in either.\<close>

theorem id_round_trip:
  assumes "known u" and "\<forall>v. known v \<longrightarrow> prefix (v @ ''-'') (u @ CHR ''-'' # n) \<longrightarrow> length v \<le> length u"
  shows "getOwner known (u @ CHR ''-'' # n) = u \<and> getID known (u @ CHR ''-'' # n) = Some n"
proof
  show o: "getOwner known (u @ CHR ''-'' # n) = u" by (rule getOwner_longest [OF assms])
  show "getID known (u @ CHR ''-'' # n) = Some n"
  proof (cases "count_list (u @ CHR ''-'' # n) (CHR ''-'') = 1")
    case True
    then have "CHR ''-'' \<notin> set n" unfolding count_dash_split by simp
    with True show ?thesis by (simp add: getID_def str_simps substr_from_def)
  next
    case False
    show ?thesis unfolding getID_def if_not_P [OF False] o by (simp add: substr_from_def)
  qed
qed

lemma id_round_trip_witness:
  "getOwner (\<lambda>x. x = ''a-b'' \<or> x = ''a'') ''a-b-c-d'' = ''a-b'' \<and>
   getID (\<lambda>x. x = ''a-b'' \<or> x = ''a'') ''a-b-c-d'' = Some ''c-d''"
  using id_round_trip [of "\<lambda>x. x = ''a-b'' \<or> x = ''a''" "''a-b''" "''c-d''"] by auto

text \<open>The cache of \<open>HasGroupIntersection\<close> is transparent: starting from the constructor, after any
  sequence of queries the next answer is no exactly when the other user is known and shares no group
  with the caller, whatever was asked before.\<close>

theorem group_cache_transparent:
  "(\<not> fst (hasCommonGroups groups_of v (foldl (\<lambda>gc q. snd (hasCommonGroups groups_of q gc)) (new_group_cache groups_of u) qs)))
     = (groups_of v \<noteq> [] \<and> set (groups_of u) \<inter> set (groups_of v) = {})"
proof -
  have "group_cache_ok groups_of u (foldl (\<lambda>gc q. snd (hasCommonGroups groups_of q gc)) gc qs)"
    if "group_cache_ok groups_of u gc" for gc
    using that by (induction qs arbitrary: gc) (simp_all add: hasCommonGroups_cache)
  from this [OF new_group_cache_ok] show ?thesis
    by (simp add: hasCommonGroups_answer common_groups_def)
qed

end
