(* ===== verification/Regex.thy ===== *)
theory Regex
  imports Prelude
begin

text \<open>
  The regular expressions of the code (\<open>std::regex\<close>, used with \<open>std::regex_match\<close> only, so as
  plain languages): a syntax of expressions over character ranges, a matcher by derivatives, and
  \<open>isValidEmail\<close> of \<open>src/src/utils.cpp\<close>.
\<close>

section \<open>Expressions and their matcher\<close>

datatype rx =
    Void
  | Eps
  | Ranges bool "(nat \<times> nat) list"   \<comment> \<open>the flag: \<open>std::regex_constants::icase\<close>\<close>
  | Seq rx rx
  | Alt rx rx
  | Many rx

definition lower :: "nat \<Rightarrow> nat" where
  "lower n = (if 65 \<le> n \<and> n \<le> 90 then n + 32 else n)"

definition upper :: "nat \<Rightarrow> nat" where
  "upper n = (if 97 \<le> n \<and> n \<le> 122 then n - 32 else n)"

definition in_ranges :: "nat \<Rightarrow> (nat \<times> nat) list \<Rightarrow> bool" where
  "in_ranges n rs = list_ex (\<lambda>(a, b). a \<le> n \<and> n \<le> b) rs"

definition range_char :: "bool \<Rightarrow> (nat \<times> nat) list \<Rightarrow> char \<Rightarrow> bool" where
  "range_char icase rs c =
     (let n = of_char c in in_ranges n rs \<or> icase \<and> (in_ranges (lower n) rs \<or> in_ranges (upper n) rs))"

fun nullable :: "rx \<Rightarrow> bool" where
  "nullable Void = False"
| "nullable Eps = True"
| "nullable (Ranges i rs) = False"
| "nullable (Seq r s) = (nullable r \<and> nullable s)"
| "nullable (Alt r s) = (nullable r \<or> nullable s)"
| "nullable (Many r) = True"

text \<open>Constructors that drop \<open>Void\<close> and \<open>Eps\<close>, so that derivatives stay small.\<close>

fun seq :: "rx \<Rightarrow> rx \<Rightarrow> rx" where
  "seq Void s = Void"
| "seq Eps s = s"
| "seq r s = Seq r s"

fun alt :: "rx \<Rightarrow> rx \<Rightarrow> rx" where
  "alt Void s = s"
| "alt r Void = r"
| "alt r s = Alt r s"

fun deriv :: "char \<Rightarrow> rx \<Rightarrow> rx" where
  "deriv c Void = Void"
| "deriv c Eps = Void"
| "deriv c (Ranges i rs) = (if range_char i rs c then Eps else Void)"
| "deriv c (Seq r s) =
     (if nullable r then alt (seq (deriv c r) s) (deriv c s) else seq (deriv c r) s)"
| "deriv c (Alt r s) = alt (deriv c r) (deriv c s)"
| "deriv c (Many r) = seq (deriv c r) (Many r)"

fun regex_match :: "string \<Rightarrow> rx \<Rightarrow> bool" where
  "regex_match [] r = nullable r"
| "regex_match (c # s) r = regex_match s (deriv c r)"

text \<open>The language of an expression.\<close>

inductive lang :: "rx \<Rightarrow> string \<Rightarrow> bool" where
  lang_Eps: "lang Eps []"
| lang_Ranges: "range_char i rs c \<Longrightarrow> lang (Ranges i rs) [c]"
| lang_Seq: "lang r a \<Longrightarrow> lang s b \<Longrightarrow> lang (Seq r s) (a @ b)"
| lang_Alt1: "lang r a \<Longrightarrow> lang (Alt r s) a"
| lang_Alt2: "lang s a \<Longrightarrow> lang (Alt r s) a"
| lang_Many0: "lang (Many r) []"
| lang_Many: "lang r (c # a) \<Longrightarrow> lang (Many r) b \<Longrightarrow> lang (Many r) (c # a @ b)"

inductive_simps lang_simps [simp]:
  "lang Void s" "lang Eps s" "lang (Ranges i rs) s" "lang (Alt r s) w"

inductive_cases lang_SeqE: "lang (Seq r s) w"
inductive_cases lang_ManyE: "lang (Many r) w"

lemma lang_Seq_iff: "lang (Seq r s) w \<longleftrightarrow> (\<exists>a b. w = a @ b \<and> lang r a \<and> lang s b)"
  by (blast elim: lang_SeqE intro: lang_Seq)

lemma lang_Seq_Cons:
  "lang (Seq r s) (c # w) \<longleftrightarrow> lang r [] \<and> lang s (c # w) \<or> (\<exists>a b. w = a @ b \<and> lang r (c # a) \<and> lang s b)"
  unfolding lang_Seq_iff by (subst eq_commute) (auto simp: append_eq_Cons_conv)

lemma lang_Many_Cons: "lang (Many r) (c # w) \<longleftrightarrow> (\<exists>a b. w = a @ b \<and> lang r (c # a) \<and> lang (Many r) b)"
  by (blast elim: lang_ManyE intro: lang_Many)

lemma lang_seq: "lang (seq r s) w \<longleftrightarrow> lang (Seq r s) w"
  by (cases "(r, s)" rule: seq.cases) (auto simp: lang_Seq_iff)

lemma lang_alt: "lang (alt r s) w \<longleftrightarrow> lang r w \<or> lang s w"
  by (cases "(r, s)" rule: alt.cases) auto

lemma nullable_lang: "nullable r \<longleftrightarrow> lang r []"
  by (induction r) (auto simp: lang_Seq_iff lang_Many0)

lemma deriv_lang: "lang (deriv c r) w \<longleftrightarrow> lang r (c # w)"
proof (induction r arbitrary: w)
  case (Seq r s)
  have "lang (Seq (deriv c r) s) w \<longleftrightarrow> (\<exists>a b. w = a @ b \<and> lang r (c # a) \<and> lang s b)"
    by (simp add: lang_Seq_iff Seq)
  with Seq(2) show ?case by (auto simp: lang_seq lang_alt nullable_lang lang_Seq_Cons)
next
  case (Many r)
  then show ?case by (simp add: lang_seq lang_Seq_iff lang_Many_Cons)
qed (auto simp: lang_alt)

lemma regex_match_lang: "regex_match s r \<longleftrightarrow> lang r s"
  by (induction s arbitrary: r) (simp_all add: nullable_lang deriv_lang)

text \<open>A bound on the characters of every word.\<close>

fun rx_chars :: "(char \<Rightarrow> bool) \<Rightarrow> rx \<Rightarrow> bool" where
  "rx_chars P Void = True"
| "rx_chars P Eps = True"
| "rx_chars P (Ranges i rs) = (\<forall>c. range_char i rs c \<longrightarrow> P c)"
| "rx_chars P (Seq r s) = (rx_chars P r \<and> rx_chars P s)"
| "rx_chars P (Alt r s) = (rx_chars P r \<and> rx_chars P s)"
| "rx_chars P (Many r) = rx_chars P r"

lemma lang_chars: "lang r w \<Longrightarrow> rx_chars P r \<Longrightarrow> list_all P w"
  by (induction rule: lang.induct) auto

section \<open>Building expressions\<close>

fun seqs :: "rx list \<Rightarrow> rx" where
  "seqs [] = Eps"
| "seqs [r] = r"
| "seqs (r # rs) = Seq r (seqs rs)"

fun alts :: "rx list \<Rightarrow> rx" where
  "alts [] = Void"
| "alts [r] = r"
| "alts (r # rs) = Alt r (alts rs)"

definition opt :: "rx \<Rightarrow> rx" where "opt r = Alt r Eps"
definition plus1 :: "rx \<Rightarrow> rx" where "plus1 r = Seq r (Many r)"
definition lit :: "bool \<Rightarrow> nat \<Rightarrow> rx" where "lit i n = Ranges i [(n, n)]"

primrec upto_times :: "nat \<Rightarrow> rx \<Rightarrow> rx" where
  "upto_times 0 r = Eps"
| "upto_times (Suc n) r = Alt Eps (Seq r (upto_times n r))"

lemma rx_chars_seqs [simp]: "rx_chars P (seqs rs) \<longleftrightarrow> list_all (rx_chars P) rs"
  by (induction rs rule: seqs.induct) auto

lemma rx_chars_alts [simp]: "rx_chars P (alts rs) \<longleftrightarrow> list_all (rx_chars P) rs"
  by (induction rs rule: alts.induct) auto

lemma rx_chars_upto: "rx_chars P r \<Longrightarrow> rx_chars P (upto_times n r)"
  by (induction n) auto

section \<open>isValidEmail\<close>

text \<open>
  The character classes of the two literals of \<open>isValidEmail\<close>, as ranges of codes: \<open>atext\<close> is
  \<open>[a-z0-9!#$%&'*+/=?^_`{|}~-]\<close>, \<open>qtext\<close> and \<open>qpair\<close> are the classes of the quoted form, \<open>octet\<close>
  is a decimal number up to 255.
\<close>

definition atext :: rx where
  "atext = Ranges True [(97,122), (48,57), (33,33), (35,39), (42,43), (47,47), (61,61), (63,63), (94,96), (123,126), (45,45)]"

definition qtext :: rx where
  "qtext = Ranges True [(1,8), (11,11), (12,12), (14,31), (33,33), (35,91), (93,127)]"

definition qpair :: rx where
  "qpair = Seq (lit True 92) (Ranges True [(1,9), (11,11), (12,12), (14,127)])"

definition local_part :: rx where
  "local_part = Alt (Seq (plus1 atext) (Many (Seq (lit True 46) (plus1 atext))))
                    (seqs [lit True 34, Many (Alt qtext qpair), lit True 34])"

definition alnum_i :: rx where "alnum_i = Ranges True [(97,122), (48,57)]"

definition dns_label :: rx where
  "dns_label = Seq alnum_i (opt (Seq (upto_times 61 (Ranges True [(97,122), (48,57), (45,45)])) alnum_i))"

definition octet :: rx where
  "octet = alts [seqs [lit True 50, lit True 53, Ranges True [(48,53)]],
                 seqs [lit True 50, Ranges True [(48,52)], Ranges True [(48,57)]],
                 seqs [opt (Ranges True [(48,49)]), Ranges True [(48,57)], opt (Ranges True [(48,57)])]]"

definition octet_dot :: rx where "octet_dot = Seq octet (lit True 46)"

definition email_regex :: rx where
  "email_regex = seqs [local_part, lit True 64,
     Alt (Seq (plus1 (Seq dns_label (lit True 46))) dns_label)
         (seqs [lit True 91, octet_dot, octet_dot, octet_dot, octet, lit True 93])]"

definition localemail_regex :: rx where
  "localemail_regex = seqs (local_part # map (lit True) [64, 108, 111, 99, 97, 108, 104, 111, 115, 116])"

definition isValidEmail :: "string \<Rightarrow> bool" where
  "isValidEmail email =
     (if \<not> regex_match email email_regex \<and> \<not> regex_match email localemail_regex then False
      else if length email > 254 then False
      else \<not> (sublist ''..'' email \<or> hd email = CHR ''@'' \<or> last email = CHR ''@'' \<or>
              sublist ''.@'' email \<or> sublist ''@.'' email))"

text \<open>
  Every class of the two expressions leaves out the line breaks and the NUL, and only has ASCII.
\<close>

definition mail_char :: "char \<Rightarrow> bool" where
  "mail_char c = (of_char c \<notin> {0, 10, 13 :: nat} \<and> (of_char c :: nat) < 128)"

lemma ranges_mail_char:
  "list_all (\<lambda>(a, b). 0 < a \<and> b < 128 \<and> \<not> (a \<le> 10 \<and> 10 \<le> b) \<and> \<not> (a \<le> 13 \<and> 13 \<le> b)) rs \<Longrightarrow>
     rx_chars mail_char (Ranges i rs)"
  by (fastforce simp: range_char_def in_ranges_def mail_char_def list_ex_iff list_all_iff lower_def upper_def Let_def
      split: if_splits)

lemmas email_defs = atext_def qtext_def qpair_def local_part_def alnum_i_def dns_label_def octet_def
  octet_dot_def opt_def plus1_def lit_def

lemma email_regex_chars: "rx_chars mail_char email_regex" "rx_chars mail_char localemail_regex"
  by (simp_all add: email_regex_def localemail_regex_def email_defs ranges_mail_char rx_chars_upto
      del: rx_chars.simps(3))

section \<open>Properties\<close>

lemma email_at: "lang email_regex e \<Longrightarrow> CHR ''@'' \<in> set e" "lang localemail_regex e \<Longrightarrow> CHR ''@'' \<in> set e"
proof -
  have at: "range_char True [(64, 64)] c \<Longrightarrow> c = CHR ''@''" for c
    using of_char_eq_iff [of c "CHR ''@''", where ?'a = nat]
    by (auto simp: range_char_def in_ranges_def lower_def upper_def Let_def split: if_splits)
  show "lang email_regex e \<Longrightarrow> CHR ''@'' \<in> set e"
    unfolding email_regex_def seqs.simps lit_def by (subst (asm) lang_Seq_iff) (auto simp: lang_Seq_iff dest: at)
  show "lang localemail_regex e \<Longrightarrow> CHR ''@'' \<in> set e"
    unfolding localemail_regex_def list.map seqs.simps lit_def
    by (subst (asm) lang_Seq_iff) (auto simp: lang_Seq_iff dest: at)
qed

text \<open>An accepted mail address can be put into a mail header: it has no line break, no NUL and only
  ASCII, at most 254 characters, and an at sign that is neither first nor last.\<close>

theorem isValidEmail_safe:
  assumes "isValidEmail e"
  shows "list_all (\<lambda>c. c \<noteq> CHR 0x0A \<and> c \<noteq> CHR 0x0D \<and> c \<noteq> CHR 0x00 \<and> (of_char c :: nat) < 128) e \<and>
    length e \<le> 254 \<and> (\<exists>a b. e = a @ CHR ''@'' # b \<and> a \<noteq> [] \<and> b \<noteq> [])"
proof -
  from assms have l: "lang email_regex e \<or> lang localemail_regex e" and len: "length e \<le> 254"
    and ends: "hd e \<noteq> CHR ''@''" "last e \<noteq> CHR ''@''"
    by (auto simp: isValidEmail_def regex_match_lang split: if_splits)
  from l have "list_all mail_char e"
    by (auto dest: lang_chars [OF _ email_regex_chars(1)] lang_chars [OF _ email_regex_chars(2)])
  then have chars: "list_all (\<lambda>c. c \<noteq> CHR 0x0A \<and> c \<noteq> CHR 0x0D \<and> c \<noteq> CHR 0x00 \<and> (of_char c :: nat) < 128) e"
    by (auto simp: list_all_iff mail_char_def)
  from l have "CHR ''@'' \<in> set e" using email_at by blast
  then obtain a b where e: "e = a @ CHR ''@'' # b" by (metis split_list)
  with ends have "a \<noteq> []" "b \<noteq> []" by auto
  with e chars len show ?thesis by blast
qed

lemma isValidEmail_safe_witness:
  "length ''a.b@c.de'' \<le> 254 \<and> (\<exists>a b. ''a.b@c.de'' = a @ CHR ''@'' # b \<and> a \<noteq> [] \<and> b \<noteq> [])"
proof -
  have "isValidEmail ''a.b@c.de''" by code_simp
  from isValidEmail_safe [OF this] show ?thesis by blast
qed

end
