(* ===== verification/Acl.thy ===== *)
theory Acl
  imports Text Regex
begin

text \<open>
  The access control lists of the configuration: the intents of \<open>src/src/ws.h\<close>, \<open>parseACL\<close> of
  \<open>src/src/utils.cpp\<close> and \<open>aclEntryAllows\<close> of \<open>src/src/config.cpp\<close>. The capture groups of the
  regular expression of \<open>parseACL\<close> are computed by \<open>acl_captures\<close>; \<open>acl_captures_regex\<close> shows that
  it accepts exactly the strings the expression matches.
\<close>

section \<open>Intents\<close>

datatype intent = LIST | USE | CREATE | EXTEND | RELEASE | RESTORE

definition intentnames :: "string \<rightharpoonup> intent" where
  "intentnames = map_of [(''list'', LIST), (''use'', USE), (''create'', CREATE),
                         (''extend'', EXTEND), (''release'', RELEASE), (''restore'', RESTORE)]"

section \<open>The shape of an entry\<close>

text \<open>The class \<open>\w\<close> in the C locale.\<close>

definition word_ranges :: "(nat \<times> nat) list" where
  "word_ranges = [(97,122), (65,90), (48,57), (95,95)]"

definition is_word :: "char \<Rightarrow> bool" where
  "is_word c = range_char False word_ranges c"

text \<open>\<open>\w+(,\w+)*\<close>; the flag says that the current word already has a character.\<close>

fun perm_words :: "bool \<Rightarrow> string \<Rightarrow> bool" where
  "perm_words started [] = started"
| "perm_words started (c # s) =
     (if is_word c then perm_words True s else c = CHR '','' \<and> started \<and> perm_words False s)"

text \<open>
  The groups 1, 2 and 4 of \<open>^([-+])?([^:]+)(:(\w+(,\w+)*)?)?$\<close>: the optional sign is taken when the
  part before the first colon has something left for group 2, a missing group is the empty string.
\<close>

definition is_sign :: "char \<Rightarrow> bool" where
  "is_sign c = (c = CHR ''-'' \<or> c = CHR ''+'')"

definition sign_of :: "string \<Rightarrow> string \<times> string" where
  "sign_of head = (if 2 \<le> length head \<and> is_sign (hd head) then ([hd head], tl head) else ([], head))"

definition acl_captures :: "string \<Rightarrow> (string \<times> string \<times> string) option" where
  "acl_captures e =
     (let head = takeWhile (\<lambda>c. c \<noteq> CHR '':'') e;
          rest = drop (length head) e;
          sg = sign_of head
      in if head = [] then None
         else if rest = [] \<or> tl rest = [] then Some (fst sg, snd sg, [])
         else if perm_words False (tl rest) then Some (fst sg, snd sg, tl rest)
         else None)"

section \<open>parseACL\<close>

type_synonym acl_entry = "string \<times> string \<times> intent list"

definition numerical_intents :: "string list \<Rightarrow> intent list" where
  "numerical_intents tokens = List.map_filter intentnames tokens"

definition parse_entry :: "string \<Rightarrow> acl_entry option" where
  "parse_entry entry =
     (case acl_captures entry of
        None \<Rightarrow> None
      | Some (sign, ident, permissions) \<Rightarrow>
          let modifier = (if sign = ''+'' \<or> sign = ''-'' then sign else ''+'');
              tokens = splitString permissions (CHR '','');
              intents = numerical_intents tokens
          in if tokens \<noteq> [] \<and> intents = [] then None
             else Some (ident, modifier, intents))"

definition parseACL :: "string list \<Rightarrow> acl_entry list" where
  "parseACL acl = List.map_filter parse_entry acl"

definition aclEntryAllows :: "string \<times> intent list \<Rightarrow> intent \<Rightarrow> bool" where
  "aclEntryAllows perm intent =
     (if length (snd perm) = 0 then fst perm = ''+''
      else (fst perm = ''+'') = (intent \<in> set (snd perm)))"

section \<open>The regular expression\<close>

definition sign_rx :: rx where "sign_rx = Ranges False [(45,45), (43,43)]"
definition ident_rx :: rx where "ident_rx = Ranges False [(0,57), (59,255)]"
definition word_rx :: rx where "word_rx = Ranges False word_ranges"

definition perms_rx :: rx where
  "perms_rx = Seq (plus1 word_rx) (Many (Seq (lit False 44) (plus1 word_rx)))"

definition acl_rx :: rx where
  "acl_rx = seqs [opt sign_rx, plus1 ident_rx, opt (Seq (lit False 58) (opt perms_rx))]"

lemma comma_not_word: "is_word c \<Longrightarrow> c \<noteq> CHR '',''"
  by (auto simp: is_word_def range_char_def in_ranges_def word_ranges_def)

lemma range_char_lit: "range_char False [(n, n)] c \<longleftrightarrow> of_char c = n"
  by (auto simp: range_char_def in_ranges_def Let_def)

lemma comma_code: "of_char c = (44::nat) \<longleftrightarrow> c = CHR '',''"
  using of_char_eq_iff [of c "CHR '',''", where ?'a = nat] by simp

lemma colon_code: "of_char c = (58::nat) \<longleftrightarrow> c = CHR '':''"
  using of_char_eq_iff [of c "CHR '':''", where ?'a = nat] by simp

lemma perm_words_lang:
  "(perm_words False s \<longleftrightarrow> lang perms_rx s) \<and>
   (perm_words True s \<longleftrightarrow> lang (Seq (Many word_rx) (Many (Seq (lit False 44) (plus1 word_rx)))) s)"
proof (induction s)
  case Nil
  show ?case by (simp add: perms_rx_def plus1_def word_rx_def flip: nullable_lang)
next
  case (Cons c s)
  show ?case
  proof (cases "is_word c")
    case True
    with comma_not_word have "c \<noteq> CHR '',''" by blast
    with True Cons show ?thesis
      by (simp add: perms_rx_def plus1_def word_rx_def lit_def is_word_def [symmetric] range_char_lit comma_code
          flip: deriv_lang)
  next
    case False
    with Cons show ?thesis
      by (simp add: perms_rx_def plus1_def word_rx_def lit_def is_word_def [symmetric] range_char_lit comma_code
          flip: deriv_lang)
  qed
qed

lemma lang_Many_Ranges: "lang (Many (Ranges i rs)) w \<longleftrightarrow> list_all (range_char i rs) w"
  by (induction w) (auto simp: lang_Many_Cons lang_Many0)

lemma lang_plus1_Ranges: "lang (plus1 (Ranges i rs)) w \<longleftrightarrow> w \<noteq> [] \<and> list_all (range_char i rs) w"
proof (cases w)
  case Nil
  then show ?thesis by (simp add: plus1_def flip: nullable_lang)
next
  case (Cons c w')
  then show ?thesis using lang_Many_Ranges [of i rs w'] by (simp add: plus1_def flip: deriv_lang)
qed

lemma lang_opt: "lang (opt r) w \<longleftrightarrow> lang r w \<or> w = []"
  by (auto simp: opt_def)

lemma ident_char: "range_char False [(0,57), (59,255)] c \<longleftrightarrow> c \<noteq> CHR '':''"
proof -
  have "(of_char c :: nat) \<le> 255" by (cases c) (simp add: of_char_Char horner_sum_simps split: if_splits)
  then show ?thesis using colon_code [of c]
    by (auto simp: range_char_def in_ranges_def Let_def)
qed

lemma sign_char: "range_char False [(45,45), (43,43)] c \<Longrightarrow> c \<noteq> CHR '':''"
  by (auto simp: range_char_def in_ranges_def Let_def)

lemma lang_ident: "lang (plus1 ident_rx) w \<longleftrightarrow> w \<noteq> [] \<and> CHR '':'' \<notin> set w"
  by (auto simp: ident_rx_def lang_plus1_Ranges ident_char list_all_iff)

lemma lang_head:
  "lang (Seq (opt sign_rx) (plus1 ident_rx)) w \<longleftrightarrow> w \<noteq> [] \<and> CHR '':'' \<notin> set w"
proof
  assume "lang (Seq (opt sign_rx) (plus1 ident_rx)) w"
  then show "w \<noteq> [] \<and> CHR '':'' \<notin> set w"
    by (auto simp: lang_Seq_iff lang_opt lang_ident sign_rx_def dest: sign_char)
next
  assume "w \<noteq> [] \<and> CHR '':'' \<notin> set w"
  then have "w = [] @ w" "lang (opt sign_rx) []" "lang (plus1 ident_rx) w"
    by (simp_all add: lang_opt lang_ident)
  then show "lang (Seq (opt sign_rx) (plus1 ident_rx)) w" unfolding lang_Seq_iff by blast
qed

lemma lang_Seq_assoc: "lang (Seq r (Seq s t)) w \<longleftrightarrow> lang (Seq (Seq r s) t) w"
proof -
  have "lang (Seq r (Seq s t)) w \<longleftrightarrow> (\<exists>a b c. w = a @ b @ c \<and> lang r a \<and> lang s b \<and> lang t c)"
    by (auto simp: lang_Seq_iff)
  also have "\<dots> \<longleftrightarrow> lang (Seq (Seq r s) t) w"
    unfolding lang_Seq_iff by (metis append_assoc)
  finally show ?thesis .
qed

lemma acl_rx_lang:
  "lang acl_rx e \<longleftrightarrow>
     (\<exists>head rest. e = head @ rest \<and> head \<noteq> [] \<and> CHR '':'' \<notin> set head \<and>
        (rest = [] \<or> (\<exists>p. rest = CHR '':'' # p \<and> (p = [] \<or> perm_words False p))))"
proof -
  have "lang (opt (Seq (lit False 58) (opt perms_rx))) rest \<longleftrightarrow>
      rest = [] \<or> (\<exists>p. rest = CHR '':'' # p \<and> (p = [] \<or> perm_words False p))" for rest
    by (cases rest)
       (auto simp: lang_opt lang_Seq_iff lit_def range_char_lit colon_code perm_words_lang)
  then show ?thesis
    by (simp add: acl_rx_def lang_Seq_assoc)
       (simp add: lang_Seq_iff [of "Seq (opt sign_rx) (plus1 ident_rx)"] lang_head)
qed

lemma takeWhile_colon:
  assumes "CHR '':'' \<notin> set head" and "rest = [] \<or> (\<exists>p. rest = CHR '':'' # p)"
  shows "takeWhile (\<lambda>c. c \<noteq> CHR '':'') (head @ rest) = head"
  using assms by (induction head) auto

lemma captures_append:
  assumes "CHR '':'' \<notin> set head" and "rest = [] \<or> (\<exists>p. rest = CHR '':'' # p)" and "head \<noteq> []"
  shows "acl_captures (head @ rest) =
    (if rest = [] \<or> tl rest = [] then Some (fst (sign_of head), snd (sign_of head), [])
     else if perm_words False (tl rest) then Some (fst (sign_of head), snd (sign_of head), tl rest)
     else None)"
  using assms(3) by (simp add: acl_captures_def takeWhile_colon [OF assms(1,2)] Let_def)

lemma colon_decompose:
  obtains head rest where "e = head @ rest" "CHR '':'' \<notin> set head" "rest = [] \<or> (\<exists>p. rest = CHR '':'' # p)"
proof
  let ?P = "\<lambda>c. c \<noteq> CHR '':''"
  show "e = takeWhile ?P e @ dropWhile ?P e" by simp
  show "CHR '':'' \<notin> set (takeWhile ?P e)" using set_takeWhileD by fastforce
  show "dropWhile ?P e = [] \<or> (\<exists>p. dropWhile ?P e = CHR '':'' # p)"
    using hd_dropWhile [of ?P e] by (cases "dropWhile ?P e") auto
qed

lemma captures_iff_rx: "acl_captures e \<noteq> None \<longleftrightarrow> lang acl_rx e"
proof -
  obtain head rest where e: "e = head @ rest" and h: "CHR '':'' \<notin> set head"
    and r: "rest = [] \<or> (\<exists>p. rest = CHR '':'' # p)" by (rule colon_decompose)
  have uniq: "head = head' \<and> rest = rest'"
    if "head @ rest = head' @ rest'" "CHR '':'' \<notin> set head'" "rest' = [] \<or> (\<exists>p. rest' = CHR '':'' # p)"
    for head' rest'
    using takeWhile_colon [OF h r] takeWhile_colon [OF that(2,3)] that(1) by simp
  have "lang acl_rx e \<longleftrightarrow> head \<noteq> [] \<and>
      (rest = [] \<or> (\<exists>p. rest = CHR '':'' # p \<and> (p = [] \<or> perm_words False p)))"
    unfolding acl_rx_lang e using h uniq by blast
  also have "\<dots> \<longleftrightarrow> acl_captures e \<noteq> None"
  proof (cases "head = []")
    case True
    with r show ?thesis by (auto simp: e acl_captures_def)
  next
    case False
    with r show ?thesis unfolding e captures_append [OF h r False] by auto
  qed
  finally show ?thesis by simp
qed

section \<open>Facts about entries\<close>

lemma acl_captures_plain:
  assumes "u \<noteq> []" and "CHR '':'' \<notin> set u" and "\<not> is_sign (hd u)"
  shows "acl_captures u = Some ([], u, [])"
    and "is_sign s \<Longrightarrow> acl_captures (s # u) = Some ([s], u, [])"
proof -
  show "acl_captures u = Some ([], u, [])"
    using captures_append [of u "[]"] assms by (simp add: sign_of_def)
  show "acl_captures (s # u) = Some ([s], u, [])" if "is_sign s"
    using captures_append [of "s # u" "[]"] assms that
    by (cases u) (auto simp: sign_of_def is_sign_def)
qed

lemma parse_entry_modifier: "parse_entry e = Some (ident, modifier, intents) \<Longrightarrow> modifier = ''+'' \<or> modifier = ''-''"
  by (auto simp: parse_entry_def Let_def split: option.splits if_splits prod.splits)

lemma parse_entry_plain:
  assumes "u \<noteq> []" and "CHR '':'' \<notin> set u" and "\<not> is_sign (hd u)"
  shows "parse_entry u = Some (u, ''+'', [])"
    and "parse_entry (CHR ''+'' # u) = Some (u, ''+'', [])"
    and "parse_entry (CHR ''-'' # u) = Some (u, ''-'', [])"
  using acl_captures_plain [OF assms]
  by (simp_all add: parse_entry_def is_sign_def str_simps numerical_intents_def map_filter_simps)

lemma parseACL_set: "set (parseACL acl) = {x. \<exists>e \<in> set acl. parse_entry e = Some x}"
  by (auto simp: parseACL_def List.map_filter_def) (metis (mono_tags, lifting) image_iff mem_Collect_eq option.sel)

lemma parseACL_cong: "set acl = set acl' \<Longrightarrow> set (parseACL acl) = set (parseACL acl')"
  by (simp add: parseACL_set)

section \<open>Properties\<close>

text \<open>The hand-written split of an ACL entry accepts exactly the strings of the code's regular
  expression \<open>^([-+])?([^:]+)(:(\w+(,\w+)*)?)?$\<close>.\<close>

theorem acl_captures_regex: "(acl_captures e \<noteq> None) = regex_match e acl_rx"
  by (simp only: captures_iff_rx regex_match_lang)

text \<open>A malformed permission list never becomes a full grant: when an entry names permissions and
  none of them is an intent, the entry is dropped and gives no rule for anybody.\<close>

theorem parse_entry_no_upgrade:
  assumes "acl_captures e = Some (sign, ident, permissions)" and "permissions \<noteq> []"
    and "\<forall>p \<in> set (splitString permissions (CHR '','')). intentnames p = None"
  shows "parse_entry e = None"
proof -
  have "splitString permissions (CHR '','') \<noteq> []"
    using assms(2) by (subst splitString.simps) simp
  moreover have "numerical_intents (splitString permissions (CHR '','')) = []"
    using assms(3) by (auto simp: numerical_intents_def List.map_filter_def filter_empty_conv)
  ultimately show ?thesis using assms(1) by (simp add: parse_entry_def Let_def)
qed

lemma parse_entry_no_upgrade_witness: "parse_entry ''+bob:fin'' = None"
proof (rule parse_entry_no_upgrade)
  show "acl_captures ''+bob:fin'' = Some (''+'', ''bob'', ''fin'')" by code_simp
  show "\<forall>p \<in> set (splitString ''fin'' (CHR '','')). intentnames p = None" by code_simp
qed simp

end
