(* ===== verification/Config.thy ===== *)
theory Config
  imports Acl "HOL-Library.Word"
begin

text \<open>
  \<open>src/src/config.h\<close> and \<open>src/src/config.cpp\<close>: the two records of the configuration, reading them
  from a YAML document, \<open>validate\<close>, and the queries (\<open>isAdmin\<close>, \<open>hasAccess\<close>, \<open>validFilesystems\<close>,
  \<open>database\<close>, \<open>deletedPath\<close>). yaml-cpp is not part of the repository: the accessors the code calls
  are the fields of a parameter of type \<open>yaml_cpp\<close>. Reading the files is in \<open>DbV1\<close>.
\<close>

section \<open>Data\<close>

type_synonym uid_t = "32 word"
type_synonym gid_t = "32 word"

record Global_config =
  clustername :: string
  smtphost :: string
  mail_from :: string
  defaultWorkspace :: string
  admins :: "string list"
  debugusers :: "string list"
  adminmail :: "string list"
  maxduration :: int
  durationdefault :: int
  reminderdefault :: int
  maxextensions :: int
  maxuserworkspaces :: int
  dbuid :: uid_t
  dbgid :: gid_t
  deldirtimeout :: int
  expirerlogpath :: string
  restorenosub :: bool

record Filesystem_config =
  fs_name :: string
  fs_comment :: string
  fs_spaces :: "string list"
  fs_spaceselection :: string
  fs_deletedPath :: string
  fs_database :: string
  fs_groupdefault :: "string list"
  fs_userdefault :: "string list"
  fs_user_acl :: "string list"
  fs_group_acl :: "string list"
  fs_keeptime :: int
  fs_releasekeeptime :: int
  fs_maxduration :: int
  fs_maxextensions :: int
  fs_expirationmail :: bool
  fs_allocatable :: bool
  fs_extendable :: bool
  fs_restorable :: bool

record config =
  global :: Global_config
  filesystems :: "Filesystem_config omap"
  isvalid :: bool

text \<open>The in-class initializers, and the assignments of the constructor that reads files.\<close>

definition Global_initial :: Global_config where
  "Global_initial =
     \<lparr>clustername = [], smtphost = [], mail_from = [], defaultWorkspace = [], admins = [],
      debugusers = [], adminmail = [], maxduration = 0, durationdefault = 1, reminderdefault = 0,
      maxextensions = 0, maxuserworkspaces = 0, dbuid = 0, dbgid = 0, deldirtimeout = 300,
      expirerlogpath = [], restorenosub = False\<rparr>"

definition config_initial :: config where
  "config_initial = \<lparr>global = Global_initial, filesystems = [], isvalid = False\<rparr>"

definition file_defaults :: "Global_config \<Rightarrow> Global_config" where
  "file_defaults g =
     g\<lparr>dbuid := 0, dbgid := 0, maxextensions := 10, maxduration := 100, durationdefault := 30,
       reminderdefault := 0, maxuserworkspaces := 0, deldirtimeout := 300, restorenosub := False\<rparr>"

section \<open>readYAML\<close>

text \<open>
  The part of yaml-cpp the code uses: \<open>Load\<close> parses a document, \<open>Key\<close> is \<open>node[key]\<close> (\<open>Bad_node\<close>
  when the node cannot be subscripted), the \<open>As\<close> functions are \<open>node.as<T>()\<close>, \<open>Pairs\<close> iterates
  over a map. \<open>None\<close> is an exception; nothing in the code catches it.
\<close>

datatype 'n lookup = Absent | Present 'n | Bad_node

record 'n yaml_cpp =
  Load :: "string \<Rightarrow> 'n option"
  Key :: "'n \<Rightarrow> string \<Rightarrow> 'n lookup"
  Pairs :: "'n \<Rightarrow> ('n \<times> 'n) list"
  As_string :: "'n \<Rightarrow> string option"
  As_strings :: "'n \<Rightarrow> string list option"
  As_int :: "'n \<Rightarrow> int option"
  As_long :: "'n \<Rightarrow> int option"
  As_bool :: "'n \<Rightarrow> bool option"
  As_uid :: "'n \<Rightarrow> uid_t option"

text \<open>\<open>if (node[key]) target = node[key].as<T>();\<close>, and the form with an \<open>else\<close>.\<close>

definition take_key :: "'n lookup \<Rightarrow> ('n \<Rightarrow> 'a option) \<Rightarrow> ('a \<Rightarrow> 's \<Rightarrow> 's) \<Rightarrow> 's \<Rightarrow> 's option" where
  "take_key l as_t store s =
     (case l of
        Absent \<Rightarrow> Some s
      | Bad_node \<Rightarrow> None
      | Present n \<Rightarrow> (case as_t n of None \<Rightarrow> None | Some a \<Rightarrow> Some (store a s)))"

definition take_key_or :: "'n lookup \<Rightarrow> ('n \<Rightarrow> 'a option) \<Rightarrow> ('a \<Rightarrow> 's \<Rightarrow> 's) \<Rightarrow> ('s \<Rightarrow> 'a) \<Rightarrow> 's \<Rightarrow> 's option" where
  "take_key_or l as_t store dflt s =
     (case l of Absent \<Rightarrow> Some (store (dflt s) s) | _ \<Rightarrow> take_key l as_t store s)"

primrec in_order :: "('s \<Rightarrow> 's option) list \<Rightarrow> 's \<Rightarrow> 's option" where
  "in_order [] s = Some s"
| "in_order (f # fs) s = (case f s of None \<Rightarrow> None | Some s' \<Rightarrow> in_order fs s')"

definition read_global :: "'n yaml_cpp \<Rightarrow> 'n \<Rightarrow> Global_config \<Rightarrow> Global_config option" where
  "read_global y c = in_order
     [take_key (Key y c ''clustername'') (As_string y) (\<lambda>v g. g\<lparr>clustername := v\<rparr>),
      take_key (Key y c ''smtphost'') (As_string y) (\<lambda>v g. g\<lparr>smtphost := v\<rparr>),
      take_key (Key y c ''mail_from'') (As_string y) (\<lambda>v g. g\<lparr>mail_from := v\<rparr>),
      take_key (Key y c ''default_workspace'') (As_string y) (\<lambda>v g. g\<lparr>defaultWorkspace := v\<rparr>),
      take_key (Key y c ''default'') (As_string y) (\<lambda>v g. g\<lparr>defaultWorkspace := v\<rparr>),
      take_key (Key y c ''duration'') (As_int y) (\<lambda>v g. g\<lparr>maxduration := v\<rparr>),
      take_key (Key y c ''maxduration'') (As_int y) (\<lambda>v g. g\<lparr>maxduration := v\<rparr>),
      take_key (Key y c ''durationdefault'') (As_int y) (\<lambda>v g. g\<lparr>durationdefault := v\<rparr>),
      take_key (Key y c ''reminderdefault'') (As_int y) (\<lambda>v g. g\<lparr>reminderdefault := v\<rparr>),
      take_key (Key y c ''maxextensions'') (As_int y) (\<lambda>v g. g\<lparr>maxextensions := v\<rparr>),
      take_key (Key y c ''dbuid'') (As_uid y) (\<lambda>v g. g\<lparr>dbuid := v\<rparr>),
      take_key (Key y c ''dbgid'') (As_uid y) (\<lambda>v g. g\<lparr>dbgid := v\<rparr>),
      take_key (Key y c ''admins'') (As_strings y) (\<lambda>v g. g\<lparr>admins := v\<rparr>),
      take_key (Key y c ''debugusers'') (As_strings y) (\<lambda>v g. g\<lparr>debugusers := v\<rparr>),
      take_key (Key y c ''adminmail'') (As_strings y) (\<lambda>v g. g\<lparr>adminmail := v\<rparr>),
      take_key (Key y c ''deldirtimeout'') (As_int y) (\<lambda>v g. g\<lparr>deldirtimeout := v\<rparr>),
      take_key (Key y c ''deldir_timeout'') (As_int y) (\<lambda>v g. g\<lparr>deldirtimeout := v\<rparr>),
      take_key (Key y c ''expirerlogpath'') (As_string y) (\<lambda>v g. g\<lparr>expirerlogpath := v\<rparr>),
      take_key (Key y c ''maxuserworkspaces'') (As_int y) (\<lambda>v g. g\<lparr>maxuserworkspaces := v\<rparr>),
      take_key (Key y c ''restorenosub'') (As_bool y) (\<lambda>v g. g\<lparr>restorenosub := v\<rparr>)]"

definition fs_initial :: "string \<Rightarrow> Filesystem_config" where
  "fs_initial n =
     \<lparr>fs_name = n, fs_comment = [], fs_spaces = [], fs_spaceselection = [], fs_deletedPath = [],
      fs_database = [], fs_groupdefault = [], fs_userdefault = [], fs_user_acl = [], fs_group_acl = [],
      fs_keeptime = 0, fs_releasekeeptime = 0, fs_maxduration = 0, fs_maxextensions = 0,
      fs_expirationmail = False, fs_allocatable = False, fs_extendable = False, fs_restorable = False\<rparr>"

text \<open>
  Every field the constructor of \<open>fs_initial\<close> leaves undefined in the code is assigned below on
  all branches before it is read.
\<close>

definition read_fs :: "'n yaml_cpp \<Rightarrow> Global_config \<Rightarrow> 'n \<Rightarrow> Filesystem_config \<Rightarrow> Filesystem_config option" where
  "read_fs y g ws = in_order
     [take_key (Key y ws ''spaces'') (As_strings y) (\<lambda>v f. f\<lparr>fs_spaces := v\<rparr>),
      take_key_or (Key y ws ''spaceselection'') (As_string y) (\<lambda>v f. f\<lparr>fs_spaceselection := v\<rparr>) (\<lambda>f. ''random''),
      take_key (Key y ws ''deleted'') (As_string y) (\<lambda>v f. f\<lparr>fs_deletedPath := v\<rparr>),
      take_key (Key y ws ''database'') (As_string y) (\<lambda>v f. f\<lparr>fs_database := v\<rparr>),
      take_key (Key y ws ''groupdefault'') (As_strings y) (\<lambda>v f. f\<lparr>fs_groupdefault := v\<rparr>),
      take_key (Key y ws ''userdefault'') (As_strings y) (\<lambda>v f. f\<lparr>fs_userdefault := v\<rparr>),
      take_key (Key y ws ''user_acl'') (As_strings y) (\<lambda>v f. f\<lparr>fs_user_acl := v\<rparr>),
      take_key (Key y ws ''group_acl'') (As_strings y) (\<lambda>v f. f\<lparr>fs_group_acl := v\<rparr>),
      take_key_or (Key y ws ''keeptime'') (As_long y) (\<lambda>v f. f\<lparr>fs_keeptime := v\<rparr>) (\<lambda>f. 10),
      take_key_or (Key y ws ''releasekeeptime'') (As_long y) (\<lambda>v f. f\<lparr>fs_releasekeeptime := v\<rparr>) fs_keeptime,
      (\<lambda>f. Some (f\<lparr>fs_maxduration := 0\<rparr>)),
      take_key (Key y ws ''maxduration'') (As_int y) (\<lambda>v f. f\<lparr>fs_maxduration := v\<rparr>),
      take_key (Key y ws ''duration'') (As_int y) (\<lambda>v f. f\<lparr>fs_maxduration := v\<rparr>),
      (\<lambda>f. Some (if fs_maxduration f = 0 \<and> maxduration g \<noteq> 0 then f\<lparr>fs_maxduration := maxduration g\<rparr> else f)),
      take_key_or (Key y ws ''maxextensions'') (As_int y) (\<lambda>v f. f\<lparr>fs_maxextensions := v\<rparr>) (\<lambda>f. maxextensions g),
      take_key_or (Key y ws ''expirationmail'') (As_bool y) (\<lambda>v f. f\<lparr>fs_expirationmail := v\<rparr>) (\<lambda>f. False),
      take_key_or (Key y ws ''allocatable'') (As_bool y) (\<lambda>v f. f\<lparr>fs_allocatable := v\<rparr>) (\<lambda>f. True),
      take_key_or (Key y ws ''extendable'') (As_bool y) (\<lambda>v f. f\<lparr>fs_extendable := v\<rparr>) (\<lambda>f. True),
      take_key_or (Key y ws ''restorable'') (As_bool y) (\<lambda>v f. f\<lparr>fs_restorable := v\<rparr>) (\<lambda>f. True),
      take_key (Key y ws ''comment'') (As_string y) (\<lambda>v f. f\<lparr>fs_comment := v\<rparr>)]"

primrec read_filesystems ::
  "'n yaml_cpp \<Rightarrow> Global_config \<Rightarrow> ('n \<times> 'n) list \<Rightarrow> Filesystem_config omap \<Rightarrow> Filesystem_config omap option" where
  "read_filesystems y g [] m = Some m"
| "read_filesystems y g (it # its) m =
     (case As_string y (fst it) of
        None \<Rightarrow> None
      | Some n \<Rightarrow>
          (case read_fs y g (snd it) (fs_initial n) of
             None \<Rightarrow> None
           | Some f \<Rightarrow> read_filesystems y g its (omap_put (fs_name f) f m)))"

definition read_section :: "'n yaml_cpp \<Rightarrow> 'n \<Rightarrow> string \<Rightarrow> config \<Rightarrow> config option" where
  "read_section y c key cfg =
     (case Key y c key of
        Absent \<Rightarrow> Some cfg
      | Bad_node \<Rightarrow> None
      | Present l \<Rightarrow>
          (case read_filesystems y (global cfg) (Pairs y l) (filesystems cfg) of
             None \<Rightarrow> None
           | Some m \<Rightarrow> Some (cfg\<lparr>filesystems := m\<rparr>)))"

definition readYAML :: "'n yaml_cpp \<Rightarrow> string \<Rightarrow> config \<Rightarrow> config option" where
  "readYAML y yaml cfg =
     (case Load y yaml of
        None \<Rightarrow> None
      | Some c \<Rightarrow>
          (case read_global y c (global cfg) of
             None \<Rightarrow> None
           | Some g \<Rightarrow> in_order [read_section y c ''workspaces'', read_section y c ''filesystems'']
                         (cfg\<lparr>global := g\<rparr>)))"

section \<open>validate\<close>

definition fs_complete :: "Filesystem_config \<Rightarrow> bool" where
  "fs_complete f = (fs_spaces f \<noteq> [] \<and> fs_database f \<noteq> [] \<and> fs_deletedPath f \<noteq> [])"

definition validate :: "config \<Rightarrow> bool \<times> config" where
  "validate c =
     (let g = global c;
          valid0 = (if dbuid g = 0 then False else True);
          valid1 = (if dbuid g = - 1 then False else valid0);
          valid2 = (if dbgid g = 0 then False else valid1);
          valid3 = (if dbgid g = - 1 then False else valid2);
          valid4 = (if clustername g = [] then False else valid3);
          valid5 = (if defaultWorkspace g = [] then False else valid4);
          valid6 = (if filesystems c = [] then False else valid5);
          valid = foldl (\<lambda>v fs. if fs_complete (snd fs) then v else False) valid6 (filesystems c)
      in (valid, c\<lparr>isvalid := valid\<rparr>))"

section \<open>Queries\<close>

definition isAdmin :: "config \<Rightarrow> string \<Rightarrow> bool" where
  "isAdmin c user = (user \<in> set (admins (global c)))"

definition isDebugUser :: "config \<Rightarrow> string \<Rightarrow> bool" where
  "isDebugUser c user = (if user = ''root'' then True else user \<in> set (debugusers (global c)))"

text \<open>The loop over the parsed entries: \<open>(any_match, all_allow)\<close>.\<close>

definition acl_scan :: "(string \<Rightarrow> bool) \<Rightarrow> intent \<Rightarrow> acl_entry list \<Rightarrow> bool \<times> bool" where
  "acl_scan matches intent entries =
     foldl (\<lambda>(any_match, all_allow) aclentry.
              if matches (fst aclentry)
              then (True, if aclEntryAllows (snd aclentry) intent then all_allow else False)
              else (any_match, all_allow))
           (False, True) entries"

definition acl_stage :: "string list \<Rightarrow> (string \<Rightarrow> bool) \<Rightarrow> intent \<Rightarrow> bool \<Rightarrow> bool" where
  "acl_stage acl matches intent ok =
     (if acl = [] then ok
      else (case acl_scan matches intent (parseACL acl) of
              (any_match, all_allow) \<Rightarrow> if any_match then all_allow else ok))"

definition hasAccess :: "config \<Rightarrow> string \<Rightarrow> string list \<Rightarrow> string \<Rightarrow> intent \<Rightarrow> bool" where
  "hasAccess c user groups filesystem intent =
     (case map_of (filesystems c) filesystem of
        None \<Rightarrow> False
      | Some f \<Rightarrow>
          let ok = (if fs_user_acl f \<noteq> [] \<or> fs_group_acl f \<noteq> [] then
                      acl_stage (fs_user_acl f) (\<lambda>i. i = user) intent
                        (acl_stage (fs_group_acl f) (\<lambda>i. i \<in> set groups) intent False)
                    else True)
          in if user \<in> set (admins (global c)) then True else ok)"

definition Filesystems :: "config \<Rightarrow> string list" where
  "Filesystems c = map fst (filesystems c)"

text \<open>
  The four passes of \<open>validFilesystems\<close>. Each takes the list built so far; the first two stop after
  the first filesystem they add.
\<close>

fun user_default_pass :: "(string \<Rightarrow> bool) \<Rightarrow> string \<Rightarrow> Filesystem_config omap \<Rightarrow> string list \<Rightarrow> string list" where
  "user_default_pass access user [] validfs = validfs"
| "user_default_pass access user ((fs, val) # rest) validfs =
     (if user \<in> set (fs_userdefault val) \<and> access fs \<and> fs \<notin> set validfs then validfs @ [fs]
      else user_default_pass access user rest validfs)"

fun group_default_pass :: "(string \<Rightarrow> bool) \<Rightarrow> string list \<Rightarrow> Filesystem_config omap \<Rightarrow> string list \<Rightarrow> string list" where
  "group_default_pass access groups [] validfs = validfs"
| "group_default_pass access groups ((fs, val) # rest) validfs =
     (if list_ex (\<lambda>group. group \<in> set (fs_groupdefault val) \<and> access fs \<and> fs \<notin> set validfs) groups
      then validfs @ [fs]
      else group_default_pass access groups rest validfs)"

definition global_default_pass :: "(string \<Rightarrow> bool) \<Rightarrow> string \<Rightarrow> string list \<Rightarrow> string list" where
  "global_default_pass access dflt validfs =
     (if dflt \<noteq> [] \<and> access dflt \<and> dflt \<notin> set validfs then validfs @ [dflt] else validfs)"

definition others_pass :: "(string \<Rightarrow> bool) \<Rightarrow> Filesystem_config omap \<Rightarrow> string list \<Rightarrow> string list" where
  "others_pass access m validfs =
     foldl (\<lambda>v fs. if access (fst fs) \<and> fst fs \<notin> set v then v @ [fst fs] else v) validfs m"

definition validFilesystems :: "config \<Rightarrow> string \<Rightarrow> string list \<Rightarrow> intent \<Rightarrow> string list" where
  "validFilesystems c user groups intent =
     (let access = (\<lambda>fs. hasAccess c user groups fs intent);
          v1 = user_default_pass access user (filesystems c) [];
          v2 = group_default_pass access groups (filesystems c) v1;
          v3 = global_default_pass access (defaultWorkspace (global c)) v2
      in others_pass access (filesystems c) v3)"

definition database :: "config \<Rightarrow> string \<Rightarrow> string" where
  "database c filesystem = (case map_of (filesystems c) filesystem of None \<Rightarrow> [] | Some f \<Rightarrow> fs_database f)"

definition deletedPath :: "config \<Rightarrow> string \<Rightarrow> string" where
  "deletedPath c filesystem = (case map_of (filesystems c) filesystem of None \<Rightarrow> [] | Some f \<Rightarrow> fs_deletedPath f)"

text \<open>\<open>getFsConfig\<close>: \<open>None\<close> is \<open>exit(-1)\<close>.\<close>

definition getFsConfig :: "config \<Rightarrow> string \<Rightarrow> Filesystem_config option" where
  "getFsConfig c filesystem = map_of (filesystems c) filesystem"

section \<open>Access\<close>

lemma acl_scan_acc:
  "foldl (\<lambda>(any_match, all_allow) aclentry.
      if matches (fst aclentry)
      then (True, if aclEntryAllows (snd aclentry) intent then all_allow else False)
      else (any_match, all_allow)) (a, b) entries =
   (a \<or> (\<exists>e \<in> set entries. matches (fst e)),
    b \<and> (\<forall>e \<in> set entries. matches (fst e) \<longrightarrow> aclEntryAllows (snd e) intent))"
  by (induction entries arbitrary: a b) auto

lemma acl_scan_iff:
  "acl_scan matches intent entries =
    (\<exists>e \<in> set entries. matches (fst e),
     \<forall>e \<in> set entries. matches (fst e) \<longrightarrow> aclEntryAllows (snd e) intent)"
  by (simp add: acl_scan_def acl_scan_acc)

text \<open>The verdict of one list: no entry applies, or all entries that apply allow.\<close>

definition applies :: "string list \<Rightarrow> (string \<Rightarrow> bool) \<Rightarrow> bool" where
  "applies acl matches = (\<exists>e \<in> set (parseACL acl). matches (fst e))"

definition all_allow :: "string list \<Rightarrow> (string \<Rightarrow> bool) \<Rightarrow> intent \<Rightarrow> bool" where
  "all_allow acl matches intent = (\<forall>e \<in> set (parseACL acl). matches (fst e) \<longrightarrow> aclEntryAllows (snd e) intent)"

lemma acl_stage_iff:
  "acl_stage acl matches intent ok = (if applies acl matches then all_allow acl matches intent else ok)"
  by (simp add: acl_stage_def acl_scan_iff applies_def all_allow_def parseACL_def map_filter_simps)

definition access_rule :: "Filesystem_config \<Rightarrow> string \<Rightarrow> string list \<Rightarrow> intent \<Rightarrow> bool" where
  "access_rule f user groups intent \<longleftrightarrow>
     (if fs_user_acl f = [] \<and> fs_group_acl f = [] then True
      else if applies (fs_user_acl f) (\<lambda>i. i = user) then all_allow (fs_user_acl f) (\<lambda>i. i = user) intent
      else applies (fs_group_acl f) (\<lambda>i. i \<in> set groups) \<and> all_allow (fs_group_acl f) (\<lambda>i. i \<in> set groups) intent)"

lemma hasAccess_iff:
  "hasAccess c user groups fs intent \<longleftrightarrow>
     (\<exists>f. map_of (filesystems c) fs = Some f \<and> (isAdmin c user \<or> access_rule f user groups intent))"
  by (auto simp: hasAccess_def isAdmin_def access_rule_def acl_stage_iff Let_def split: option.splits)

lemma hasAccess_known: "hasAccess c user groups fs intent \<Longrightarrow> fs \<in> set (Filesystems c)"
  by (auto simp: hasAccess_iff Filesystems_def simp flip: dom_map_of_conv_image_fst)

lemma applies_cong: "set acl = set acl' \<Longrightarrow> applies acl m = applies acl' m"
  unfolding applies_def by (drule parseACL_cong) simp

lemma all_allow_cong: "set acl = set acl' \<Longrightarrow> all_allow acl m i = all_allow acl' m i"
  unfolding all_allow_def by (drule parseACL_cong) simp

section \<open>The passes of validFilesystems\<close>

definition good_list :: "(string \<Rightarrow> bool) \<Rightarrow> string list \<Rightarrow> bool" where
  "good_list access v = (distinct v \<and> list_all access v)"

lemma user_default_pass_good: "good_list access v \<Longrightarrow> good_list access (user_default_pass access user m v)"
  by (induction access user m v rule: user_default_pass.induct) (auto simp: good_list_def)

lemma group_default_pass_good: "good_list access v \<Longrightarrow> good_list access (group_default_pass access gs m v)"
  by (induction access gs m v rule: group_default_pass.induct) (auto simp: good_list_def list_ex_iff)

lemma global_default_pass_good: "good_list access v \<Longrightarrow> good_list access (global_default_pass access d v)"
  by (simp add: global_default_pass_def good_list_def)

lemma others_pass_good: "good_list access v \<Longrightarrow> good_list access (others_pass access m v)"
  unfolding others_pass_def by (induction m arbitrary: v) (auto simp: good_list_def)

lemma others_pass_Cons:
  "others_pass access (x # m) v =
    others_pass access m (if access (fst x) \<and> fst x \<notin> set v then v @ [fst x] else v)"
  by (simp add: others_pass_def)

lemma others_pass_set: "set (others_pass access m v) = set v \<union> {fs \<in> set (map fst m). access fs}"
proof (induction m arbitrary: v)
  case Nil
  show ?case by (simp add: others_pass_def)
next
  case (Cons x m)
  show ?case unfolding others_pass_Cons Cons.IH by auto
qed

lemma user_default_pass_prefix: "prefix v (user_default_pass access user m v)"
  by (induction access user m v rule: user_default_pass.induct) auto

lemma group_default_pass_prefix: "prefix v (group_default_pass access gs m v)"
  by (induction access gs m v rule: group_default_pass.induct) auto

lemma global_default_pass_prefix: "prefix v (global_default_pass access d v)"
  by (simp add: global_default_pass_def)

lemma others_pass_prefix: "prefix v (others_pass access m v)"
proof (induction m arbitrary: v)
  case Nil
  show ?case by (simp add: others_pass_def)
next
  case (Cons x m)
  show ?case unfolding others_pass_Cons
    using Cons.IH [of "v @ [fst x]"] Cons.IH [of v] by (auto dest: append_prefixD)
qed

lemmas passes_good = user_default_pass_good group_default_pass_good global_default_pass_good others_pass_good
lemmas passes_prefix = user_default_pass_prefix group_default_pass_prefix global_default_pass_prefix others_pass_prefix

lemma validFilesystems_good:
  "good_list (\<lambda>fs. hasAccess c user groups fs intent) (validFilesystems c user groups intent)"
  by (simp add: validFilesystems_def Let_def passes_good good_list_def [of _ "[]"])

lemma validFilesystems_members:
  "set (validFilesystems c user groups intent) = {fs. hasAccess c user groups fs intent}"
proof
  show "set (validFilesystems c user groups intent) \<subseteq> {fs. hasAccess c user groups fs intent}"
    using validFilesystems_good [of c user groups intent] by (auto simp: good_list_def list_all_iff)
  show "{fs. hasAccess c user groups fs intent} \<subseteq> set (validFilesystems c user groups intent)"
    using hasAccess_known by (auto simp: validFilesystems_def Let_def others_pass_set Filesystems_def)
qed

definition user_default_of :: "config \<Rightarrow> string \<Rightarrow> string list \<Rightarrow> intent \<Rightarrow> string option" where
  "user_default_of c user groups intent =
     map_option fst (find (\<lambda>(fs, val). user \<in> set (fs_userdefault val) \<and> hasAccess c user groups fs intent) (filesystems c))"

definition group_default_of :: "config \<Rightarrow> string \<Rightarrow> string list \<Rightarrow> intent \<Rightarrow> string option" where
  "group_default_of c user groups intent =
     map_option fst (find (\<lambda>(fs, val). set groups \<inter> set (fs_groupdefault val) \<noteq> {} \<and> hasAccess c user groups fs intent) (filesystems c))"

lemma user_default_pass_find:
  "user_default_pass access user m [] =
    (case find (\<lambda>(fs, val). user \<in> set (fs_userdefault val) \<and> access fs) m of None \<Rightarrow> [] | Some x \<Rightarrow> [fst x])"
  by (induction access user m "[]::string list" rule: user_default_pass.induct) auto

lemma group_default_pass_find:
  "group_default_pass access gs m [] =
    (case find (\<lambda>(fs, val). set gs \<inter> set (fs_groupdefault val) \<noteq> {} \<and> access fs) m of None \<Rightarrow> [] | Some x \<Rightarrow> [fst x])"
  by (induction access gs m "[]::string list" rule: group_default_pass.induct) (auto simp: list_ex_iff)

text \<open>What stands first in the list: the user's default, else the groups' default, else the global default.\<close>

lemma validFilesystems_first:
  assumes "first =
    (case user_default_of c user groups intent of Some fs \<Rightarrow> Some fs
     | None \<Rightarrow> (case group_default_of c user groups intent of Some fs \<Rightarrow> Some fs
     | None \<Rightarrow> if defaultWorkspace (global c) \<noteq> [] \<and> hasAccess c user groups (defaultWorkspace (global c)) intent
               then Some (defaultWorkspace (global c)) else None))"
    and "first = Some fs"
  shows "\<exists>rest. validFilesystems c user groups intent = fs # rest"
proof -
  let ?acc = "\<lambda>fs. hasAccess c user groups fs intent"
  let ?v1 = "user_default_pass ?acc user (filesystems c) []"
  let ?v2 = "group_default_pass ?acc groups (filesystems c) ?v1"
  let ?v3 = "global_default_pass ?acc (defaultWorkspace (global c)) ?v2"
  have v: "validFilesystems c user groups intent = others_pass ?acc (filesystems c) ?v3"
    by (simp add: validFilesystems_def Let_def)
  have p: "prefix ?v1 ?v2" "prefix ?v2 ?v3" "prefix ?v3 (validFilesystems c user groups intent)"
    unfolding v by (rule passes_prefix)+
  have "prefix [fs] ?v3"
  proof (cases "user_default_of c user groups intent")
    case (Some u)
    with assms have "?v1 = [fs]"
      by (auto simp: user_default_of_def user_default_pass_find)
    with p show ?thesis by auto
  next
    case None
    then have v1: "?v1 = []" by (auto simp: user_default_of_def user_default_pass_find)
    show ?thesis
    proof (cases "group_default_of c user groups intent")
      case (Some g)
      with assms None have "?v2 = [fs]" unfolding v1
        by (auto simp: group_default_of_def group_default_pass_find)
      with p show ?thesis by auto
    next
      case g: None
      then have "?v2 = []" unfolding v1 by (auto simp: group_default_of_def group_default_pass_find)
      with assms None g show ?thesis by (auto simp: global_default_pass_def split: if_splits)
    qed
  qed
  from this p(3) have "prefix [fs] (validFilesystems c user groups intent)" by (rule prefix_order.trans)
  then show ?thesis by (auto simp: prefix_def)
qed

section \<open>validate and readYAML\<close>

lemma foldl_complete: "foldl (\<lambda>v x. if P x then v else False) b xs = (b \<and> list_all P xs)"
  by (induction xs arbitrary: b) auto

lemma validate_iff:
  "fst (validate c) \<longleftrightarrow>
     dbuid (global c) \<notin> {0, - 1} \<and> dbgid (global c) \<notin> {0, - 1} \<and> clustername (global c) \<noteq> [] \<and>
     defaultWorkspace (global c) \<noteq> [] \<and> filesystems c \<noteq> [] \<and> (\<forall>f \<in> snd ` set (filesystems c). fs_complete f)"
  by (auto simp: validate_def Let_def foldl_complete list_all_iff)

lemma validate_config: "snd (validate c) = c\<lparr>isvalid := fst (validate c)\<rparr>"
  by (simp add: validate_def Let_def)

lemma read_filesystems_ok: "read_filesystems y g its m = Some m' \<Longrightarrow> omap_ok m \<Longrightarrow> omap_ok m'"
  by (induction its arbitrary: m) (auto simp: omap_simps split: option.splits)

lemma read_section_ok: "read_section y c key cfg = Some cfg' \<Longrightarrow> omap_ok (filesystems cfg) \<Longrightarrow> omap_ok (filesystems cfg')"
  by (auto simp: read_section_def split: option.splits lookup.splits dest: read_filesystems_ok)

lemma readYAML_omap_ok:
  assumes "readYAML y yaml cfg = Some cfg'" and "omap_ok (filesystems cfg)"
  shows "omap_ok (filesystems cfg')"
proof -
  from assms(1) obtain c g cfg1 where
      1: "read_section y c ''workspaces'' (cfg\<lparr>global := g\<rparr>) = Some cfg1"
    and 2: "read_section y c ''filesystems'' cfg1 = Some cfg'"
    by (auto simp: readYAML_def split: option.splits)
  from 1 have "omap_ok (filesystems cfg1)" by (rule read_section_ok) (simp add: assms(2))
  with 2 show ?thesis by (rule read_section_ok)
qed

section \<open>Properties\<close>

text \<open>C1. The access rule: a filesystem that is configured is open to an administrator; to another user
  if it has no ACL; else the user's own entries decide, and only without such an entry the entries of
  the user's groups. A deciding set of entries allows when each of them does, so a denial wins.\<close>

theorem hasAccess_rule:
  "hasAccess c user groups fs intent =
     (case getFsConfig c fs of None \<Rightarrow> False
      | Some f \<Rightarrow> isAdmin c user \<or> fs_user_acl f = [] \<and> fs_group_acl f = [] \<or>
          (if applies (fs_user_acl f) (\<lambda>i. i = user) then all_allow (fs_user_acl f) (\<lambda>i. i = user) intent
           else applies (fs_group_acl f) (\<lambda>i. i \<in> set groups) \<and>
                all_allow (fs_group_acl f) (\<lambda>i. i \<in> set groups) intent))"
  by (cases "map_of (filesystems c) fs") (auto simp: hasAccess_iff access_rule_def getFsConfig_def)

text \<open>The answer does not depend on the order of the ACL entries in the file, nor on the order or
  multiplicity in which the system reports the groups of the user.\<close>

theorem hasAccess_order_independent:
  assumes "getFsConfig c fs = Some f" and "getFsConfig c' fs = Some f'"
    and "set (fs_user_acl f) = set (fs_user_acl f')" and "set (fs_group_acl f) = set (fs_group_acl f')"
    and "set (admins (global c)) = set (admins (global c'))" and "set groups = set groups'"
  shows "hasAccess c user groups fs intent = hasAccess c' user groups' fs intent"
proof -
  have e: "(fs_user_acl f = []) = (fs_user_acl f' = [])" "(fs_group_acl f = []) = (fs_group_acl f' = [])"
    using assms(3,4) by (auto simp flip: set_empty)
  show ?thesis
    using assms(1,2,5,6) e applies_cong [OF assms(3)] applies_cong [OF assms(4)]
      all_allow_cong [OF assms(3)] all_allow_cong [OF assms(4)]
    by (simp add: hasAccess_iff getFsConfig_def access_rule_def isAdmin_def)
qed

definition example_fs :: "string list \<Rightarrow> string list \<Rightarrow> Filesystem_config" where
  "example_fs us gs = (fs_initial ''ws'')\<lparr>fs_spaces := [''/ws''], fs_deletedPath := ''.removed'',
      fs_database := ''/db'', fs_user_acl := us, fs_group_acl := gs\<rparr>"

definition example_config :: "string list \<Rightarrow> string list \<Rightarrow> config" where
  "example_config us gs = config_initial\<lparr>filesystems := [(''ws'', example_fs us gs)]\<rparr>"

lemma hasAccess_order_independent_witness:
  "hasAccess (example_config [''-bob'', ''+bob''] []) ''bob'' [''g'', ''h''] ''ws'' CREATE =
   hasAccess (example_config [''+bob'', ''-bob''] []) ''bob'' [''h'', ''g''] ''ws'' CREATE"
  by (rule hasAccess_order_independent [where f = "example_fs [''-bob'', ''+bob''] []" and f' = "example_fs [''+bob'', ''-bob''] []"])
     (auto simp: example_config_def example_fs_def config_initial_def getFsConfig_def)

text \<open>A user that the user ACL lists with a minus sign and no permissions is denied every intent,
  whatever other entries the user or the user's groups have, unless the user is an administrator.\<close>

theorem user_deny_wins:
  assumes "getFsConfig c fs = Some f" and "(CHR ''-'' # user) \<in> set (fs_user_acl f)"
    and "user \<noteq> []" and "CHR '':'' \<notin> set user" and "\<not> is_sign (hd user)" and "\<not> isAdmin c user"
  shows "\<not> hasAccess c user groups fs intent"
proof -
  have "(user, ''-'', []) \<in> set (parseACL (fs_user_acl f))"
    using assms(2) parse_entry_plain(3) [OF assms(3-5)] by (auto simp: parseACL_set)
  then have "applies (fs_user_acl f) (\<lambda>i. i = user)" "\<not> all_allow (fs_user_acl f) (\<lambda>i. i = user) intent"
    by (force simp: applies_def all_allow_def aclEntryAllows_def)+
  moreover have "fs_user_acl f \<noteq> []" using assms(2) by auto
  ultimately show ?thesis using assms(1,6)
    by (simp add: hasAccess_iff getFsConfig_def access_rule_def)
qed

lemma user_deny_wins_witness:
  "\<not> hasAccess (example_config [''+bob'', ''-bob''] [''+staff'']) ''bob'' [''staff''] ''ws'' USE"
  by (rule user_deny_wins [where f = "example_fs [''+bob'', ''-bob''] [''+staff'']"])
     (auto simp: example_config_def example_fs_def config_initial_def getFsConfig_def isAdmin_def
        Global_initial_def is_sign_def)

text \<open>\<open>validFilesystems\<close> lists each filesystem the user has access to exactly once, and no other.\<close>

theorem validFilesystems_exact:
  "distinct (validFilesystems c user groups intent) \<and>
   set (validFilesystems c user groups intent) = {fs. hasAccess c user groups fs intent}"
  using validFilesystems_good [of c user groups intent]
  by (simp add: validFilesystems_members good_list_def)

text \<open>The list starts with the user's default filesystem, without one with the first default of the
  user's groups, without one with the global default; each only if the user has access to it.\<close>

theorem validFilesystems_default_first:
  assumes "first =
    (case user_default_of c user groups intent of Some fs \<Rightarrow> Some fs
     | None \<Rightarrow> (case group_default_of c user groups intent of Some fs \<Rightarrow> Some fs
     | None \<Rightarrow> if defaultWorkspace (global c) \<noteq> [] \<and> hasAccess c user groups (defaultWorkspace (global c)) intent
               then Some (defaultWorkspace (global c)) else None))"
    and "first = Some fs"
  shows "\<exists>rest. validFilesystems c user groups intent = fs # rest"
  by (rule validFilesystems_first [OF assms])

definition two_filesystems :: config where
  "two_filesystems = config_initial\<lparr>
     global := Global_initial\<lparr>defaultWorkspace := ''a''\<rparr>,
     filesystems := [(''a'', fs_initial ''a''), (''b'', (fs_initial ''b'')\<lparr>fs_groupdefault := [''g'']\<rparr>)]\<rparr>"

lemma validFilesystems_default_first_witness:
  "\<exists>rest. validFilesystems two_filesystems ''bob'' [''g''] LIST = ''b'' # rest"
proof (rule validFilesystems_default_first [OF refl])
  show "(case user_default_of two_filesystems ''bob'' [''g''] LIST of Some fs \<Rightarrow> Some fs
     | None \<Rightarrow> (case group_default_of two_filesystems ''bob'' [''g''] LIST of Some fs \<Rightarrow> Some fs
     | None \<Rightarrow> if defaultWorkspace (global two_filesystems) \<noteq> [] \<and>
          hasAccess two_filesystems ''bob'' [''g''] (defaultWorkspace (global two_filesystems)) LIST
        then Some (defaultWorkspace (global two_filesystems)) else None)) = Some ''b''"
    by code_simp
qed

end
