(* ===== verification/Paths.thy ===== *)
theory Paths
  imports Text
begin

text \<open>
  \<open>std::filesystem::path\<close> as the tools use it: a path is its string, \<open>path_append\<close> is \<open>operator/\<close>.
  \<open>comps\<close> gives the components the kernel resolves, so that \<open>/a//b\<close> and \<open>/a/b\<close> are one file.
  Components named \<open>..\<close> are not resolved.
\<close>

section \<open>Components\<close>

type_synonym path = string
type_synonym key = "string list"

definition real_comp :: "string \<Rightarrow> bool" where
  "real_comp w = (w \<noteq> [] \<and> w \<noteq> ''.'')"

definition comps :: "path \<Rightarrow> key" where
  "comps p = filter real_comp (splitString p (CHR ''/''))"

lemma comps_Nil [simp]: "comps [] = []"
  by (simp add: comps_def str_simps)

lemma comps_single: "CHR ''/'' \<notin> set s \<Longrightarrow> comps s = (if real_comp s then [s] else [])"
  by (cases "s = []") (auto simp: comps_def str_simps real_comp_def)

lemma comps_slash [str_simps]: "comps (a @ CHR ''/'' # b) = comps a @ comps b"
proof (induction a rule: length_induct)
  case (1 a)
  show ?case
  proof (cases "CHR ''/'' \<in> set a")
    case False
    then show ?thesis
      by (simp add: comps_single) (simp add: comps_def str_simps)
  next
    case True
    then obtain x y where a: "a = x @ CHR ''/'' # y" and x: "CHR ''/'' \<notin> set x"
      by (metis split_list_first)
    have y: "comps (y @ CHR ''/'' # b) = comps y @ comps b" using 1 a by simp
    have s: "comps (x @ CHR ''/'' # z) = filter real_comp [x] @ comps z" for z
      using x by (simp add: comps_def str_simps)
    show ?thesis unfolding a by (simp add: s y)
  qed
qed

lemma comps_snoc_slash [str_simps]: "comps (a @ ''/'') = comps a"
  using comps_slash [of a "[]"] by simp

lemma comps_Cons_slash [str_simps]: "comps (CHR ''/'' # b) = comps b"
  using comps_slash [of "[]" b] by simp

section \<open>Operations on paths\<close>

definition is_absolute :: "path \<Rightarrow> bool" where
  "is_absolute p = (p \<noteq> [] \<and> hd p = CHR ''/'')"

definition path_append :: "path \<Rightarrow> path \<Rightarrow> path" where
  "path_append a b =
     (if is_absolute b then b
      else if a = [] \<or> last a = CHR ''/'' then a @ b
      else a @ CHR ''/'' # b)"

definition remove_filename :: "path \<Rightarrow> path" where
  "remove_filename p = (case rfind_char (CHR ''/'') p of None \<Rightarrow> [] | Some i \<Rightarrow> take (Suc i) p)"

definition filename :: "path \<Rightarrow> string" where
  "filename p = (case rfind_char (CHR ''/'') p of None \<Rightarrow> p | Some i \<Rightarrow> drop (Suc i) p)"

definition parent_path :: "path \<Rightarrow> path" where
  "parent_path p =
     (let d = remove_filename p;
          t = rev (dropWhile (\<lambda>c. c = CHR ''/'') (rev d))
      in if t = [] \<and> d \<noteq> [] then ''/'' else t)"

text \<open>A name that is one component: what \<open>checkID\<close> accepts.\<close>

definition one_comp :: "string \<Rightarrow> bool" where
  "one_comp n = (n \<noteq> [] \<and> n \<noteq> ''.'' \<and> n \<noteq> ''..'' \<and> CHR ''/'' \<notin> set n)"

lemma comps_one [str_simps]: "one_comp n \<Longrightarrow> comps n = [n]"
  by (simp add: one_comp_def comps_single real_comp_def)

lemma one_comp_relative [str_simps]: "one_comp n \<Longrightarrow> \<not> is_absolute n"
  by (cases n) (auto simp: one_comp_def is_absolute_def)

lemma comps_append [str_simps]: "\<not> is_absolute b \<Longrightarrow> comps (path_append a b) = comps a @ comps b"
proof -
  assume b: "\<not> is_absolute b"
  show ?thesis
  proof (cases "a = [] \<or> last a = CHR ''/''")
    case True
    show ?thesis
    proof (cases "a = []")
      case True
      with b show ?thesis by (simp add: path_append_def)
    next
      case False
      with True obtain a' where "a = a' @ ''/''" by (metis append_butlast_last_id)
      with b False show ?thesis by (simp add: path_append_def str_simps)
    qed
  next
    case False
    with b show ?thesis by (simp add: path_append_def str_simps)
  qed
qed

lemma comps_append_one: "one_comp n \<Longrightarrow> comps (path_append a n) = comps a @ [n]"
  by (simp add: str_simps)

lemma remove_filename_filename: "remove_filename p @ filename p = p"
  by (auto simp: remove_filename_def filename_def split: option.splits)

lemma comps_filename: "comps (remove_filename p) @ comps (filename p) = comps p"
proof (cases "rfind_char (CHR ''/'') p")
  case None
  then show ?thesis by (simp add: remove_filename_def filename_def)
next
  case (Some i)
  then obtain a b where p: "p = a @ CHR ''/'' # b" "i = length a" by (rule rfind_char_split)
  with Some show ?thesis by (simp add: remove_filename_def filename_def str_simps)
qed

lemma one_comp_append:
  "one_comp n \<Longrightarrow> CHR ''/'' \<notin> set s \<Longrightarrow> CHR ''-'' \<in> set s \<Longrightarrow> one_comp (n @ s)"
  by (cases n; cases s) (auto simp: one_comp_def append_eq_Cons_conv)

lemma one_comp_stamp: "one_comp n \<Longrightarrow> one_comp (n @ CHR ''-'' # show_int t)"
  by (rule one_comp_append) (auto simp: num_simps)

end
