(* ===== verification/World.thy ===== *)
theory World
  imports Paths "HOL-Library.Word"
begin

text \<open>
  What the tools act on: the file tree, the clock, the identity of the process and the accounts of
  the system, as one record; operations are functions of that record which return normally, throw,
  or end the process. The kernel's answer to a system call is its rule on the tree, unless the
  field \<open>fault\<close> says that this call fails: the field is an arbitrary function of the number of calls
  made so far, the call and its path, so that a statement for every world covers every permission
  problem and every failing disk.
\<close>

unbundle bit_operations_syntax

section \<open>Files\<close>

type_synonym mode_t = "32 word"
type_synonym uid = "32 word"
type_synonym gid = "32 word"

datatype kind = Reg string | Dir | Link path | Special

record inode =
  kind :: kind
  owner :: uid
  group_owner :: gid
  mode :: mode_t
  mtime :: int

text \<open>
  The tree, flat: the components of each path with its inode, in the order in which directories
  list their entries. A final symbolic link is followed by \<open>follow\<close>, with the kernel's limit
  of 40 links; links in the middle of a path are not resolved.
\<close>

type_synonym files = "(key \<times> inode) list"

definition follow_target :: "key \<Rightarrow> path \<Rightarrow> key" where
  "follow_target k t = (if is_absolute t then comps t else butlast k @ comps t)"

fun follow :: "nat \<Rightarrow> files \<Rightarrow> key \<Rightarrow> (key \<times> inode) option" where
  "follow 0 fs k = None"
| "follow (Suc n) fs k =
     (case map_of fs k of
        None \<Rightarrow> None
      | Some i \<Rightarrow> (case kind i of Link t \<Rightarrow> follow n fs (follow_target k t) | _ \<Rightarrow> Some (k, i)))"

definition is_dir :: "inode \<Rightarrow> bool" where
  "is_dir i = (kind i = Dir)"

definition is_reg :: "inode \<Rightarrow> bool" where
  "is_reg i = (case kind i of Reg s \<Rightarrow> True | _ \<Rightarrow> False)"

definition is_link :: "inode \<Rightarrow> bool" where
  "is_link i = (case kind i of Link t \<Rightarrow> True | _ \<Rightarrow> False)"

definition dir_at :: "files \<Rightarrow> key \<Rightarrow> bool" where
  "dir_at fs k = (k = [] \<or> (case map_of fs k of None \<Rightarrow> False | Some i \<Rightarrow> is_dir i))"

definition fs_del :: "key \<Rightarrow> files \<Rightarrow> files" where
  "fs_del k fs = filter (\<lambda>e. fst e \<noteq> k) fs"

definition fs_put :: "key \<Rightarrow> inode \<Rightarrow> files \<Rightarrow> files" where
  "fs_put k i fs = (k, i) # fs_del k fs"

definition child_of :: "key \<Rightarrow> key \<Rightarrow> bool" where
  "child_of d k = (k \<noteq> [] \<and> butlast k = d)"

definition children :: "files \<Rightarrow> key \<Rightarrow> string list" where
  "children fs d = map last (filter (child_of d) (map fst fs))"

text \<open>The subtree at \<open>src\<close> moved to \<open>dst\<close>; what was at \<open>dst\<close> is gone.\<close>

definition fs_move :: "key \<Rightarrow> key \<Rightarrow> files \<Rightarrow> files" where
  "fs_move src dst fs =
     map (\<lambda>e. if prefix src (fst e) then (dst @ drop (length src) (fst e), snd e) else e)
       (filter (\<lambda>e. \<not> prefix dst (fst e)) fs)"

lemma map_of_filter_key: "map_of (filter (\<lambda>e. P (fst e)) fs) k = (if P k then map_of fs k else None)"
  by (induction fs) auto

lemma map_of_del: "map_of (fs_del k fs) = (map_of fs)(k := None)"
  unfolding fs_del_def by (auto simp: fun_eq_iff map_of_filter_key [where P = "\<lambda>x. x \<noteq> k"])

lemma map_of_put: "map_of (fs_put k i fs) = (map_of fs)(k \<mapsto> i)"
  by (simp add: fs_put_def map_of_del)

lemma fs_move_Cons:
  "fs_move src dst ((dst @ r, i) # fs) = fs_move src dst fs"
  "\<not> prefix dst (src @ r) \<Longrightarrow> fs_move src dst ((src @ r, i) # fs) = (dst @ r, i) # fs_move src dst fs"
  "\<not> prefix dst q \<Longrightarrow> \<not> prefix src q \<Longrightarrow> fs_move src dst ((q, i) # fs) = (q, i) # fs_move src dst fs"
  by (simp_all add: fs_move_def)

lemma map_of_move:
  assumes disj: "\<And>x. \<not> (prefix src x \<and> prefix dst x)"
  shows "map_of (fs_move src dst fs) (dst @ r) = map_of fs (src @ r)"
    and "prefix src k \<Longrightarrow> map_of (fs_move src dst fs) k = None"
    and "\<not> prefix dst k \<Longrightarrow> \<not> prefix src k \<Longrightarrow> map_of (fs_move src dst fs) k = map_of fs k"
proof -
  have d: "\<not> prefix dst (src @ r')" "\<not> prefix src (dst @ r')" "dst @ r' \<noteq> src @ r''" "src @ r' \<noteq> dst @ r''" for r' r''
    using disj prefixI by (metis prefixI)+
  have "map_of (fs_move src dst fs) (dst @ r) = map_of fs (src @ r) \<and>
      (prefix src k \<longrightarrow> map_of (fs_move src dst fs) k = None) \<and>
      (\<not> prefix dst k \<and> \<not> prefix src k \<longrightarrow> map_of (fs_move src dst fs) k = map_of fs k)"
  proof (induction fs)
    case Nil
    show ?case by (simp add: fs_move_def)
  next
    case (Cons e fs)
    obtain q i where e: "e = (q, i)" by force
    consider (dst) t where "q = dst @ t" | (src) t where "q = src @ t" | (other) "\<not> prefix dst q" "\<not> prefix src q"
      by (auto simp: prefix_def)
    then show ?case
    proof cases
      case dst
      then show ?thesis using Cons d by (auto simp: e fs_move_Cons)
    next
      case src
      then show ?thesis using Cons d by (auto simp: e fs_move_Cons)
    next
      case other
      then show ?thesis using Cons by (auto simp: e fs_move_Cons)
    qed
  qed
  then show "map_of (fs_move src dst fs) (dst @ r) = map_of fs (src @ r)"
    and "prefix src k \<Longrightarrow> map_of (fs_move src dst fs) k = None"
    and "\<not> prefix dst k \<Longrightarrow> \<not> prefix src k \<Longrightarrow> map_of (fs_move src dst fs) k = map_of fs k"
    by auto
qed

lemma no_common_extension: "\<not> prefix a b \<Longrightarrow> \<not> prefix b a \<Longrightarrow> \<not> (prefix a x \<and> prefix b x)"
  by (metis prefix_same_cases)

section \<open>Processes and accounts\<close>

datatype cap_value_t = CAP_CHOWN | CAP_DAC_OVERRIDE | CAP_DAC_READ_SEARCH | CAP_FOWNER | CAP_SYS_ADMIN

record credentials =
  ruid :: uid
  euid :: uid
  suid :: uid
  rgid :: gid
  egid :: gid
  sgid :: gid
  sup_groups :: "gid list"
  permitted :: "cap_value_t list"
  effective :: "cap_value_t list"

text \<open>The members of the object \<open>caps\<close> (\<open>class Cap\<close>), which is a global of every tool.\<close>

record cap_object =
  hascaps :: bool
  issetuid :: bool
  isusermode :: bool
  user_uid :: uid
  user_gid :: gid
  user_groups :: "gid list"
  db_uid :: uid
  db_gid :: gid
  db_identity_set :: bool

record passwd =
  pw_name :: string
  pw_uid :: uid
  pw_gid :: gid
  pw_dir :: path

text \<open>The passwd and group databases of the system, which the C library looks up.\<close>

record accounts =
  getpwnam :: "string \<Rightarrow> passwd option"
  getpwuid :: "uid \<Rightarrow> passwd option"
  getgrgid :: "gid \<Rightarrow> string option"
  getgrnam :: "string \<Rightarrow> gid option"
  getgrouplist :: "string \<Rightarrow> gid \<Rightarrow> gid list"

section \<open>The world\<close>

text \<open>
  The errors that follow from the tree, and (\<open>Trouble\<close>) those that come from outside: missing
  permission, a different device, a failing disk. Only the latter are injected by the field \<open>fault\<close>,
  so a failing call never claims that an existing file is missing.
\<close>

datatype trouble = EACCES | EXDEV | EIO

datatype errno = ENOENT | EEXIST | EISDIR | ENOTDIR | ENOTEMPTY | ELOOP | EINVAL | Trouble trouble

datatype sysop =
  Sys_stat | Sys_readdir | Sys_read | Sys_open | Sys_write | Sys_chmod | Sys_chown | Sys_rename |
  Sys_unlink | Sys_rmdir | Sys_mkdir | Sys_symlink | Sys_mv

text \<open>The calls that change the tree.\<close>

fun mutating :: "sysop \<Rightarrow> bool" where
  "mutating Sys_stat = False"
| "mutating Sys_readdir = False"
| "mutating Sys_read = False"
| "mutating _ = True"

text \<open>A system call, as the trace keeps it: who, what, where.\<close>

type_synonym event = "uid \<times> sysop \<times> key"

record world =
  files :: files
  clock :: "nat \<Rightarrow> int"
  steps :: nat
  fault :: "nat \<Rightarrow> sysop \<Rightarrow> key \<Rightarrow> trouble option"
  short_write :: "nat \<Rightarrow> nat"
  mv_residue :: "nat \<Rightarrow> files"
  random :: "nat \<Rightarrow> nat"
  free_bytes :: "path \<Rightarrow> nat option"
  accounts :: accounts
  cred :: credentials
  caps :: cap_object
  umask :: mode_t
  trace :: "event list"
  stdin :: "string list"
  stdout :: "string list"
  outbox :: "(string list \<times> string) list"

datatype exn =
    DatabaseException
  | Filesystem_error errno
  | Out_of_range
  | Other_exception

text \<open>\<open>Exit\<close> is the status of \<open>exit\<close>, also of a call to \<open>std::terminate\<close>, with status 134.\<close>

datatype 'a outcome = Done 'a | Throw exn | Exit int

type_synonym 'a io = "world \<Rightarrow> 'a outcome \<times> world"

section \<open>Sequencing\<close>

definition ret :: "'a \<Rightarrow> 'a io" where
  "ret a w = (Done a, w)"

definition throw :: "exn \<Rightarrow> 'a io" where
  "throw e w = (Throw e, w)"

definition exit_with :: "int \<Rightarrow> 'a io" where
  "exit_with n w = (Exit n, w)"

definition let_io :: "'a io \<Rightarrow> ('a \<Rightarrow> 'b io) \<Rightarrow> 'b io" where
  "let_io m f w =
     (case m w of (r, w') \<Rightarrow> (case r of Done a \<Rightarrow> f a w' | Throw e \<Rightarrow> (Throw e, w') | Exit n \<Rightarrow> (Exit n, w')))"

definition seq_io :: "unit io \<Rightarrow> 'b io \<Rightarrow> 'b io" where
  "seq_io m m' = let_io m (\<lambda>u. m')"

definition when_io :: "bool \<Rightarrow> unit io \<Rightarrow> unit io" where
  "when_io b m = (if b then m else ret ())"

definition catch_io :: "'a io \<Rightarrow> (exn \<Rightarrow> 'a io) \<Rightarrow> 'a io" where
  "catch_io m h w = (case m w of (r, w') \<Rightarrow> (case r of Throw e \<Rightarrow> h e w' | _ \<Rightarrow> (r, w')))"

primrec seqs_io :: "unit io list \<Rightarrow> 'b io \<Rightarrow> 'b io" where
  "seqs_io [] m = m"
| "seqs_io (x # xs) m = seq_io x (seqs_io xs m)"

primrec for_io :: "'x list \<Rightarrow> ('x \<Rightarrow> unit io) \<Rightarrow> unit io" where
  "for_io [] f = ret ()"
| "for_io (x # xs) f = seq_io (f x) (for_io xs f)"

text \<open>A loop with a state, over a list.\<close>

primrec fold_io :: "'x list \<Rightarrow> ('x \<Rightarrow> 's \<Rightarrow> 's io) \<Rightarrow> 's \<Rightarrow> 's io" where
  "fold_io [] f s = ret s"
| "fold_io (x # xs) f s = let_io (f x s) (fold_io xs f)"

text \<open>Reading a part of the world, and changing it.\<close>

definition get_io :: "(world \<Rightarrow> 'a) \<Rightarrow> 'a io" where
  "get_io f w = (Done (f w), w)"

definition put_io :: "(world \<Rightarrow> world) \<Rightarrow> unit io" where
  "put_io f w = (Done (), f w)"

named_theorems io_defs \<open>the sequencing operators, for running a program\<close>

lemmas [io_defs] = ret_def throw_def exit_with_def let_io_def seq_io_def when_io_def catch_io_def
  get_io_def put_io_def

section \<open>System calls\<close>

text \<open>Every call advances \<open>steps\<close> and is written to the trace; \<open>Some e\<close> says it failed.\<close>

definition sys_call :: "sysop \<Rightarrow> key \<Rightarrow> errno option io" where
  "sys_call op k w =
     (Done (map_option Trouble (fault w (steps w) op k)),
      w\<lparr>steps := Suc (steps w), trace := (euid (cred w), op, k) # trace w\<rparr>)"

definition time_now :: "int io" where
  "time_now w = (Done (clock w (steps w)), w\<lparr>steps := Suc (steps w)\<rparr>)"

definition rand :: "nat io" where
  "rand w = (Done (random w (steps w)), w\<lparr>steps := Suc (steps w)\<rparr>)"

text \<open>A call that changes the tree: \<open>rule\<close> is the kernel's rule, an error or the new tree.\<close>

definition change_files :: "sysop \<Rightarrow> key \<Rightarrow> (world \<Rightarrow> errno + files) \<Rightarrow> errno option io" where
  "change_files op k rule =
     let_io (sys_call op k) (\<lambda>e.
       case e of
         Some e \<Rightarrow> ret (Some e)
       | None \<Rightarrow> (\<lambda>w. case rule w of Inl e \<Rightarrow> (Done (Some e), w) | Inr fs \<Rightarrow> (Done None, w\<lparr>files := fs\<rparr>)))"

definition rename_rule :: "key \<Rightarrow> key \<Rightarrow> files \<Rightarrow> errno + files" where
  "rename_rule src dst fs =
     (case map_of fs src of
        None \<Rightarrow> Inl ENOENT
      | Some i \<Rightarrow>
          if dst = [] \<or> \<not> dir_at fs (butlast dst) then Inl ENOENT
          else if src = dst then Inr fs
          else if prefix src dst then Inl EINVAL
          else if prefix dst src then Inl ENOTEMPTY
          else (case map_of fs dst of
                  None \<Rightarrow> Inr (fs_move src dst fs)
                | Some j \<Rightarrow>
                    if is_dir i then
                      (if \<not> is_dir j then Inl ENOTDIR
                       else if children fs dst \<noteq> [] then Inl ENOTEMPTY
                       else Inr (fs_move src dst fs))
                    else if is_dir j then Inl EISDIR
                    else Inr (fs_move src dst fs)))"

definition sys_rename :: "path \<Rightarrow> path \<Rightarrow> errno option io" where
  "sys_rename from to = change_files Sys_rename (comps from) (\<lambda>w. rename_rule (comps from) (comps to) (files w))"

definition unlink_rule :: "key \<Rightarrow> files \<Rightarrow> errno + files" where
  "unlink_rule k fs =
     (case map_of fs k of
        None \<Rightarrow> Inl ENOENT
      | Some i \<Rightarrow> if is_dir i then Inl EISDIR else Inr (fs_del k fs))"

definition rmdir_rule :: "key \<Rightarrow> files \<Rightarrow> errno + files" where
  "rmdir_rule k fs =
     (case map_of fs k of
        None \<Rightarrow> Inl ENOENT
      | Some i \<Rightarrow> if \<not> is_dir i then Inl ENOTDIR
                else if children fs k \<noteq> [] then Inl ENOTEMPTY
                else Inr (fs_del k fs))"

definition sys_unlink :: "path \<Rightarrow> errno option io" where
  "sys_unlink p = change_files Sys_unlink (comps p) (\<lambda>w. unlink_rule (comps p) (files w))"

definition sys_rmdir :: "path \<Rightarrow> errno option io" where
  "sys_rmdir p = change_files Sys_rmdir (comps p) (\<lambda>w. rmdir_rule (comps p) (files w))"

definition new_inode :: "kind \<Rightarrow> mode_t \<Rightarrow> world \<Rightarrow> inode" where
  "new_inode kd m w =
     \<lparr>kind = kd, owner = euid (cred w), group_owner = egid (cred w), mode = m AND NOT (umask w),
      mtime = clock w (steps w)\<rparr>"

definition mkdir_rule :: "key \<Rightarrow> mode_t \<Rightarrow> world \<Rightarrow> errno + files" where
  "mkdir_rule k m w =
     (case map_of (files w) k of
        Some i \<Rightarrow> Inl EEXIST
      | None \<Rightarrow> if k = [] then Inl EEXIST
               else if \<not> dir_at (files w) (butlast k) then Inl ENOENT
               else Inr (fs_put k (new_inode Dir m w) (files w)))"

definition sys_mkdir :: "path \<Rightarrow> mode_t \<Rightarrow> errno option io" where
  "sys_mkdir p m = change_files Sys_mkdir (comps p) (mkdir_rule (comps p) m)"

text \<open>\<open>open\<close> with \<open>O_WRONLY|O_CREAT|O_TRUNC|O_NOFOLLOW\<close>.\<close>

definition open_trunc_rule :: "key \<Rightarrow> mode_t \<Rightarrow> world \<Rightarrow> errno + files" where
  "open_trunc_rule k m w =
     (case map_of (files w) k of
        Some i \<Rightarrow>
          (case kind i of
             Dir \<Rightarrow> Inl EISDIR
           | Link t \<Rightarrow> Inl ELOOP
           | Special \<Rightarrow> Inr (files w)
           | Reg s \<Rightarrow> Inr (fs_put k (i\<lparr>kind := Reg [], mtime := clock w (steps w)\<rparr>) (files w)))
      | None \<Rightarrow> if k = [] \<or> \<not> dir_at (files w) (butlast k) then Inl ENOENT
               else Inr (fs_put k (new_inode (Reg []) m w) (files w)))"

definition sys_open_trunc :: "path \<Rightarrow> mode_t \<Rightarrow> errno option io" where
  "sys_open_trunc p m = change_files Sys_open (comps p) (open_trunc_rule (comps p) m)"

text \<open>A change of the inode a descriptor points to.\<close>

definition update_inode :: "key \<Rightarrow> (inode \<Rightarrow> inode) \<Rightarrow> files \<Rightarrow> files" where
  "update_inode k f fs = (case map_of fs k of None \<Rightarrow> fs | Some i \<Rightarrow> fs_put k (f i) fs)"

text \<open>
  The loop of \<open>write\<close> calls, which repeats after a partial write and after \<open>EINTR\<close>: all of the text,
  or an error after some prefix of it.
\<close>

definition set_content :: "string \<Rightarrow> inode \<Rightarrow> inode" where
  "set_content s i = (case kind i of Reg t \<Rightarrow> i\<lparr>kind := Reg s\<rparr> | _ \<Rightarrow> i)"

definition sys_write_all :: "path \<Rightarrow> string \<Rightarrow> errno option io" where
  "sys_write_all p text =
     let_io (get_io (\<lambda>w. short_write w (steps w))) (\<lambda>n.
     let_io (sys_call Sys_write (comps p)) (\<lambda>e.
       let written = (case e of None \<Rightarrow> text | Some _ \<Rightarrow> take n text)
       in seq_io (put_io (\<lambda>w. w\<lparr>files := update_inode (comps p) (set_content written) (files w)\<rparr>))
            (ret e)))"

definition sys_fchmod :: "path \<Rightarrow> mode_t \<Rightarrow> errno option io" where
  "sys_fchmod p m =
     change_files Sys_chmod (comps p) (\<lambda>w. Inr (update_inode (comps p) (\<lambda>i. i\<lparr>mode := m\<rparr>) (files w)))"

definition sys_fchown :: "path \<Rightarrow> uid \<Rightarrow> gid \<Rightarrow> errno option io" where
  "sys_fchown p u g =
     change_files Sys_chown (comps p)
       (\<lambda>w. Inr (update_inode (comps p) (\<lambda>i. i\<lparr>owner := u, group_owner := g\<rparr>) (files w)))"

text \<open>\<open>lstat\<close> and \<open>stat\<close>.\<close>

definition sys_lstat :: "path \<Rightarrow> (errno + inode) io" where
  "sys_lstat p =
     let_io (sys_call Sys_stat (comps p)) (\<lambda>e.
       case e of
         Some e \<Rightarrow> ret (Inl e)
       | None \<Rightarrow> get_io (\<lambda>w. case map_of (files w) (comps p) of None \<Rightarrow> Inl ENOENT | Some i \<Rightarrow> Inr i))"

definition sys_stat :: "path \<Rightarrow> (errno + inode) io" where
  "sys_stat p =
     let_io (sys_call Sys_stat (comps p)) (\<lambda>e.
       case e of
         Some e \<Rightarrow> ret (Inl e)
       | None \<Rightarrow> get_io (\<lambda>w. case follow 40 (files w) (comps p) of None \<Rightarrow> Inl ENOENT | Some (k, i) \<Rightarrow> Inr i))"

section \<open>std::filesystem\<close>

text \<open>
  The overloads without an error code throw \<open>filesystem_error\<close>; a missing file is no error for
  \<open>exists\<close> and its kind.
\<close>

definition fs_status :: "(errno + inode) io \<Rightarrow> inode option io" where
  "fs_status st =
     let_io st (\<lambda>r.
       case r of
         Inr i \<Rightarrow> ret (Some i)
       | Inl e \<Rightarrow> if e = ENOENT \<or> e = ENOTDIR then ret None else throw (Filesystem_error e))"

definition fs_exists :: "path \<Rightarrow> bool io" where
  "fs_exists p = let_io (fs_status (sys_stat p)) (\<lambda>i. ret (i \<noteq> None))"

definition fs_is_directory :: "path \<Rightarrow> bool io" where
  "fs_is_directory p = let_io (fs_status (sys_stat p)) (\<lambda>i. ret (case i of None \<Rightarrow> False | Some i \<Rightarrow> is_dir i))"

definition fs_is_regular_file :: "path \<Rightarrow> bool io" where
  "fs_is_regular_file p = let_io (fs_status (sys_stat p)) (\<lambda>i. ret (case i of None \<Rightarrow> False | Some i \<Rightarrow> is_reg i))"

definition fs_is_symlink :: "path \<Rightarrow> bool io" where
  "fs_is_symlink p = let_io (fs_status (sys_lstat p)) (\<lambda>i. ret (case i of None \<Rightarrow> False | Some i \<Rightarrow> is_link i))"

definition or_throw :: "errno option io \<Rightarrow> unit io" where
  "or_throw m = let_io m (\<lambda>e. case e of None \<Rightarrow> ret () | Some e \<Rightarrow> throw (Filesystem_error e))"

definition fs_rename :: "path \<Rightarrow> path \<Rightarrow> unit io" where
  "fs_rename from to = or_throw (sys_rename from to)"

text \<open>\<open>remove\<close>: a file, a link or an empty directory; false when there is nothing to remove.\<close>

definition remove_rule :: "key \<Rightarrow> files \<Rightarrow> errno + files" where
  "remove_rule k fs =
     (case map_of fs k of
        None \<Rightarrow> Inl ENOENT
      | Some i \<Rightarrow> if is_dir i then rmdir_rule k fs else unlink_rule k fs)"

definition fs_remove :: "path \<Rightarrow> bool io" where
  "fs_remove p =
     let_io (change_files Sys_unlink (comps p) (\<lambda>w. remove_rule (comps p) (files w))) (\<lambda>e.
       case e of
         None \<Rightarrow> ret True
       | Some e \<Rightarrow> if e = ENOENT then ret False else throw (Filesystem_error e))"

text \<open>\<open>directory_iterator\<close>: the names with their inodes.\<close>

definition list_dir :: "files \<Rightarrow> key \<Rightarrow> (string \<times> inode) list" where
  "list_dir fs d = map (\<lambda>e. (last (fst e), snd e)) (filter (\<lambda>e. child_of d (fst e)) fs)"

definition fs_directory_iterator :: "path \<Rightarrow> (string \<times> inode) list io" where
  "fs_directory_iterator p =
     let_io (sys_call Sys_readdir (comps p)) (\<lambda>e.
       case e of
         Some e \<Rightarrow> throw (Filesystem_error e)
       | None \<Rightarrow> let_io (get_io (\<lambda>w. follow 40 (files w) (comps p))) (\<lambda>r.
           case r of
             None \<Rightarrow> throw (Filesystem_error ENOENT)
           | Some (k, i) \<Rightarrow> if is_dir i then get_io (\<lambda>w. list_dir (files w) k)
                            else throw (Filesystem_error ENOTDIR)))"

end
