(* ===== verification/Caps.thy ===== *)
theory Caps
  imports World
begin

text \<open>
  \<open>class Cap\<close> of \<open>src/src/caps.cpp\<close>: the object \<open>caps\<close> through which every tool changes its
  identity (setuid binary) or its effective capabilities (capability binary), on the kernel's rules
  for the credentials of a process. \<open>exit(1)\<close> is \<open>Exit 1\<close>. The source positions passed for
  debugging output are left out, as is that output.
\<close>

section \<open>The kernel\<close>

text \<open>
  \<open>seteuid\<close>, \<open>setegid\<close>, \<open>setgroups\<close> and \<open>cap_set_proc\<close>; the result says whether the call succeeded.
\<close>

definition set_cred :: "credentials \<Rightarrow> world \<Rightarrow> world" where
  "set_cred c w = w\<lparr>cred := c\<rparr>"

definition seteuid :: "uid \<Rightarrow> bool io" where
  "seteuid u w =
     (let c = cred w
      in if euid c = 0 \<or> u \<in> {ruid c, euid c, suid c} then (Done True, set_cred (c\<lparr>euid := u\<rparr>) w)
         else (Done False, w))"

definition setegid :: "gid \<Rightarrow> bool io" where
  "setegid g w =
     (let c = cred w
      in if euid c = 0 \<or> g \<in> {rgid c, egid c, sgid c} then (Done True, set_cred (c\<lparr>egid := g\<rparr>) w)
         else (Done False, w))"

definition setgroups :: "gid list \<Rightarrow> bool io" where
  "setgroups gs w =
     (let c = cred w
      in if euid c = 0 then (Done True, set_cred (c\<lparr>sup_groups := gs\<rparr>) w) else (Done False, w))"

definition cap_set_proc :: "cap_value_t list \<Rightarrow> cap_value_t list \<Rightarrow> bool io" where
  "cap_set_proc perm eff w =
     (let c = cred w
      in if set perm \<subseteq> set (permitted c) \<and> set eff \<subseteq> set perm
         then (Done True, set_cred (c\<lparr>permitted := perm, effective := eff\<rparr>) w)
         else (Done False, w))"

section \<open>class Cap\<close>

datatype GroupsMode = Keep | Clear | Restore

text \<open>\<open>user::isSetuid\<close>, \<open>user::isRoot\<close> of \<open>src/src/user.cpp\<close>.\<close>

definition isSetuid :: "world \<Rightarrow> bool" where
  "isSetuid w = (ruid (cred w) \<noteq> euid (cred w))"

definition isRoot :: "world \<Rightarrow> bool" where
  "isRoot w = (ruid (cred w) = 0)"

text \<open>
  The constructor; \<open>linked\<close> is the build option \<open>WS_CAPA\<close>. The test whether capabilities are there
  tries to raise \<open>CAP_DAC_OVERRIDE\<close> and puts the old state back.
\<close>

definition Cap_init :: "bool \<Rightarrow> unit io" where
  "Cap_init linked w =
     (let c = cred w;
          setuid = isSetuid w;
          trial = (if linked \<and> \<not> setuid
                   then (case cap_set_proc (permitted c) (CAP_DAC_OVERRIDE # effective c) w of
                           (Done True, w1) \<Rightarrow>
                             (case cap_set_proc (permitted c) (effective c) w1 of
                                (Done True, w2) \<Rightarrow> (Done True, w2)
                              | (r, w2) \<Rightarrow> (Exit 1, w2))
                         | (r, w1) \<Rightarrow> (Done False, w1))
                   else (Done False, w))
      in case trial of
           (Done caps_found, w') \<Rightarrow>
             (Done (), w'\<lparr>caps :=
                \<lparr>hascaps = caps_found, issetuid = setuid, isusermode = (\<not> setuid \<and> \<not> caps_found),
                 user_uid = ruid c, user_gid = rgid c, user_groups = sup_groups c,
                 db_uid = 0, db_gid = 0, db_identity_set = False\<rparr>\<rparr>)
         | (r, w') \<Rightarrow> (Exit 1, w'))"

definition or_exit :: "bool io \<Rightarrow> unit io" where
  "or_exit m = let_io m (\<lambda>ok. if ok then ret () else exit_with 1)"

definition set_identity :: "uid \<Rightarrow> gid \<Rightarrow> GroupsMode \<Rightarrow> unit io" where
  "set_identity u g groups =
     let_io (get_io caps) (\<lambda>cp.
       if \<not> issetuid cp then ret ()
       else seqs_io
         [or_exit (seteuid 0),
          (case groups of
             Clear \<Rightarrow> or_exit (setgroups [])
           | Restore \<Rightarrow> or_exit (setgroups (user_groups cp))
           | Keep \<Rightarrow> ret ()),
          or_exit (setegid g)]
         (or_exit (seteuid u)))"

definition setDbIdentity :: "uid \<Rightarrow> gid \<Rightarrow> unit io" where
  "setDbIdentity u g = put_io (\<lambda>w. w\<lparr>caps := (caps w)\<lparr>db_uid := u, db_gid := g, db_identity_set := True\<rparr>\<rparr>)"

definition become_root :: "unit io" where
  "become_root = set_identity 0 0 Keep"

definition become_db :: "unit io" where
  "become_db =
     let_io (get_io caps) (\<lambda>cp.
       if \<not> issetuid cp then ret ()
       else if \<not> db_identity_set cp then exit_with 1
       else set_identity (db_uid cp) (db_gid cp) Clear)"

definition become_caller :: "unit io" where
  "become_caller = let_io (get_io caps) (\<lambda>cp. set_identity (user_uid cp) (user_gid cp) Restore)"

definition drop_caps :: "cap_value_t list \<Rightarrow> uid \<Rightarrow> unit io" where
  "drop_caps capabilities u =
     let_io (get_io caps) (\<lambda>cp.
       seq_io (when_io (hascaps cp) (or_exit (cap_set_proc capabilities [])))
              (when_io (issetuid cp) (set_identity u (user_gid cp) Restore)))"

definition lower_cap :: "cap_value_t list \<Rightarrow> uid \<Rightarrow> unit io" where
  "lower_cap capabilities u =
     let_io (get_io caps) (\<lambda>cp.
     let_io (get_io cred) (\<lambda>c.
       seq_io (when_io (hascaps cp)
                 (or_exit (cap_set_proc (permitted c) (filter (\<lambda>x. x \<notin> set capabilities) (effective c)))))
              (when_io (issetuid cp)
                 (if db_identity_set cp then set_identity (db_uid cp) (db_gid cp) Clear
                  else or_exit (seteuid u)))))"

definition raise_cap :: "cap_value_t list \<Rightarrow> unit io" where
  "raise_cap capabilities =
     let_io (get_io caps) (\<lambda>cp.
     let_io (get_io cred) (\<lambda>c.
       seq_io (when_io (hascaps cp) (or_exit (cap_set_proc (permitted c) (capabilities @ effective c))))
              (when_io (issetuid cp) become_root)))"

section \<open>Modes\<close>

text \<open>
  The three modes. In a setuid binary the saved uid stays 0; the program never changes it, nor the
  real ids.
\<close>

definition setuid_mode :: "world \<Rightarrow> bool" where
  "setuid_mode w \<longleftrightarrow> issetuid (caps w) \<and> \<not> hascaps (caps w) \<and> suid (cred w) = 0"

definition cap_mode :: "world \<Rightarrow> bool" where
  "cap_mode w \<longleftrightarrow> hascaps (caps w) \<and> \<not> issetuid (caps w) \<and> set (effective (cred w)) \<subseteq> set (permitted (cred w))"

definition user_mode :: "world \<Rightarrow> bool" where
  "user_mode w \<longleftrightarrow> \<not> hascaps (caps w) \<and> \<not> issetuid (caps w)"

text \<open>What the process is, as the kernel sees it.\<close>

definition become :: "uid \<Rightarrow> gid \<Rightarrow> gid list \<Rightarrow> world \<Rightarrow> world" where
  "become u g gs w = w\<lparr>cred := (cred w)\<lparr>euid := u, egid := g, sup_groups := gs\<rparr>\<rparr>"

lemmas cap_defs = io_defs or_exit_def set_identity_def become_root_def become_db_def become_caller_def
  drop_caps_def lower_cap_def raise_cap_def seteuid_def setegid_def setgroups_def cap_set_proc_def set_cred_def

lemma set_identity_setuid:
  "setuid_mode w \<Longrightarrow> set_identity u g groups w =
     (Done (), become u g (case groups of Keep \<Rightarrow> sup_groups (cred w) | Clear \<Rightarrow> [] | Restore \<Rightarrow> user_groups (caps w)) w)"
  by (cases groups) (simp_all add: setuid_mode_def cap_defs become_def Let_def)

lemma set_identity_not_setuid: "\<not> issetuid (caps w) \<Longrightarrow> set_identity u g groups w = (Done (), w)"
  by (simp add: cap_defs)

named_theorems cap_simps \<open>the operations of the object caps in each mode\<close>

lemma caps_setuid [cap_simps]:
  assumes "setuid_mode w"
  shows "raise_cap cs w = (Done (), become 0 0 (sup_groups (cred w)) w)"
    and "become_root w = (Done (), become 0 0 (sup_groups (cred w)) w)"
    and "become_caller w = (Done (), become (user_uid (caps w)) (user_gid (caps w)) (user_groups (caps w)) w)"
    and "drop_caps cs u w = (Done (), become u (user_gid (caps w)) (user_groups (caps w)) w)"
    and "db_identity_set (caps w) \<Longrightarrow> become_db w = (Done (), become (db_uid (caps w)) (db_gid (caps w)) [] w)"
    and "db_identity_set (caps w) \<Longrightarrow> lower_cap cs u w = (Done (), become (db_uid (caps w)) (db_gid (caps w)) [] w)"
    and "\<not> db_identity_set (caps w) \<Longrightarrow> become_db w = (Exit 1, w)"
  using assms set_identity_setuid [OF assms]
  by (simp_all add: setuid_mode_def raise_cap_def become_root_def become_caller_def drop_caps_def
      become_db_def lower_cap_def io_defs)

lemma setuid_mode_become [cap_simps]:
  "setuid_mode (become u g gs w) = setuid_mode w" "caps (become u g gs w) = caps w"
  "euid (cred (become u g gs w)) = u" "egid (cred (become u g gs w)) = g" "sup_groups (cred (become u g gs w)) = gs"
  "become u g gs (become u' g' gs' w) = become u g gs w"
  by (simp_all add: become_def setuid_mode_def)

lemma caps_cap_mode [cap_simps]:
  assumes "cap_mode w"
  shows "set cs \<subseteq> set (permitted (cred w)) \<Longrightarrow>
      raise_cap cs w = (Done (), w\<lparr>cred := (cred w)\<lparr>effective := cs @ effective (cred w)\<rparr>\<rparr>)"
    and "\<not> set cs \<subseteq> set (permitted (cred w)) \<Longrightarrow> raise_cap cs w = (Exit 1, w)"
    and "lower_cap cs u w = (Done (), w\<lparr>cred := (cred w)\<lparr>effective := filter (\<lambda>x. x \<notin> set cs) (effective (cred w))\<rparr>\<rparr>)"
    and "become_root w = (Done (), w)" and "become_db w = (Done (), w)" and "become_caller w = (Done (), w)"
  using assms by (auto simp: cap_mode_def cap_defs Let_def)

lemma caps_user_mode [cap_simps]:
  assumes "user_mode w"
  shows "raise_cap cs w = (Done (), w)" and "lower_cap cs u w = (Done (), w)" and "drop_caps cs u w = (Done (), w)"
    and "become_root w = (Done (), w)" and "become_db w = (Done (), w)" and "become_caller w = (Done (), w)"
  using assms by (auto simp: user_mode_def cap_defs)

section \<open>Sequences of calls\<close>

text \<open>Everything a tool can call on the object \<open>caps\<close>, in any order.\<close>

datatype cap_call =
    Raise "cap_value_t list"
  | Lower "cap_value_t list" uid
  | Drop "cap_value_t list"
  | To_root
  | To_db
  | To_caller

primrec run_call :: "cap_call \<Rightarrow> unit io" where
  "run_call (Raise cs) = raise_cap cs"
| "run_call (Lower cs u) = lower_cap cs u"
| "run_call (Drop cs) = let_io (get_io (\<lambda>w. ruid (cred w))) (drop_caps cs)"
| "run_call To_root = become_root"
| "run_call To_db = become_db"
| "run_call To_caller = become_caller"

text \<open>The three identities a setuid tool can have: root, the owner of the database, the caller.\<close>

definition known_identity :: "world \<Rightarrow> bool" where
  "known_identity w \<longleftrightarrow>
     euid (cred w) = 0 \<and> egid (cred w) = 0 \<or>
     euid (cred w) = db_uid (caps w) \<and> egid (cred w) = db_gid (caps w) \<and> sup_groups (cred w) = [] \<or>
     euid (cred w) = user_uid (caps w) \<and> egid (cred w) = user_gid (caps w) \<and> sup_groups (cred w) = user_groups (caps w)"

definition setuid_ready :: "world \<Rightarrow> bool" where
  "setuid_ready w \<longleftrightarrow> setuid_mode w \<and> db_identity_set (caps w) \<and> user_uid (caps w) = ruid (cred w)"

lemma run_call_ready:
  assumes "setuid_ready w" and "known_identity w"
  shows "\<exists>w'. run_call c w = (Done (), w') \<and> setuid_ready w' \<and> known_identity w' \<and> caps w' = caps w"
proof -
  from assms(1) have m: "setuid_mode w" "db_identity_set (caps w)" "user_uid (caps w) = ruid (cred w)"
    by (simp_all add: setuid_ready_def)
  have r: "setuid_ready (become u g gs w)" for u g gs
    using m by (simp add: setuid_ready_def cap_simps) (simp add: become_def)
  show ?thesis
    using m(2,3) r by (cases c) (auto simp: caps_setuid [OF m(1)] known_identity_def cap_simps let_io_def get_io_def)
qed

section \<open>Properties\<close>

text \<open>C5. In a setuid tool, after the database identity is set, no sequence of calls on the object
  \<open>caps\<close> ends the process or mixes identities: effective uid and gid are always those of root, of the
  database owner (then without any supplementary group) or of the caller (then with exactly the
  caller's groups), and raising to root stays possible.\<close>

theorem setuid_identity_invariant:
  assumes "setuid_ready w" and "known_identity w"
  shows "\<exists>w'. for_io calls run_call w = (Done (), w') \<and> known_identity w' \<and>
    (\<exists>w''. raise_cap cs w' = (Done (), w'') \<and> euid (cred w'') = 0 \<and> egid (cred w'') = 0)"
  using assms
proof (induction calls arbitrary: w)
  case Nil
  then have "setuid_mode w" by (simp add: setuid_ready_def)
  with Nil show ?case by (simp add: ret_def cap_simps)
next
  case (Cons c calls)
  from run_call_ready [OF Cons.prems, of c] obtain w1 where
    "run_call c w = (Done (), w1)" "setuid_ready w1" "known_identity w1" by blast
  with Cons.IH [of w1] show ?case by (simp add: seq_io_def let_io_def)
qed

definition example_accounts :: accounts where
  "example_accounts =
     \<lparr>getpwnam = map_of [(''alice'', \<lparr>pw_name = ''alice'', pw_uid = 1000, pw_gid = 100, pw_dir = ''/home/alice''\<rparr>)],
      getpwuid = map_of [(1000, \<lparr>pw_name = ''alice'', pw_uid = 1000, pw_gid = 100, pw_dir = ''/home/alice''\<rparr>)],
      getgrgid = map_of [(100, ''users'')], getgrnam = map_of [(''users'', 100)],
      getgrouplist = (\<lambda>u g. [g])\<rparr>"

definition setuid_cred :: credentials where
  "setuid_cred = \<lparr>ruid = 1000, euid = 0, suid = 0, rgid = 100, egid = 0, sgid = 0, sup_groups = [100],
     permitted = [], effective = []\<rparr>"

definition user_cred :: credentials where
  "user_cred = \<lparr>ruid = 1000, euid = 1000, suid = 1000, rgid = 100, egid = 100, sgid = 100, sup_groups = [100],
     permitted = [], effective = []\<rparr>"

definition cap_cred :: "cap_value_t list \<Rightarrow> credentials" where
  "cap_cred cs = user_cred\<lparr>permitted := cs\<rparr>"

definition setuid_caps :: cap_object where
  "setuid_caps = \<lparr>hascaps = False, issetuid = True, isusermode = False, user_uid = 1000, user_gid = 100,
     user_groups = [100], db_uid = 77, db_gid = 78, db_identity_set = True\<rparr>"

definition user_caps :: cap_object where
  "user_caps = setuid_caps\<lparr>issetuid := False, isusermode := True\<rparr>"

definition example_world :: "files \<Rightarrow> world" where
  "example_world fs = \<lparr>files = fs, clock = (\<lambda>n. 1700000000), steps = 0, fault = (\<lambda>n op k. None),
     short_write = (\<lambda>n. 0), mv_residue = (\<lambda>n. []), random = (\<lambda>n. 0), free_bytes = (\<lambda>p. None), accounts = example_accounts,
     cred = user_cred, caps = user_caps, umask = 18, trace = [], stdin = [], stdout = [], outbox = []\<rparr>"

definition setuid_world :: "files \<Rightarrow> world" where
  "setuid_world fs = (example_world fs)\<lparr>cred := setuid_cred, caps := setuid_caps\<rparr>"

lemma setuid_identity_invariant_witness:
  "\<exists>w'. for_io [Drop [], Raise [CAP_CHOWN], To_db, Lower [] 0] run_call (setuid_world []) = (Done (), w') \<and>
     known_identity w' \<and> (\<exists>w''. raise_cap [] w' = (Done (), w'') \<and> euid (cred w'') = 0 \<and> egid (cred w'') = 0)"
  by (rule setuid_identity_invariant)
     (simp_all add: setuid_ready_def setuid_mode_def known_identity_def setuid_world_def setuid_cred_def
        setuid_caps_def example_world_def)

text \<open>In a capability binary, raising succeeds exactly when the wanted capabilities are in the
  permitted set, and otherwise ends the process; the permitted set never grows, and a raise that is
  followed by the matching lower leaves none of the raised capabilities effective.\<close>

theorem cap_raise_lower:
  assumes "cap_mode w"
  shows "(fst (raise_cap cs w) = Done ()) = (set cs \<subseteq> set (permitted (cred w))) \<and>
    (fst (raise_cap cs w) = Exit 1) = (\<not> set cs \<subseteq> set (permitted (cred w))) \<and>
    (set cs \<subseteq> set (permitted (cred w)) \<longrightarrow>
       (\<exists>w'. seq_io (raise_cap cs) (lower_cap cs u) w = (Done (), w') \<and> cap_mode w' \<and>
          set (effective (cred w')) = set (effective (cred w)) - set cs \<and>
          permitted (cred w') = permitted (cred w)))"
proof (cases "set cs \<subseteq> set (permitted (cred w))")
  case True
  have m: "cap_mode (w\<lparr>cred := (cred w)\<lparr>effective := cs @ effective (cred w)\<rparr>\<rparr>)"
    using assms True by (auto simp: cap_mode_def)
  from assms True show ?thesis
    by (auto simp: caps_cap_mode(1) [OF assms True] seq_io_def let_io_def caps_cap_mode(3) [OF m] cap_mode_def)
next
  case False
  then show ?thesis by (simp add: caps_cap_mode(2) [OF assms False])
qed

definition cap_world :: "cap_value_t list \<Rightarrow> files \<Rightarrow> world" where
  "cap_world cs fs = (example_world fs)\<lparr>cred := cap_cred cs, caps := setuid_caps\<lparr>hascaps := True, issetuid := False\<rparr>\<rparr>"

lemma cap_raise_lower_witness:
  "(fst (raise_cap [CAP_CHOWN] (cap_world [CAP_DAC_OVERRIDE] [])) = Exit 1) = True"
proof -
  have m: "cap_mode (cap_world [CAP_DAC_OVERRIDE] [])"
    by (simp add: cap_mode_def cap_world_def cap_cred_def user_cred_def setuid_caps_def example_world_def)
  have p: "permitted (cred (cap_world [CAP_DAC_OVERRIDE] [])) = [CAP_DAC_OVERRIDE]"
    by (simp add: cap_world_def cap_cred_def user_cred_def example_world_def)
  show ?thesis using cap_raise_lower [OF m, of "[CAP_CHOWN]"] by (simp add: p)
qed

end
