(* ===== verification/Effects.thy ===== *)
theory Effects
  imports Caps
begin

text \<open>
  Reasoning about programs on the world. \<open>keeps R m\<close> says that every run of \<open>m\<close>, whether it returns,
  throws or ends the process, relates the worlds before and after by \<open>R\<close>; the locale
  \<open>step_relation\<close> gives the rules for the sequencing operators for every reflexive and transitive
  \<open>R\<close>, and its interpretations are the frame conditions used later: which files may change
  (\<open>only\<close>), what never changes (\<open>same_setup\<close>), which system calls are made (\<open>calls\<close>).
  \<open>Done_elims\<close> takes a run that returned apart into its steps.
\<close>

section \<open>Runs that return\<close>

lemma let_io_Done:
  "let_io m f w = (Done b, w') \<longleftrightarrow> (\<exists>a w1. m w = (Done a, w1) \<and> f a w1 = (Done b, w'))"
  by (auto simp: let_io_def split: prod.splits outcome.splits)

lemma seq_io_Done: "seq_io m m' w = (Done b, w') \<longleftrightarrow> (\<exists>w1. m w = (Done (), w1) \<and> m' w1 = (Done b, w'))"
  by (simp add: seq_io_def let_io_Done)

lemma ret_Done: "ret a w = (Done b, w') \<longleftrightarrow> b = a \<and> w' = w"
  by (auto simp: ret_def)

lemma get_io_Done: "get_io f w = (Done b, w') \<longleftrightarrow> b = f w \<and> w' = w"
  by (auto simp: get_io_def)

lemma put_io_Done: "put_io f w = (Done b, w') \<longleftrightarrow> w' = f w"
  by (auto simp: put_io_def)

lemma throw_Done [simp]: "throw e w \<noteq> (Done b, w')" "exit_with n w \<noteq> (Done b, w')"
  by (simp_all add: throw_def exit_with_def)

lemmas Done_iffs = let_io_Done seq_io_Done ret_Done get_io_Done put_io_Done

section \<open>Relations between the worlds before and after\<close>

definition keeps :: "(world \<Rightarrow> world \<Rightarrow> bool) \<Rightarrow> 'a io \<Rightarrow> bool" where
  "keeps R m \<longleftrightarrow> (\<forall>w. R w (snd (m w)))"

lemma keepsD: "keeps R m \<Longrightarrow> m w = (r, w') \<Longrightarrow> R w w'"
  unfolding keeps_def by (metis snd_conv)

lemma keepsI: "(\<And>w r w'. m w = (r, w') \<Longrightarrow> R w w') \<Longrightarrow> keeps R m"
  unfolding keeps_def by (metis prod.collapse)

locale step_relation =
  fixes R :: "world \<Rightarrow> world \<Rightarrow> bool"
  assumes refl: "R w w" and trans: "R u v \<Longrightarrow> R v w \<Longrightarrow> R u w"
begin

lemma pure: "keeps R (ret a)" "keeps R (throw e)" "keeps R (exit_with n)" "keeps R (get_io f)"
  by (simp_all add: keeps_def io_defs refl)

lemma let_step: "keeps R m \<Longrightarrow> (\<And>a. keeps R (f a)) \<Longrightarrow> keeps R (let_io m f)"
  unfolding keeps_def let_io_def by (auto split: prod.splits outcome.splits intro: trans) (metis snd_conv trans)+

lemma seq_step: "keeps R m \<Longrightarrow> keeps R m' \<Longrightarrow> keeps R (seq_io m m')"
  unfolding seq_io_def by (rule let_step)

lemma when_step: "(b \<Longrightarrow> keeps R m) \<Longrightarrow> keeps R (when_io b m)"
  by (cases b) (simp_all add: when_io_def pure)

lemma catch_step: "keeps R m \<Longrightarrow> (\<And>e. keeps R (h e)) \<Longrightarrow> keeps R (catch_io m h)"
  unfolding keeps_def catch_io_def by (auto split: prod.splits outcome.splits intro: trans) (metis snd_conv trans)+

lemma seqs_step: "(\<And>x. x \<in> set xs \<Longrightarrow> keeps R x) \<Longrightarrow> keeps R m \<Longrightarrow> keeps R (seqs_io xs m)"
  by (induction xs) (auto intro: seq_step)

lemma for_step: "(\<And>x. x \<in> set xs \<Longrightarrow> keeps R (f x)) \<Longrightarrow> keeps R (for_io xs f)"
  by (induction xs) (auto intro: seq_step pure)

lemma fold_step: "(\<And>x s. x \<in> set xs \<Longrightarrow> keeps R (f x s)) \<Longrightarrow> keeps R (fold_io xs f s)"
  by (induction xs arbitrary: s) (auto intro: let_step pure)

lemma if_step: "(b \<Longrightarrow> keeps R m) \<Longrightarrow> (\<not> b \<Longrightarrow> keeps R m') \<Longrightarrow> keeps R (if b then m else m')"
  by simp

lemma option_step: "(x = None \<Longrightarrow> keeps R m) \<Longrightarrow> (\<And>a. x = Some a \<Longrightarrow> keeps R (f a)) \<Longrightarrow>
    keeps R (case x of None \<Rightarrow> m | Some a \<Rightarrow> f a)"
  by (cases x) simp_all

lemma sum_step: "(\<And>a. keeps R (f a)) \<Longrightarrow> (\<And>a. keeps R (g a)) \<Longrightarrow> keeps R (case x of Inl a \<Rightarrow> f a | Inr a \<Rightarrow> g a)"
  by (cases x) simp_all

lemma prod_step: "(\<And>a b. keeps R (f a b)) \<Longrightarrow> keeps R (case x of (a, b) \<Rightarrow> f a b)"
  by (cases x) simp_all

lemmas rules = pure let_step seq_step when_step catch_step seqs_step for_step fold_step if_step option_step
  sum_step prod_step

end

section \<open>Which files change\<close>

definition only :: "(key \<Rightarrow> bool) \<Rightarrow> world \<Rightarrow> world \<Rightarrow> bool" where
  "only A w w' \<longleftrightarrow> (\<forall>k. \<not> A k \<longrightarrow> map_of (files w') k = map_of (files w) k)"

interpretation frame: step_relation "only A" for A
  by unfold_locales (auto simp: only_def)

lemma only_mono: "only A w w' \<Longrightarrow> (\<And>k. A k \<Longrightarrow> B k) \<Longrightarrow> only B w w'"
  by (auto simp: only_def)

text \<open>\<open>under p\<close>: the file at \<open>p\<close> and everything below it.\<close>

definition under :: "path \<Rightarrow> key \<Rightarrow> bool" where
  "under p k = prefix (comps p) k"

definition at_path :: "path \<Rightarrow> key \<Rightarrow> bool" where
  "at_path p k = (k = comps p)"

section \<open>What never changes\<close>

text \<open>The parameters of the world and the fixed parts of the process.\<close>

definition same_setup :: "world \<Rightarrow> world \<Rightarrow> bool" where
  "same_setup w w' \<longleftrightarrow>
     clock w' = clock w \<and> fault w' = fault w \<and> short_write w' = short_write w \<and> mv_residue w' = mv_residue w \<and>
     random w' = random w \<and> free_bytes w' = free_bytes w \<and> accounts w' = accounts w \<and> steps w \<le> steps w' \<and>
     ruid (cred w') = ruid (cred w) \<and> suid (cred w') = suid (cred w) \<and> rgid (cred w') = rgid (cred w)"

interpretation settings: step_relation same_setup
  by unfold_locales (auto simp: same_setup_def)

definition same_cap_object :: "world \<Rightarrow> world \<Rightarrow> bool" where
  "same_cap_object w w' \<longleftrightarrow> caps w' = caps w \<and> suid (cred w') = suid (cred w)"

interpretation cap_object: step_relation same_cap_object
  by unfold_locales (auto simp: same_cap_object_def)

section \<open>Which system calls are made\<close>

definition calls :: "(event \<Rightarrow> bool) \<Rightarrow> world \<Rightarrow> world \<Rightarrow> bool" where
  "calls P w w' \<longleftrightarrow> (\<exists>es. trace w' = es @ trace w \<and> list_all P es)"

interpretation calls: step_relation "calls P" for P
proof
  show "calls P w w" for w by (auto simp: calls_def)
  show "calls P u v \<Longrightarrow> calls P v w \<Longrightarrow> calls P u w" for u v w
    by (auto simp: calls_def)
qed

section \<open>The primitives\<close>

lemma sys_call_frame [intro]: "keeps (only A) (sys_call op k)" "keeps same_setup (sys_call op k)"
    "keeps same_cap_object (sys_call op k)"
  by (auto simp: keeps_def sys_call_def only_def same_setup_def same_cap_object_def)

lemma sys_call_Done: "sys_call op k w = (r, w') \<Longrightarrow> files w' = files w \<and> cred w' = cred w \<and> caps w' = caps w \<and> r = Done (map_option Trouble (fault w (steps w) op k))"
  by (auto simp: sys_call_def)

text \<open>
  A relation that the four calls on credentials respect is respected by the whole of \<open>class Cap\<close>.
\<close>

locale credential_relation = step_relation +
  assumes uid_call: "keeps R (seteuid u)" and gid_call: "keeps R (setegid g)"
    and groups_call: "keeps R (setgroups gs)" and cap_call: "keeps R (cap_set_proc p e)"
begin

lemma or_exit_call: "keeps R m \<Longrightarrow> keeps R (or_exit m)"
  by (simp add: or_exit_def rules)

lemma identity_call: "keeps R (set_identity u g groups)"
  unfolding set_identity_def
  by (intro rules or_exit_call uid_call)
     (cases groups; auto intro: or_exit_call uid_call gid_call groups_call pure)

lemma cap_calls:
  "keeps R (raise_cap cs)" "keeps R (lower_cap cs u)" "keeps R (drop_caps cs u)"
  "keeps R become_root" "keeps R become_db" "keeps R become_caller"
  unfolding raise_cap_def lower_cap_def drop_caps_def become_root_def become_db_def become_caller_def
  by (intro rules or_exit_call identity_call uid_call cap_call)+

end

lemmas credential_defs = keeps_def seteuid_def setegid_def setgroups_def cap_set_proc_def set_cred_def only_def
  same_setup_def same_cap_object_def calls_def

interpretation frame: credential_relation "only A" for A
  by unfold_locales (auto simp: credential_defs Let_def)

interpretation settings: credential_relation same_setup
  by unfold_locales (auto simp: credential_defs Let_def)

interpretation cap_object: credential_relation same_cap_object
  by unfold_locales (auto simp: credential_defs Let_def)

interpretation calls: credential_relation "calls P" for P
  by unfold_locales (auto simp: credential_defs Let_def)

text \<open>The same for the calls on the tree.\<close>

lemma change_files_run:
  "change_files op k rule w =
    (case fault w (steps w) op k of
       Some t \<Rightarrow> (Done (Some (Trouble t)), snd (sys_call op k w))
     | None \<Rightarrow> (case rule (snd (sys_call op k w)) of
                 Inl e \<Rightarrow> (Done (Some e), snd (sys_call op k w))
               | Inr fs \<Rightarrow> (Done None, (snd (sys_call op k w))\<lparr>files := fs\<rparr>)))"
  by (simp add: change_files_def let_io_def sys_call_def ret_def split: option.splits sum.splits)

lemma change_files_only:
  assumes "\<And>w fs q. rule w = Inr fs \<Longrightarrow> \<not> A q \<Longrightarrow> map_of fs q = map_of (files w) q"
  shows "keeps (only A) (change_files op k rule)"
  unfolding keeps_def only_def change_files_run
  by (auto simp: sys_call_def split: option.splits sum.splits) (drule assms, auto)+

text \<open>
  A relation that looks at the calls and not at the tree: \<open>good\<close> says which calls respect it.
\<close>

locale call_relation = credential_relation +
  fixes good :: "sysop \<Rightarrow> key \<Rightarrow> bool"
  assumes call: "good op k \<Longrightarrow> keeps R (sys_call op k)"
    and set_files: "keeps R (put_io (\<lambda>w. w\<lparr>files := f w\<rparr>))"
    and now: "keeps R time_now" and random_number: "keeps R rand"
begin

lemma change_call: "good op k \<Longrightarrow> keeps R (change_files op k rule)"
proof -
  assume g: "good op k"
  have f: "keeps R (\<lambda>w. case r w of Inl e \<Rightarrow> (Done (Some e), w) | Inr fs \<Rightarrow> (Done None, w\<lparr>files := fs\<rparr>))"
    for r :: "world \<Rightarrow> errno + files"
    unfolding keeps_def
  proof
    fix w
    show "R w (snd (case r w of Inl e \<Rightarrow> (Done (Some e), w) | Inr fs \<Rightarrow> (Done None, w\<lparr>files := fs\<rparr>)))"
    proof (cases "r w")
      case (Inl e)
      then show ?thesis by (simp add: refl)
    next
      case (Inr fs)
      then show ?thesis using set_files [of "\<lambda>w. fs"] by (simp add: keeps_def put_io_def)
    qed
  qed
  show ?thesis unfolding change_files_def by (intro rules call g f)
qed

lemma tree_calls:
  "good Sys_rename (comps a) \<Longrightarrow> keeps R (sys_rename a b)"
  "good Sys_unlink (comps a) \<Longrightarrow> keeps R (sys_unlink a)"
  "good Sys_rmdir (comps a) \<Longrightarrow> keeps R (sys_rmdir a)"
  "good Sys_mkdir (comps a) \<Longrightarrow> keeps R (sys_mkdir a m)"
  "good Sys_open (comps a) \<Longrightarrow> keeps R (sys_open_trunc a m)"
  "good Sys_write (comps a) \<Longrightarrow> keeps R (sys_write_all a s)"
  "good Sys_chmod (comps a) \<Longrightarrow> keeps R (sys_fchmod a m)"
  "good Sys_chown (comps a) \<Longrightarrow> keeps R (sys_fchown a u g)"
  "good Sys_stat (comps a) \<Longrightarrow> keeps R (sys_lstat a)"
  "good Sys_stat (comps a) \<Longrightarrow> keeps R (sys_stat a)"
  unfolding sys_rename_def sys_unlink_def sys_rmdir_def sys_mkdir_def sys_open_trunc_def sys_write_all_def
    sys_fchmod_def sys_fchown_def sys_lstat_def sys_stat_def Let_def
  by (intro rules change_call call set_files; assumption)+

lemma path_calls:
  "good Sys_stat (comps a) \<Longrightarrow> keeps R (fs_exists a)"
  "good Sys_stat (comps a) \<Longrightarrow> keeps R (fs_is_directory a)"
  "good Sys_stat (comps a) \<Longrightarrow> keeps R (fs_is_regular_file a)"
  "good Sys_rename (comps a) \<Longrightarrow> keeps R (fs_rename a b)"
  "good Sys_unlink (comps a) \<Longrightarrow> keeps R (fs_remove a)"
  "good Sys_readdir (comps a) \<Longrightarrow> keeps R (fs_directory_iterator a)"
  unfolding fs_exists_def fs_is_directory_def fs_is_regular_file_def fs_rename_def fs_remove_def
    fs_directory_iterator_def fs_status_def or_throw_def
  by (intro rules tree_calls change_call call; assumption)+

lemmas all_calls = rules cap_calls tree_calls path_calls call now random_number

end

interpretation settings: call_relation same_setup "\<lambda>op k. True"
  by unfold_locales (auto simp: credential_defs sys_call_def put_io_def time_now_def rand_def)

interpretation cap_object: call_relation same_cap_object "\<lambda>op k. True"
  by unfold_locales (auto simp: credential_defs sys_call_def put_io_def time_now_def rand_def)

interpretation calls: call_relation "calls P" "\<lambda>op k. \<forall>u. P (u, op, k)" for P
  by unfold_locales (auto simp: credential_defs sys_call_def put_io_def time_now_def rand_def)

section \<open>The primitives and the files they change\<close>

lemma only_quiet:
  "keeps (only A) (sys_lstat p)" "keeps (only A) (sys_stat p)" "keeps (only A) (fs_exists p)"
  "keeps (only A) (fs_is_directory p)" "keeps (only A) (fs_is_regular_file p)" "keeps (only A) (fs_directory_iterator p)"
  "keeps (only A) time_now" "keeps (only A) rand"
  unfolding sys_lstat_def sys_stat_def fs_exists_def fs_is_directory_def fs_is_regular_file_def
    fs_directory_iterator_def fs_status_def
  by (intro frame.rules sys_call_frame | simp add: keeps_def time_now_def rand_def only_def)+

lemma rename_rule_map:
  assumes "rename_rule a b fs = Inr fs'" and "a \<noteq> b"
  shows "map_of fs' (b @ r) = map_of fs (a @ r)"
    and "prefix a k \<Longrightarrow> map_of fs' k = None"
    and "\<not> prefix a k \<Longrightarrow> \<not> prefix b k \<Longrightarrow> map_of fs' k = map_of fs k"
proof -
  from assms have n: "\<not> prefix a b" "\<not> prefix b a" and fs': "fs' = fs_move a b fs"
    by (auto simp: rename_rule_def split: option.splits if_splits)
  note m = map_of_move [OF no_common_extension [OF n]]
  show "map_of fs' (b @ r) = map_of fs (a @ r)" "prefix a k \<Longrightarrow> map_of fs' k = None"
    "\<not> prefix a k \<Longrightarrow> \<not> prefix b k \<Longrightarrow> map_of fs' k = map_of fs k"
    unfolding fs' by (simp_all add: m)
qed

lemma rename_rule_same: "rename_rule a a fs = Inr fs' \<Longrightarrow> fs' = fs"
  by (auto simp: rename_rule_def split: option.splits if_splits)

lemma rename_rule_only:
  assumes "rename_rule a b fs = Inr fs'" and "\<not> prefix a k" and "\<not> prefix b k"
  shows "map_of fs' k = map_of fs k"
proof (cases "a = b")
  case True
  with assms rename_rule_same show ?thesis by blast
next
  case False
  from rename_rule_map(3) [OF assms(1) False assms(2,3)] show ?thesis .
qed

lemma only_tree:
  "(\<And>k. under a k \<Longrightarrow> A k) \<Longrightarrow> (\<And>k. under b k \<Longrightarrow> A k) \<Longrightarrow> keeps (only A) (sys_rename a b)"
  "A (comps p) \<Longrightarrow> keeps (only A) (sys_unlink p)"
  "A (comps p) \<Longrightarrow> keeps (only A) (sys_rmdir p)"
  "A (comps p) \<Longrightarrow> keeps (only A) (sys_mkdir p m)"
  "A (comps p) \<Longrightarrow> keeps (only A) (sys_open_trunc p m)"
  "A (comps p) \<Longrightarrow> keeps (only A) (sys_fchmod p m)"
  "A (comps p) \<Longrightarrow> keeps (only A) (sys_fchown p u g)"
  unfolding sys_rename_def sys_unlink_def sys_rmdir_def sys_mkdir_def sys_open_trunc_def sys_fchmod_def sys_fchown_def
  by (rule change_files_only;
      force simp: under_def unlink_rule_def rmdir_rule_def mkdir_rule_def open_trunc_rule_def update_inode_def
        map_of_del map_of_put dest: rename_rule_only split: option.splits if_splits kind.splits)+

lemma only_set_files:
  "(\<And>w q. \<not> A q \<Longrightarrow> map_of (f w) q = map_of (files w) q) \<Longrightarrow> keeps (only A) (put_io (\<lambda>w. w\<lparr>files := f w\<rparr>))"
  by (simp add: keeps_def put_io_def only_def)

lemma only_write: "A (comps p) \<Longrightarrow> keeps (only A) (sys_write_all p s)"
  unfolding sys_write_all_def Let_def
  by (intro frame.rules sys_call_frame only_set_files)
     (auto simp: update_inode_def map_of_put split: option.splits)

lemma only_fs:
  "(\<And>k. under a k \<Longrightarrow> A k) \<Longrightarrow> (\<And>k. under b k \<Longrightarrow> A k) \<Longrightarrow> keeps (only A) (fs_rename a b)"
  "A (comps p) \<Longrightarrow> keeps (only A) (fs_remove p)"
proof -
  show "(\<And>k. under a k \<Longrightarrow> A k) \<Longrightarrow> (\<And>k. under b k \<Longrightarrow> A k) \<Longrightarrow> keeps (only A) (fs_rename a b)"
    unfolding fs_rename_def or_throw_def by (intro frame.rules only_tree)
  assume p: "A (comps p)"
  have "keeps (only A) (change_files Sys_unlink (comps p) (\<lambda>w. remove_rule (comps p) (files w)))"
    by (rule change_files_only)
       (use p in \<open>force simp: remove_rule_def unlink_rule_def rmdir_rule_def map_of_del split: option.splits if_splits\<close>)
  then show "keeps (only A) (fs_remove p)" unfolding fs_remove_def by (intro frame.rules)
qed

lemmas only_calls = frame.rules frame.cap_calls only_quiet only_tree only_write only_fs sys_call_frame(1)

section \<open>A process that can act\<close>

text \<open>
  The three ways a tool is installed in which no change of identity ends the process: without any
  privilege, as a setuid binary that knows the identity of the database, or as a capability binary
  with the given capabilities in its permitted set.
\<close>

definition can_act :: "cap_value_t list \<Rightarrow> world \<Rightarrow> bool" where
  "can_act cs w \<longleftrightarrow> user_mode w \<or> setuid_ready w \<or> cap_mode w \<and> set cs \<subseteq> set (permitted (cred w))"

lemma can_act_cong: "cred w' = cred w \<Longrightarrow> caps w' = caps w \<Longrightarrow> can_act cs w' = can_act cs w"
  by (simp add: can_act_def user_mode_def setuid_ready_def setuid_mode_def cap_mode_def)

lemma can_act_files [simp]: "can_act cs (w\<lparr>files := fs\<rparr>) = can_act cs w"
  by (rule can_act_cong) simp_all

lemma can_act_steps [simp]:
  "can_act cs (w\<lparr>steps := n, trace := t\<rparr>) = can_act cs w" "can_act cs (w\<lparr>steps := n\<rparr>) = can_act cs w"
  by (rule can_act_cong; simp)+

lemma become_cred: "become u g gs w = w\<lparr>cred := (cred w)\<lparr>euid := u, egid := g, sup_groups := gs\<rparr>\<rparr>"
  by (simp add: become_def)

lemma setuid_ready_become: "setuid_ready (become u g gs w) = setuid_ready w"
  by (simp add: setuid_ready_def cap_simps) (simp add: become_def)

text \<open>Then each call on the object \<open>caps\<close> returns and changes nothing but the credentials.\<close>

definition shifts :: "cap_value_t list \<Rightarrow> unit io \<Rightarrow> world \<Rightarrow> bool" where
  "shifts cs m w \<longleftrightarrow> (\<exists>c. m w = (Done (), w\<lparr>cred := c\<rparr>) \<and> can_act cs (w\<lparr>cred := c\<rparr>) \<and> ruid c = ruid (cred w) \<and> rgid c = rgid (cred w))"

lemma shifts_become:
  assumes "m w = (Done (), become u g gs w)" and "setuid_ready w"
  shows "shifts cs m w"
  using assms setuid_ready_become [of u g gs w] by (auto simp: shifts_def can_act_def become_def)

lemma shifts_same: "m w = (Done (), w) \<Longrightarrow> can_act cs w \<Longrightarrow> shifts cs m w"
  by (auto simp: shifts_def intro: exI [of _ "cred w"])

lemma cap_mode_effective: "cap_mode (w\<lparr>cred := (cred w)\<lparr>effective := e\<rparr>\<rparr>) = (hascaps (caps w) \<and> \<not> issetuid (caps w) \<and> set e \<subseteq> set (permitted (cred w)))"
  by (simp add: cap_mode_def)

lemma shifts_effective:
  assumes "m w = (Done (), w\<lparr>cred := (cred w)\<lparr>effective := e\<rparr>\<rparr>)" and "cap_mode w"
    and "set e \<subseteq> set (permitted (cred w))" and "set cs \<subseteq> set (permitted (cred w))"
  shows "shifts cs m w"
  unfolding shifts_def
  by (rule exI [of _ "(cred w)\<lparr>effective := e\<rparr>"])
     (use assms in \<open>simp add: can_act_def cap_mode_effective cap_mode_def\<close>)

lemma cap_shifts:
  assumes "can_act cs w"
  shows "set ds \<subseteq> set cs \<Longrightarrow> shifts cs (raise_cap ds) w" and "shifts cs (lower_cap ds u) w"
    and "shifts cs become_db w" and "shifts cs become_root w" and "shifts cs become_caller w"
proof -
  consider (user) "user_mode w" | (setuid) "setuid_ready w" | (cap) "cap_mode w" "set cs \<subseteq> set (permitted (cred w))"
    using assms by (auto simp: can_act_def)
  then have "(set ds \<subseteq> set cs \<longrightarrow> shifts cs (raise_cap ds) w) \<and> shifts cs (lower_cap ds u) w \<and>
      shifts cs become_db w \<and> shifts cs become_root w \<and> shifts cs become_caller w"
  proof cases
    case user
    then show ?thesis using assms by (auto intro!: shifts_same simp: cap_simps)
  next
    case setuid
    then have m: "setuid_mode w" "db_identity_set (caps w)" by (simp_all add: setuid_ready_def)
    show ?thesis using caps_setuid [OF m(1)] m(2) setuid by (auto intro: shifts_become)
  next
    case cap
    then have m: "hascaps (caps w)" "\<not> issetuid (caps w)" "set (effective (cred w)) \<subseteq> set (permitted (cred w))"
      by (simp_all add: cap_mode_def)
    have r: "shifts cs (raise_cap ds) w" if "set ds \<subseteq> set cs"
    proof (rule shifts_effective [OF _ cap(1)])
      show "raise_cap ds w = (Done (), w\<lparr>cred := (cred w)\<lparr>effective := ds @ effective (cred w)\<rparr>\<rparr>)"
        using that cap by (intro caps_cap_mode(1)) auto
    qed (use that cap(2) m in auto)
    have l: "shifts cs (lower_cap ds u) w"
      by (rule shifts_effective [where e = "filter (\<lambda>x. x \<notin> set ds) (effective (cred w))"])
         (use cap m caps_cap_mode(3) in auto)
    show ?thesis using r l caps_cap_mode(4-6) [OF cap(1)] assms by (auto intro: shifts_same)
  qed
  then show "set ds \<subseteq> set cs \<Longrightarrow> shifts cs (raise_cap ds) w" "shifts cs (lower_cap ds u) w"
    "shifts cs become_db w" "shifts cs become_root w" "shifts cs become_caller w" by simp_all
qed

definition no_faults :: "world \<Rightarrow> bool" where
  "no_faults w = (fault w = (\<lambda>n op k. None))"

definition ok :: "errno option \<Rightarrow> bool" where
  "ok e = (e = None)"

lemma no_faults_simps [simp]:
  "no_faults (w\<lparr>files := fs\<rparr>) = no_faults w" "no_faults (w\<lparr>steps := n, trace := t\<rparr>) = no_faults w"
  by (simp_all add: no_faults_def)

section \<open>Runs that return, backwards\<close>

text \<open>
  \<open>returns m w Q\<close>: from \<open>w\<close> the program returns normally and result and final world satisfy \<open>Q\<close>.
\<close>

definition returns :: "'a io \<Rightarrow> world \<Rightarrow> ('a \<Rightarrow> world \<Rightarrow> bool) \<Rightarrow> bool" where
  "returns m w Q \<longleftrightarrow> (\<exists>a w'. m w = (Done a, w') \<and> Q a w')"

lemma returns_let: "returns (let_io m f) w Q = returns m w (\<lambda>a w'. returns (f a) w' Q)"
  by (auto simp: returns_def let_io_Done)

lemma returns_seq: "returns (seq_io m m') w Q = returns m w (\<lambda>a w'. returns m' w' Q)"
  by (auto simp: returns_def seq_io_Done)

lemma returns_ret: "returns (ret a) w Q = Q a w"
  by (simp add: returns_def ret_def)

lemma returns_get: "returns (get_io f) w Q = Q (f w) w"
  by (simp add: returns_def get_io_def)

lemma returns_put: "returns (put_io f) w Q = Q () (f w)"
  by (simp add: returns_def put_io_def)

lemma returns_when: "returns (when_io b m) w Q = (if b then returns m w Q else Q () w)"
  by (simp add: when_io_def returns_ret)

lemma returns_if: "returns (if b then m else m') w Q = (if b then returns m w Q else returns m' w Q)"
  by simp

lemmas returns_sequence = returns_let returns_seq returns_ret returns_get returns_put returns_when returns_if

lemma returns_mono: "returns m w P \<Longrightarrow> (\<And>a w'. P a w' \<Longrightarrow> Q a w') \<Longrightarrow> returns m w Q"
  by (auto simp: returns_def)

lemma returns_catch: "returns m w Q \<Longrightarrow> returns (catch_io m h) w Q"
  by (auto simp: returns_def catch_io_def)

text \<open>The state in which proofs about successful runs live, and its steps.\<close>

definition ready :: "cap_value_t list \<Rightarrow> files \<Rightarrow> world \<Rightarrow> bool" where
  "ready cs fs w \<longleftrightarrow> can_act cs w \<and> no_faults w \<and> files w = fs"

lemma ready_shift: "ready cs fs w \<Longrightarrow> shifts cs m w \<Longrightarrow> (\<And>w'. ready cs fs w' \<Longrightarrow> Q () w') \<Longrightarrow> returns m w Q"
  by (auto simp: ready_def shifts_def returns_def no_faults_def)

lemma ready_caps:
  assumes "ready cs fs w" and "\<And>w'. ready cs fs w' \<Longrightarrow> Q () w'"
  shows "set ds \<subseteq> set cs \<Longrightarrow> returns (raise_cap ds) w Q" and "returns (lower_cap ds u) w Q"
    and "returns become_db w Q" and "returns become_root w Q" and "returns become_caller w Q"
  using assms cap_shifts [of cs w] by (auto simp: ready_def [of cs fs w] intro!: ready_shift [OF assms(1)])

lemma ready_when:
  assumes "ready cs fs w" and "\<And>w'. ready cs fs w' \<Longrightarrow> Q () w'"
  shows "set ds \<subseteq> set cs \<Longrightarrow> returns (when_io b (raise_cap ds)) w Q" and "returns (when_io b (lower_cap ds u)) w Q"
    and "returns (when_io b become_db) w Q"
  using ready_caps [of cs fs w Q, OF assms] assms by (auto simp: returns_when)

lemma ready_call:
  "ready cs fs w \<Longrightarrow> (\<And>w'. ready cs fs w' \<Longrightarrow> Q None w') \<Longrightarrow> returns (sys_call op k) w Q"
  by (auto simp: ready_def returns_def sys_call_def no_faults_def)

lemma ready_now: "ready cs fs w \<Longrightarrow> (\<And>t w'. ready cs fs w' \<Longrightarrow> Q t w') \<Longrightarrow> returns time_now w Q"
  by (auto simp: ready_def returns_def time_now_def no_faults_def)

lemma ready_change:
  assumes "ready cs fs w" and "\<And>w'. ready cs fs w' \<Longrightarrow> rule w' = Inr (g w')"
    and "\<And>w' w''. ready cs fs w' \<Longrightarrow> ready cs (g w') w'' \<Longrightarrow> Q None w''"
  shows "returns (change_files op k rule) w Q"
proof -
  have r: "ready cs fs (snd (sys_call op k w))"
    using assms(1) by (auto simp: ready_def sys_call_def)
  moreover from r have "ready cs (g (snd (sys_call op k w))) ((snd (sys_call op k w))\<lparr>files := g (snd (sys_call op k w))\<rparr>)"
    by (simp add: ready_def)
  ultimately show ?thesis using assms
    by (simp add: returns_def change_files_run ready_def no_faults_def)
qed

text \<open>A file that can be written: it is there as a regular file, or its directory is there.\<close>

definition writable :: "files \<Rightarrow> key \<Rightarrow> bool" where
  "writable fs k = (case map_of fs k of None \<Rightarrow> k \<noteq> [] \<and> dir_at fs (butlast k) | Some i \<Rightarrow> is_reg i)"

lemma ready_open_trunc:
  assumes "ready cs fs w" and "writable fs (comps p)"
    and "\<And>i w'. kind i = Reg [] \<Longrightarrow> ready cs (fs_put (comps p) i fs) w' \<Longrightarrow> Q None w'"
  shows "returns (sys_open_trunc p m) w Q"
  unfolding sys_open_trunc_def
proof (rule ready_change [OF assms(1)])
  let ?i = "\<lambda>w'. case map_of fs (comps p) of None \<Rightarrow> new_inode (Reg []) m w'
    | Some i \<Rightarrow> i\<lparr>kind := Reg [], mtime := clock w' (steps w')\<rparr>"
  show "open_trunc_rule (comps p) m w' = Inr (fs_put (comps p) (?i w') fs)" if "ready cs fs w'" for w'
    using assms(2) that
    by (auto simp: writable_def open_trunc_rule_def ready_def is_reg_def split: option.splits kind.splits)
  show "Q None w''" if "ready cs (fs_put (comps p) (?i w') fs) w''" for w' w''
    by (rule assms(3) [OF _ that]) (simp add: new_inode_def split: option.split)
qed

lemma fs_put_twice [simp]: "fs_put k i (fs_put k j fs) = fs_put k i fs"
  by (simp add: fs_put_def fs_del_def)

lemma update_put [simp]: "update_inode k f (fs_put k i fs) = fs_put k (f i) fs"
  by (simp add: update_inode_def map_of_put)

lemma ready_write_all:
  assumes "ready cs (fs_put (comps p) i fs) w" and "kind i = Reg t"
    and "\<And>w'. ready cs (fs_put (comps p) (i\<lparr>kind := Reg s\<rparr>) fs) w' \<Longrightarrow> Q None w'"
  shows "returns (sys_write_all p s) w Q"
proof -
  have "set_content s i = i\<lparr>kind := Reg s\<rparr>" using assms(2) by (simp add: set_content_def)
  then show ?thesis unfolding sys_write_all_def
    by (simp add: returns_sequence Let_def)
       (rule ready_call [OF assms(1)], auto simp: ready_def intro!: assms(3))
qed

lemma ready_fchmod:
  assumes "ready cs (fs_put (comps p) i fs) w"
    and "\<And>j w'. kind j = kind i \<Longrightarrow> ready cs (fs_put (comps p) j fs) w' \<Longrightarrow> Q None w'"
  shows "returns (sys_fchmod p m) w Q" and "returns (sys_fchown p u g) w Q"
proof -
  have c: "returns (change_files op k (\<lambda>w. Inr (update_inode (comps p) f (files w)))) w Q"
    if "\<And>i. kind (f i) = kind i" for op k f
  proof (rule ready_change [OF assms(1)])
    show "Inr (update_inode (comps p) f (files w')) = Inr (fs_put (comps p) (f i) fs)"
      if "ready cs (fs_put (comps p) i fs) w'" for w' using that by (simp add: ready_def)
    show "Q None w''" if "ready cs (fs_put (comps p) (f i) fs) w''" for w' w''
      by (rule assms(2) [OF _ that]) (rule \<open>\<And>i. kind (f i) = kind i\<close>)
  qed
  show "returns (sys_fchmod p m) w Q" "returns (sys_fchown p u g) w Q"
    unfolding sys_fchmod_def sys_fchown_def by (rule c, simp)+
qed

section \<open>Who makes the calls\<close>

text \<open>
  Runs of a setuid tool: \<open>trail P w0 w\<close> says that the tool, since \<open>w0\<close>, only made calls that
  satisfy \<open>P\<close>. The steps hold whichever calls fail.
\<close>

definition trail :: "(event \<Rightarrow> bool) \<Rightarrow> world \<Rightarrow> world \<Rightarrow> bool" where
  "trail P w0 w \<longleftrightarrow> setuid_ready w \<and> caps w = caps w0 \<and> calls P w0 w"

lemma trail_start: "setuid_ready w \<Longrightarrow> trail P w w"
  by (simp add: trail_def calls.refl)

lemma trail_become: "trail P w0 w \<Longrightarrow> trail P w0 (become u g gs w)"
  by (simp add: trail_def setuid_ready_become cap_simps) (simp add: become_def calls_def)

lemma trail_caps:
  assumes "trail P w0 w"
  shows "(\<And>w'. trail P w0 w' \<Longrightarrow> euid (cred w') = 0 \<Longrightarrow> Q () w') \<Longrightarrow> returns (raise_cap ds) w Q"
    and "(\<And>w'. trail P w0 w' \<Longrightarrow> euid (cred w') = db_uid (caps w0) \<Longrightarrow> Q () w') \<Longrightarrow> returns become_db w Q"
    and "(\<And>w'. trail P w0 w' \<Longrightarrow> euid (cred w') = db_uid (caps w0) \<Longrightarrow> Q () w') \<Longrightarrow> returns (lower_cap ds u) w Q"
    and "(\<And>w'. trail P w0 w' \<Longrightarrow> euid (cred w') = user_uid (caps w0) \<Longrightarrow> Q () w') \<Longrightarrow> returns become_caller w Q"
proof -
  from assms have m: "setuid_mode w" "db_identity_set (caps w)" "caps w = caps w0"
    unfolding trail_def setuid_ready_def by blast+
  note c = caps_setuid [OF m(1)] trail_become [OF assms]
  show "(\<And>w'. trail P w0 w' \<Longrightarrow> euid (cred w') = 0 \<Longrightarrow> Q () w') \<Longrightarrow> returns (raise_cap ds) w Q"
    "(\<And>w'. trail P w0 w' \<Longrightarrow> euid (cred w') = db_uid (caps w0) \<Longrightarrow> Q () w') \<Longrightarrow> returns become_db w Q"
    "(\<And>w'. trail P w0 w' \<Longrightarrow> euid (cred w') = db_uid (caps w0) \<Longrightarrow> Q () w') \<Longrightarrow> returns (lower_cap ds u) w Q"
    "(\<And>w'. trail P w0 w' \<Longrightarrow> euid (cred w') = user_uid (caps w0) \<Longrightarrow> Q () w') \<Longrightarrow> returns become_caller w Q"
    using m(2,3) c by (simp_all add: returns_def cap_simps)
qed

lemma trail_cong:
  assumes "trail P w0 w" and "cred w' = cred w" and "caps w' = caps w"
    and "trace w' = trace w \<or> (\<exists>e. P e \<and> trace w' = e # trace w)"
  shows "trail P w0 w'"
proof -
  have r: "setuid_ready w' = setuid_ready w" using assms(2,3) by (simp add: setuid_ready_def setuid_mode_def)
  obtain es where "trace w = es @ trace w0" "list_all P es" using assms(1) by (auto simp: trail_def calls_def)
  with assms(4) have "calls P w0 w'"
    by (auto simp: calls_def intro: exI [of _ es] exI [of _ "_ # es"])
  with assms r show ?thesis by (simp add: trail_def)
qed

lemma trail_call:
  assumes "trail P w0 w" and "P (euid (cred w), op, k)"
    and "\<And>r w'. trail P w0 w' \<Longrightarrow> euid (cred w') = euid (cred w) \<Longrightarrow> Q r w'"
  shows "returns (sys_call op k) w Q"
  unfolding returns_def sys_call_def
  by (auto intro!: assms(3) trail_cong [OF assms(1)] exI [of _ "(euid (cred w), op, k)"] assms(2))

lemma trail_change:
  assumes "trail P w0 w" and "P (euid (cred w), op, k)"
    and "\<And>r w'. trail P w0 w' \<Longrightarrow> euid (cred w') = euid (cred w) \<Longrightarrow> Q r w'"
  shows "returns (change_files op k rule) w Q"
proof -
  have t: "trail P w0 (snd (sys_call op k w))" "trail P w0 ((snd (sys_call op k w))\<lparr>files := fs\<rparr>)" for fs
    by (rule trail_cong [OF assms(1)]; simp add: sys_call_def assms(2))+
  show ?thesis unfolding returns_def change_files_run
    using t by (auto intro!: assms(3) simp: sys_call_def split: option.splits sum.splits)
qed

lemma trail_ops:
  assumes "trail P w0 w" and "\<And>r w'. trail P w0 w' \<Longrightarrow> euid (cred w') = euid (cred w) \<Longrightarrow> Q r w'"
  shows "P (euid (cred w), Sys_open, comps p) \<Longrightarrow> returns (sys_open_trunc p m) w Q"
    and "P (euid (cred w), Sys_chmod, comps p) \<Longrightarrow> returns (sys_fchmod p m) w Q"
    and "P (euid (cred w), Sys_chown, comps p) \<Longrightarrow> returns (sys_fchown p u g) w Q"
    and "P (euid (cred w), Sys_rename, comps p) \<Longrightarrow> returns (sys_rename p q) w Q"
    and "P (euid (cred w), Sys_write, comps p) \<Longrightarrow> returns (sys_write_all p s) w Q"
proof -
  show "P (euid (cred w), Sys_open, comps p) \<Longrightarrow> returns (sys_open_trunc p m) w Q"
    "P (euid (cred w), Sys_chmod, comps p) \<Longrightarrow> returns (sys_fchmod p m) w Q"
    "P (euid (cred w), Sys_chown, comps p) \<Longrightarrow> returns (sys_fchown p u g) w Q"
    "P (euid (cred w), Sys_rename, comps p) \<Longrightarrow> returns (sys_rename p q) w Q"
    unfolding sys_open_trunc_def sys_fchmod_def sys_fchown_def sys_rename_def
    by (rule trail_change [OF assms(1)]; (assumption | rule assms(2); assumption))+
  show "returns (sys_write_all p s) w Q" if "P (euid (cred w), Sys_write, comps p)"
    unfolding sys_write_all_def returns_let returns_get
  proof (rule trail_call [OF assms(1) that])
    fix r w'
    assume t: "trail P w0 w'" and e: "euid (cred w') = euid (cred w)"
    have "trail P w0 (w'\<lparr>files := fs\<rparr>)" for fs by (rule trail_cong [OF t]) simp_all
    with e show "returns (let written = case r of None \<Rightarrow> s | Some x \<Rightarrow> take (short_write w (steps w)) s
          in seq_io (put_io (\<lambda>w. w\<lparr>files := update_inode (comps p) (set_content written) (files w)\<rparr>)) (ret r)) w' Q"
      by (auto simp: Let_def returns_seq returns_put returns_ret intro!: assms(2))
  qed
qed

section \<open>Programs that change no file\<close>

definition same_files :: "world \<Rightarrow> world \<Rightarrow> bool" where
  "same_files w w' = (files w' = files w)"

interpretation same: credential_relation same_files
  by unfold_locales (auto simp: same_files_def credential_defs Let_def)

lemma same_calls: "keeps same_files (sys_call op k)" "keeps same_files time_now" "keeps same_files rand"
  by (simp_all add: keeps_def same_files_def sys_call_def time_now_def rand_def)

lemma same_filesD: "keeps same_files m \<Longrightarrow> m w = (r, w') \<Longrightarrow> files w' = files w"
  by (auto simp: keeps_def same_files_def) (metis snd_conv)

section \<open>Both ways a run can end\<close>

text \<open>
  \<open>ends m w Q F\<close>: if the run returns, result and world satisfy \<open>Q\<close>; if it throws or exits, the world
  satisfies \<open>F\<close>.
\<close>

definition ends :: "'a io \<Rightarrow> world \<Rightarrow> ('a \<Rightarrow> world \<Rightarrow> bool) \<Rightarrow> (world \<Rightarrow> bool) \<Rightarrow> bool" where
  "ends m w Q F = (case m w of (r, w') \<Rightarrow> (case r of Done a \<Rightarrow> Q a w' | _ \<Rightarrow> F w'))"

lemma ends_let: "ends (let_io m f) w Q F = ends m w (\<lambda>a w'. ends (f a) w' Q F) F"
  by (simp add: ends_def let_io_def split: prod.splits outcome.splits)

lemma ends_seq: "ends (seq_io m m') w Q F = ends m w (\<lambda>a w'. ends m' w' Q F) F"
  by (simp add: seq_io_def ends_let)

lemma ends_simple: "ends (ret a) w Q F = Q a w" "ends (throw e) w Q F = F w" "ends (exit_with n) w Q F = F w"
  "ends (get_io g) w R F = R (g w) w"
  by (simp_all add: ends_def io_defs)

lemma ends_when: "ends (when_io b m) w Q F = (if b then ends m w Q F else Q () w)"
  by (simp add: when_io_def ends_simple)

lemma ends_catch:
  assumes "ends m w Q (\<lambda>w'. F w' \<and> (\<forall>e. ends (h e) w' Q F))"
  shows "ends (catch_io m h) w Q F"
proof -
  obtain r w' where m: "m w = (r, w')" by force
  show ?thesis
  proof (cases r)
    case (Throw e)
    with m assms have "ends (h e) w' Q F" by (simp add: ends_def)
    with m Throw show ?thesis by (simp add: ends_def catch_io_def)
  qed (use m assms in \<open>simp_all add: ends_def catch_io_def\<close>)
qed

lemmas ends_sequence = ends_let ends_seq ends_simple ends_when

lemma ends_keeps:
  assumes "keeps R m" and "\<And>a w'. R w w' \<Longrightarrow> m w = (Done a, w') \<Longrightarrow> Q a w'" and "\<And>w'. R w w' \<Longrightarrow> F w'"
  shows "ends m w Q F"
proof -
  obtain r w' where m: "m w = (r, w')" by force
  with assms(1) have "R w w'" by (rule keepsD)
  with m assms(2,3) show ?thesis by (auto simp: ends_def split: outcome.splits)
qed

lemma ends_quiet:
  "keeps same_files m \<Longrightarrow> (\<And>a w'. files w' = files w \<Longrightarrow> m w = (Done a, w') \<Longrightarrow> Q a w') \<Longrightarrow>
     (\<And>w'. files w' = files w \<Longrightarrow> F w') \<Longrightarrow> ends m w Q F"
  by (erule ends_keeps) (simp_all add: same_files_def)

lemma ends_mono:
  "ends m w Q F \<Longrightarrow> (\<And>a w'. Q a w' \<Longrightarrow> Q' a w') \<Longrightarrow> (\<And>w'. F w' \<Longrightarrow> F' w') \<Longrightarrow> ends m w Q' F'"
  by (auto simp: ends_def split: prod.splits outcome.splits)

lemma endsD: "ends m w Q F \<Longrightarrow> m w = (r, w') \<Longrightarrow> (\<exists>a. r = Done a \<and> Q a w') \<or> (\<forall>a. r \<noteq> Done a) \<and> F w'"
  by (auto simp: ends_def split: outcome.splits)

section \<open>A process that can act, with failing calls\<close>

definition acts :: "cap_value_t list \<Rightarrow> (nat \<Rightarrow> sysop \<Rightarrow> key \<Rightarrow> trouble option) \<Rightarrow> files \<Rightarrow> world \<Rightarrow> bool" where
  "acts cs ft fs w \<longleftrightarrow> can_act cs w \<and> fault w = ft \<and> files w = fs"

lemma acts_shift: "acts cs ft fs w \<Longrightarrow> shifts cs m w \<Longrightarrow> (\<And>w'. acts cs ft fs w' \<Longrightarrow> Q () w') \<Longrightarrow> ends m w Q F"
  by (auto simp: acts_def shifts_def ends_def)

lemma acts_caps:
  assumes "acts cs ft fs w" and "\<And>w'. acts cs ft fs w' \<Longrightarrow> Q () w'"
  shows "set ds \<subseteq> set cs \<Longrightarrow> ends (raise_cap ds) w Q F" and "ends (lower_cap ds u) w Q F"
    and "ends become_db w Q F" and "ends become_root w Q F" and "ends become_caller w Q F"
  using assms cap_shifts [of cs w] by (auto simp: acts_def [of cs ft fs w] intro!: acts_shift [OF assms(1)])

lemma acts_call:
  "acts cs ft fs w \<Longrightarrow> (\<And>n w'. acts cs ft fs w' \<Longrightarrow> Q (map_option Trouble (ft n op k)) w') \<Longrightarrow> ends (sys_call op k) w Q F"
  by (auto simp: acts_def ends_def sys_call_def)

lemma acts_change:
  assumes "acts cs ft fs w" and "\<And>w' fs'. acts cs ft fs w' \<Longrightarrow> rule w' = Inr fs' \<Longrightarrow> P fs'"
    and "\<And>w' e. acts cs ft fs w' \<Longrightarrow> rule w' = Inl e \<Longrightarrow> E e"
    and "\<And>fs' w'. P fs' \<Longrightarrow> acts cs ft fs' w' \<Longrightarrow> Q None w'"
    and "\<And>e w'. acts cs ft fs w' \<Longrightarrow> E e \<or> (\<exists>n t. ft n op k = Some t) \<Longrightarrow> Q (Some e) w'"
  shows "ends (change_files op k rule) w Q F"
  unfolding change_files_def ends_let
proof (rule acts_call [OF assms(1)])
  fix n w' assume a: "acts cs ft fs w'"
  show "ends (case map_option Trouble (ft n op k) of None \<Rightarrow> \<lambda>w. case rule w of Inl e \<Rightarrow> (Done (Some e), w) | Inr fs \<Rightarrow> (Done None, w\<lparr>files := fs\<rparr>)
      | Some e \<Rightarrow> ret (Some e)) w' Q F"
  proof (cases "ft n op k")
    case (Some t)
    then show ?thesis using assms(5) [OF a, of "Trouble t"] by (auto simp: ends_simple)
  next
    case None
    show ?thesis
    proof (cases "rule w'")
      case (Inl e)
      with None assms(3) [OF a Inl] assms(5) [OF a, of e] show ?thesis by (simp add: ends_def)
    next
      case (Inr fs')
      have "acts cs ft fs' (w'\<lparr>files := fs'\<rparr>)" using a by (simp add: acts_def)
      with None Inr assms(2) [OF a Inr] assms(4) show ?thesis by (simp add: ends_def)
    qed
  qed
qed

lemma acts_rename:
  assumes "acts cs ft fs w"
    and "\<And>fs' w'. rename_rule (comps a) (comps b) fs = Inr fs' \<Longrightarrow> acts cs ft fs' w' \<Longrightarrow> Q None w'"
    and "\<And>e w'. acts cs ft fs w' \<Longrightarrow> rename_rule (comps a) (comps b) fs = Inl e \<or> (\<exists>n t. ft n Sys_rename (comps a) = Some t) \<Longrightarrow> Q (Some e) w'"
  shows "ends (sys_rename a b) w Q F"
  unfolding sys_rename_def
  by (rule acts_change [OF assms(1), where P = "\<lambda>fs'. rename_rule (comps a) (comps b) fs = Inr fs'"
        and E = "\<lambda>e. rename_rule (comps a) (comps b) fs = Inl e"])
     (use assms(2,3) in \<open>auto simp: acts_def [of cs ft fs]\<close>)

lemma acts_lstat:
  assumes "acts cs ft fs w" and "\<And>w'. acts cs ft fs w' \<Longrightarrow> Q (case map_of fs (comps p) of None \<Rightarrow> Inl ENOENT | Some i \<Rightarrow> Inr i) w'"
    and "\<And>n t w'. ft n Sys_stat (comps p) = Some t \<Longrightarrow> acts cs ft fs w' \<Longrightarrow> Q (Inl (Trouble t)) w'"
  shows "ends (sys_lstat p) w Q F"
  unfolding sys_lstat_def ends_let
proof (rule acts_call [OF assms(1)])
  fix n w' assume a: "acts cs ft fs w'"
  show "ends (case map_option Trouble (ft n Sys_stat (comps p)) of
      None \<Rightarrow> get_io (\<lambda>w. case map_of (files w) (comps p) of None \<Rightarrow> Inl ENOENT | Some i \<Rightarrow> Inr i) | Some e \<Rightarrow> ret (Inl e)) w' Q F"
    using assms(3) [OF _ a] assms(2) [OF a] a by (cases "ft n Sys_stat (comps p)") (auto simp: ends_simple acts_def)
qed

end
