(* ===== verification/User.thy ===== *)
theory User
  imports Effects
begin

text \<open>
  \<open>src/src/user.cpp\<close>: who calls the tool, from the credentials of the process and the accounts of
  the system. A null result behind \<open>gsl::not_null\<close> ends the process (status 134).
\<close>

definition user_exists :: "world \<Rightarrow> string \<Rightarrow> bool" where
  "user_exists w username = (getpwnam (accounts w) username \<noteq> None)"

definition not_null :: "'a option \<Rightarrow> 'a io" where
  "not_null x = (case x of None \<Rightarrow> exit_with 134 | Some a \<Rightarrow> ret a)"

definition getuid :: "uid io" where
  "getuid = get_io (\<lambda>w. ruid (cred w))"

definition getgid :: "gid io" where
  "getgid = get_io (\<lambda>w. rgid (cred w))"

definition getUsername :: "string io" where
  "getUsername =
     let_io (get_io (\<lambda>w. getpwuid (accounts w) (ruid (cred w)))) (\<lambda>pw.
     let_io (not_null pw) (\<lambda>pw. ret (pw_name pw)))"

definition getUserhome :: "string io" where
  "getUserhome =
     let_io (get_io (\<lambda>w. getpwuid (accounts w) (ruid (cred w)))) (\<lambda>pw.
     let_io (not_null pw) (\<lambda>pw. ret (pw_dir pw)))"

definition getUserhome_of :: "world \<Rightarrow> string \<Rightarrow> string" where
  "getUserhome_of w username = (case getpwnam (accounts w) username of None \<Rightarrow> [] | Some pw \<Rightarrow> pw_dir pw)"

definition getGroupname :: "string io" where
  "getGroupname = let_io (get_io (\<lambda>w. getgrgid (accounts w) (egid (cred w)))) not_null"

definition getGrouplist :: "world \<Rightarrow> string list" where
  "getGrouplist w = List.map_filter (getgrgid (accounts w)) (sup_groups (cred w))"

text \<open>The set of names is a \<open>std::set\<close>, so the result is sorted and without duplicates.\<close>

definition getUserGroupList :: "world \<Rightarrow> string \<Rightarrow> string list" where
  "getUserGroupList w username =
     (case getpwnam (accounts w) username of
        None \<Rightarrow> []
      | Some pw \<Rightarrow>
          let primary = (case getgrgid (accounts w) (pw_gid pw) of None \<Rightarrow> [] | Some g \<Rightarrow> [g]);
              gids = getgrouplist (accounts w) username (pw_gid pw)
          in sort (remdups (primary @ List.map_filter (getgrgid (accounts w)) gids)))"

lemma not_null_Done: "not_null x w = (Done a, w') \<longleftrightarrow> x = Some a \<and> w' = w"
  by (auto simp: not_null_def ret_Done split: option.splits)

lemma getUsername_Done: "getUsername w = (Done u, w') \<Longrightarrow> w' = w"
  by (auto simp: getUsername_def Done_iffs not_null_Done)

lemma getUsername_run:
  "getUsername w = (case getpwuid (accounts w) (ruid (cred w)) of None \<Rightarrow> (Exit 134, w) | Some pw \<Rightarrow> (Done (pw_name pw), w))"
  by (simp add: getUsername_def io_defs not_null_def split: option.splits)

lemma getUserGroupList_set:
  "distinct (getUserGroupList w u)" "sorted (getUserGroupList w u)"
  by (auto simp: getUserGroupList_def Let_def split: option.splits)

end
