(* ===== verification/Fsops.thy ===== *)
theory Fsops
  imports User Glob
begin

text \<open>
  The file functions of \<open>src/src/utils.cpp\<close>: reading files (\<open>getFileContents\<close>, \<open>readFileNoFollow\<close>),
  listing directories (\<open>dirEntries\<close>), deleting trees (\<open>rmtree\<close>, \<open>rmtree_below\<close>, \<open>rmtree_fd\<close>), and
  \<open>mv\<close>, with their frame conditions.
\<close>

section \<open>Reading and writing\<close>

text \<open>
  \<open>std::ifstream\<close> follows links; reading a directory fails after a successful open, which the code
  does not notice: the contents are empty.
\<close>

definition getFileContents :: "path \<Rightarrow> string io" where
  "getFileContents file =
     let_io (sys_call Sys_read (comps file)) (\<lambda>e.
       case e of
         Some e \<Rightarrow> throw DatabaseException
       | None \<Rightarrow> let_io (get_io (\<lambda>w. follow 40 (files w) (comps file))) (\<lambda>r.
           case r of
             None \<Rightarrow> throw DatabaseException
           | Some (k, i) \<Rightarrow> (case kind i of Reg s \<Rightarrow> ret s | _ \<Rightarrow> ret [])))"

definition readFileNoFollow :: "path \<Rightarrow> nat \<Rightarrow> string io" where
  "readFileNoFollow file maxSize =
     let_io (sys_call Sys_read (comps file)) (\<lambda>e.
       case e of
         Some e \<Rightarrow> throw DatabaseException
       | None \<Rightarrow> let_io (get_io (\<lambda>w. map_of (files w) (comps file))) (\<lambda>r.
           case r of
             None \<Rightarrow> throw DatabaseException
           | Some i \<Rightarrow>
               (case kind i of
                  Reg s \<Rightarrow>
                    if length s > maxSize then throw DatabaseException
                    else let_io (sys_call Sys_read (comps file)) (\<lambda>e.
                           case e of Some e \<Rightarrow> throw DatabaseException | None \<Rightarrow> ret s)
                | _ \<Rightarrow> throw DatabaseException)))"

text \<open>\<open>std::ofstream\<close>: creates or truncates, following links.\<close>

definition ofstream_rule :: "key \<Rightarrow> string \<Rightarrow> world \<Rightarrow> errno + files" where
  "ofstream_rule k content w =
     (case map_of (files w) k of
        None \<Rightarrow> if k = [] \<or> \<not> dir_at (files w) (butlast k) then Inl ENOENT
               else Inr (fs_put k (new_inode (Reg content) 438 w) (files w))
      | Some _ \<Rightarrow>
          (case follow 40 (files w) k of
             None \<Rightarrow> Inl ENOENT
           | Some (k', i) \<Rightarrow> if is_dir i then Inl EISDIR else Inr (update_inode k' (set_content content) (files w))))"

definition writeFile :: "path \<Rightarrow> string \<Rightarrow> unit io" where
  "writeFile file content =
     let_io (change_files Sys_open (comps file) (ofstream_rule (comps file) content)) (\<lambda>e. ret ())"

text \<open>
  A listed entry that is a link is looked at through the link first (\<open>is_regular_file\<close>), which can
  throw; it is listed whatever it points to.
\<close>

definition entry_listed :: "path \<Rightarrow> bool \<Rightarrow> string \<times> inode \<Rightarrow> bool io" where
  "entry_listed p dirs e =
     (if is_link (snd e) then let_io (fs_is_regular_file (path_append p (fst e))) (\<lambda>r. ret True)
      else ret (is_reg (snd e) \<or> dirs \<and> is_dir (snd e)))"

definition dirEntries :: "path \<Rightarrow> string \<Rightarrow> bool \<Rightarrow> string list io" where
  "dirEntries p pattern dirs =
     let_io (fs_is_directory p) (\<lambda>d.
       if \<not> d then ret []
       else let_io (fs_directory_iterator p) (\<lambda>entries.
         fold_io entries (\<lambda>e fl.
           let_io (entry_listed p dirs e) (\<lambda>b.
             ret (if b \<and> glob_match pattern (fst e) then fl @ [fst e] else fl))) []))"

definition getFileTimeAsLong :: "path \<Rightarrow> int io" where
  "getFileTimeAsLong p = let_io (sys_stat p) (\<lambda>r. ret (case r of Inl e \<Rightarrow> 0 | Inr i \<Rightarrow> mtime i))"

section \<open>Deleting trees\<close>

text \<open>
  \<open>rmtree_fd\<close> works on an open directory; here the directory is named by its path. The comparison of
  the two \<open>stat\<close> results detects a directory swapped between them, which a single run cannot see:
  the branch for a difference is not there. The first argument bounds the depth of the recursion;
  \<open>rmtree_fd_fuel\<close> shows that the bound used by \<open>rmtree\<close> is never reached.
\<close>

text \<open>One entry of the list read from the directory; \<open>rec\<close> deletes the contents of a directory.\<close>

definition rmtree_entry :: "(path \<Rightarrow> nat io) \<Rightarrow> path \<Rightarrow> string \<times> inode \<Rightarrow> nat \<Rightarrow> nat io" where
  "rmtree_entry rec p ent deleted =
     (let name = path_append p (fst ent)
      in if is_dir (snd ent) then
           let_io (sys_lstat name) (\<lambda>st.
             case st of
               Inl e \<Rightarrow> ret deleted
             | Inr i \<Rightarrow>
                 if \<not> is_dir i then ret deleted
                 else let_io (sys_call Sys_read (comps name)) (\<lambda>e.
                   if \<not> ok e then ret deleted
                   else let_io (rec name) (\<lambda>d.
                        let_io (sys_rmdir name) (\<lambda>r. ret (deleted + d)))))
         else
           let_io (sys_unlink name) (\<lambda>r. ret (if ok r then deleted + 1 else deleted)))"

definition rmtree_dir :: "(path \<Rightarrow> nat io) \<Rightarrow> path \<Rightarrow> int \<Rightarrow> nat io" where
  "rmtree_dir rec p deadline =
     let_io (if deadline = 0 then ret False else let_io time_now (\<lambda>t. ret (t \<ge> deadline))) (\<lambda>passed.
       if passed then ret 0
       else let_io (sys_call Sys_readdir (comps p)) (\<lambda>e.
         if \<not> ok e then ret 0
         else let_io (get_io (\<lambda>w. list_dir (files w) (comps p))) (\<lambda>entries.
           fold_io entries (rmtree_entry rec p) 0)))"

fun rmtree_fd :: "nat \<Rightarrow> path \<Rightarrow> int \<Rightarrow> nat io" where
  "rmtree_fd 0 p deadline = ret 0"
| "rmtree_fd (Suc n) p deadline = rmtree_dir (\<lambda>name. rmtree_fd n name deadline) p deadline"

definition tree_depth :: "files \<Rightarrow> nat" where
  "tree_depth fs = foldr (\<lambda>e d. max (length (fst e)) d) fs 0"

definition open_and_delete :: "path \<Rightarrow> int \<Rightarrow> bool \<Rightarrow> nat io" where
  "open_and_delete p deadline itself =
     let_io (sys_lstat p) (\<lambda>st.
       case st of
         Inl e \<Rightarrow> ret 0
       | Inr i \<Rightarrow>
           if \<not> is_dir i then ret 0
           else let_io (sys_call Sys_read (comps p)) (\<lambda>e.
             if \<not> ok e then ret 0
             else let_io (get_io (\<lambda>w. Suc (tree_depth (files w)))) (\<lambda>fuel.
                  let_io (rmtree_fd fuel p deadline) (\<lambda>deleted.
                    if itself then let_io (sys_rmdir p) (\<lambda>r. ret deleted) else ret deleted))))"

definition rmtree :: "path \<Rightarrow> int \<Rightarrow> nat io" where
  "rmtree p deadline = open_and_delete p deadline True"

definition rmtree_below :: "path \<Rightarrow> nat io" where
  "rmtree_below p = open_and_delete p 0 False"

section \<open>mv\<close>

text \<open>
  \<open>/bin/mv\<close> in a child process. Status 0: the source is now at the target, or inside it if the
  target is a directory. Otherwise (also when fork fails or the child dies) a copy may have been
  started: below the target there may be whatever \<open>mv_residue\<close> says, and the source is there still.
\<close>

definition mv_target :: "path \<Rightarrow> path \<Rightarrow> files \<Rightarrow> key" where
  "mv_target source target fs =
     (case follow 40 fs (comps target) of
        Some (k, i) \<Rightarrow> if is_dir i then k @ [last (comps source)] else comps target
      | None \<Rightarrow> comps target)"

definition add_residue :: "key \<Rightarrow> files \<Rightarrow> files \<Rightarrow> files" where
  "add_residue k residue fs = fs @ map (\<lambda>e. (k @ fst e, snd e)) residue"

definition mv :: "path \<Rightarrow> path \<Rightarrow> int io" where
  "mv source target =
     let_io (get_io (\<lambda>w. mv_residue w (steps w))) (\<lambda>residue.
     let_io (sys_call Sys_mv (comps source)) (\<lambda>e w.
       let dst = mv_target source target (files w)
       in if \<not> ok e then (Done 1, w\<lparr>files := add_residue dst residue (files w)\<rparr>)
          else (case rename_rule (comps source) dst (files w) of
                  Inl e \<Rightarrow> (Done 1, w)
                | Inr fs \<Rightarrow> (Done 0, w\<lparr>files := fs\<rparr>))))"

section \<open>Frames of the readers\<close>

context call_relation
begin

lemma reader_calls:
  "good Sys_read (comps f) \<Longrightarrow> keeps R (getFileContents f)"
  "good Sys_read (comps f) \<Longrightarrow> keeps R (readFileNoFollow f n)"
  "good Sys_stat (comps f) \<Longrightarrow> keeps R (getFileTimeAsLong f)"
  "(\<And>k. good Sys_stat k) \<Longrightarrow> good Sys_readdir (comps f) \<Longrightarrow> keeps R (dirEntries f pat dirs)"
  "keeps R getUsername" "keeps R (not_null x)"
  "good Sys_mv (comps a) \<Longrightarrow> keeps R (mv a b)"
proof -
  show n: "keeps R (not_null x)" for x :: "'x option" unfolding not_null_def by (intro rules)
  show "keeps R getUsername" unfolding getUsername_def by (intro rules n)
  show "good Sys_read (comps f) \<Longrightarrow> keeps R (getFileContents f)"
    "good Sys_read (comps f) \<Longrightarrow> keeps R (readFileNoFollow f n)"
    "good Sys_stat (comps f) \<Longrightarrow> keeps R (getFileTimeAsLong f)"
    unfolding getFileContents_def readFileNoFollow_def getFileTimeAsLong_def
    by (intro rules call tree_calls; (assumption | auto intro: pure call rules split: kind.split))+
  show "keeps R (dirEntries f pat dirs)" if "\<And>k. good Sys_stat k" "good Sys_readdir (comps f)"
    unfolding dirEntries_def entry_listed_def by (intro all_calls that)
  have f: "keeps R (\<lambda>w. (Done a, w\<lparr>files := g w\<rparr>))" for a :: int and g
    using set_files [of g] by (simp add: keeps_def put_io_def)
  show "keeps R (mv a b)" if "good Sys_mv (comps a)"
    unfolding mv_def keeps_def
  proof
    fix w
    define w1 where "w1 = snd (sys_call Sys_mv (comps a) w)"
    have 1: "R w w1" using call [OF that] by (simp add: keeps_def w1_def)
    have 2: "R w1 (w1\<lparr>files := g\<rparr>)" for g
      using f [of 0 "\<lambda>u. g"] by (simp add: keeps_def)
    show "R w (snd (let_io (get_io (\<lambda>w. mv_residue w (steps w))) (\<lambda>residue.
     let_io (sys_call Sys_mv (comps a)) (\<lambda>e w.
       let dst = mv_target a b (files w)
       in if \<not> ok e then (Done 1, w\<lparr>files := add_residue dst residue (files w)\<rparr>)
          else (case rename_rule (comps a) dst (files w) of
                  Inl e \<Rightarrow> (Done 1, w)
                | Inr fs \<Rightarrow> (Done 0, w\<lparr>files := fs\<rparr>)))) w))"
      using 1 2 trans [OF 1 2]
      by (auto simp: let_io_def get_io_def sys_call_def w1_def Let_def split: sum.splits)
  qed
qed

end

lemma only_readers:
  "keeps (only A) (getFileContents f)" "keeps (only A) (readFileNoFollow f n)"
  "keeps (only A) (getFileTimeAsLong f)" "keeps (only A) (dirEntries f pat dirs)"
  "keeps (only A) getUsername" "keeps (only A) (not_null x)"
  unfolding getFileContents_def readFileNoFollow_def getFileTimeAsLong_def dirEntries_def entry_listed_def
    getUsername_def not_null_def
  by (intro only_calls; auto intro!: only_calls split: kind.split)+

section \<open>Well-formed trees\<close>

text \<open>
  Every entry has a name the kernel allows and lies in a directory, and no path occurs twice.
\<close>

definition valid_comp :: "string \<Rightarrow> bool" where
  "valid_comp n = (real_comp n \<and> CHR ''/'' \<notin> set n)"

definition tree_ok :: "files \<Rightarrow> bool" where
  "tree_ok fs \<longleftrightarrow> distinct (map fst fs) \<and>
     (\<forall>e \<in> set fs. fst e \<noteq> [] \<and> list_all valid_comp (fst e) \<and> dir_at fs (butlast (fst e)))"

definition names_ok :: "files \<Rightarrow> bool" where
  "names_ok fs = (\<forall>e \<in> set fs. list_all valid_comp (fst e))"

lemma valid_comp_relative: "valid_comp n \<Longrightarrow> \<not> is_absolute n"
  by (cases n) (auto simp: valid_comp_def is_absolute_def)

lemma comps_valid_comp: "valid_comp n \<Longrightarrow> comps (path_append p n) = comps p @ [n]"
  by (simp add: comps_append valid_comp_relative) (simp add: valid_comp_def comps_single)

lemma one_comp_valid: "one_comp n \<Longrightarrow> valid_comp n"
  by (simp add: one_comp_def valid_comp_def real_comp_def)

lemma comps_are_valid: "c \<in> set (comps p) \<Longrightarrow> valid_comp c"
  by (auto simp: comps_def valid_comp_def dest: splitString_no_delim)

lemma list_dir_iff:
  "(n, i) \<in> set (list_dir fs d) \<longleftrightarrow> (d @ [n], i) \<in> set fs"
proof
  assume "(n, i) \<in> set (list_dir fs d)"
  then obtain k where "(k, i) \<in> set fs" "child_of d k" "n = last k"
    by (auto simp: list_dir_def)
  then show "(d @ [n], i) \<in> set fs" by (simp add: child_of_def) (metis append_butlast_last_id)
next
  assume "(d @ [n], i) \<in> set fs"
  then show "(n, i) \<in> set (list_dir fs d)"
    by (force simp: list_dir_def child_of_def)
qed

lemma tree_ok_entry:
  assumes "tree_ok fs" and "(d @ [n], i) \<in> set fs"
  shows "valid_comp n" and "map_of fs (d @ [n]) = Some i" and "dir_at fs d"
  using assms by (force simp: tree_ok_def)+

lemma tree_ok_ancestors:
  assumes "tree_ok fs" and "map_of fs (d @ c # r) \<noteq> None"
  shows "map_of fs (d @ [c]) \<noteq> None"
  using assms(2)
proof (induction r rule: rev_induct)
  case Nil
  then show ?case by simp
next
  case (snoc x r)
  from snoc.prems obtain i where "(d @ c # r @ [x], i) \<in> set fs" by (auto dest: map_of_SomeD)
  with assms(1) have "dir_at fs (butlast (d @ c # r @ [x]))" by (auto simp: tree_ok_def)
  then have "dir_at fs (d @ c # r)" by (simp add: butlast_append flip: append_Cons)
  then show ?case by (intro snoc.IH) (auto simp: dir_at_def split: option.splits)
qed

section \<open>Programs that only remove\<close>

definition removes :: "(key \<Rightarrow> bool) \<Rightarrow> world \<Rightarrow> world \<Rightarrow> bool" where
  "removes A w w' \<longleftrightarrow> (\<exists>D. files w' = filter (\<lambda>e. \<not> D (fst e)) (files w) \<and> (\<forall>k. D k \<longrightarrow> A k))"

interpretation removal: credential_relation "removes A" for A
proof
  show "removes A w w" for w by (auto simp: removes_def intro: exI [of _ "\<lambda>k. False"])
  show "removes A u w" if "removes A u v" "removes A v w" for u v w
  proof -
    from that obtain D E where "files v = filter (\<lambda>e. \<not> D (fst e)) (files u)" "\<forall>k. D k \<longrightarrow> A k"
      "files w = filter (\<lambda>e. \<not> E (fst e)) (files v)" "\<forall>k. E k \<longrightarrow> A k"
      by (auto simp: removes_def)
    then show ?thesis unfolding removes_def
      by (intro exI [of _ "\<lambda>k. D k \<or> E k"]) (auto intro!: filter_cong)
  qed
qed (auto simp: removes_def keeps_def seteuid_def setegid_def setgroups_def cap_set_proc_def set_cred_def Let_def
    intro: exI [of _ "\<lambda>k. False"])

lemma removes_quiet:
  "keeps (removes A) (sys_call op k)" "keeps (removes A) time_now"
  "keeps (removes A) (sys_lstat p)" "keeps (removes A) (sys_stat p)"
proof -
  show c: "keeps (removes A) (sys_call op k)" for op k
    by (auto simp: keeps_def sys_call_def removes_def intro: exI [of _ "\<lambda>k. False"])
  show "keeps (removes A) time_now"
    by (auto simp: keeps_def time_now_def removes_def intro: exI [of _ "\<lambda>k. False"])
  show "keeps (removes A) (sys_lstat p)" "keeps (removes A) (sys_stat p)"
    unfolding sys_lstat_def sys_stat_def by (intro removal.rules c)+
qed

lemma removes_change:
  assumes "\<And>w fs. rule w = Inr fs \<Longrightarrow> fs = fs_del k (files w)" and "A k"
  shows "keeps (removes A) (change_files op k rule)"
  unfolding keeps_def change_files_run
proof
  fix w
  let ?w = "snd (sys_call op k w)"
  have w: "files ?w = files w" by (simp add: sys_call_def)
  have "removes A w ?w" using removes_quiet(1) by (simp add: keeps_def)
  moreover have "removes A w (?w\<lparr>files := fs\<rparr>)" if "rule ?w = Inr fs" for fs
    using assms(1) [OF that] assms(2) w unfolding removes_def fs_del_def
    by (intro exI [of _ "\<lambda>q. q = k"]) simp
  ultimately show "removes A w (snd (case fault w (steps w) op k of
       Some t \<Rightarrow> (Done (Some (Trouble t)), snd (sys_call op k w))
     | None \<Rightarrow> (case rule (snd (sys_call op k w)) of
                 Inl e \<Rightarrow> (Done (Some e), snd (sys_call op k w))
               | Inr fs \<Rightarrow> (Done None, (snd (sys_call op k w))\<lparr>files := fs\<rparr>))))"
    by (auto split: option.splits sum.splits)
qed

lemma removes_unlink: "A (comps p) \<Longrightarrow> keeps (removes A) (sys_unlink p)"
  unfolding sys_unlink_def by (rule removes_change) (auto simp: unlink_rule_def split: option.splits if_splits)

lemma removes_rmdir: "A (comps p) \<Longrightarrow> keeps (removes A) (sys_rmdir p)"
  unfolding sys_rmdir_def by (rule removes_change) (auto simp: rmdir_rule_def split: option.splits if_splits)

text \<open>What \<open>rmtree_fd\<close> may remove: what is below the directory, not the directory itself.\<close>

definition below :: "key \<Rightarrow> key \<Rightarrow> bool" where
  "below d k = strict_prefix d k"

definition removes_in_tree :: "key \<Rightarrow> world \<Rightarrow> world \<Rightarrow> bool" where
  "removes_in_tree d w w' \<longleftrightarrow> (names_ok (files w) \<longrightarrow> removes (below d) w w')"

lemma removes_names: "removes A w w' \<Longrightarrow> names_ok (files w) \<Longrightarrow> names_ok (files w')"
  by (auto simp: removes_def names_ok_def)

interpretation in_tree: step_relation "removes_in_tree d" for d
  by unfold_locales (auto simp: removes_in_tree_def intro: removal.refl removal.trans dest: removes_names)

lemma in_tree_removes: "keeps (removes (below d)) m \<Longrightarrow> keeps (removes_in_tree d) m"
  by (auto simp: keeps_def removes_in_tree_def)

lemma removes_mono: "removes A w w' \<Longrightarrow> (\<And>k. A k \<Longrightarrow> B k) \<Longrightarrow> removes B w w'"
  by (auto simp: removes_def)

lemma below_child: "below (d @ [n]) k \<Longrightarrow> below d k"
  by (auto simp: below_def strict_prefix_def prefix_def)

lemma in_tree_child: "keeps (removes_in_tree (d @ [n])) m \<Longrightarrow> keeps (removes_in_tree d) m"
  by (auto simp: keeps_def removes_in_tree_def intro: removes_mono below_child)

lemma in_tree_get:
  assumes "\<And>w. names_ok (files w) \<Longrightarrow> keeps (removes_in_tree d) (g (f w))"
  shows "keeps (removes_in_tree d) (let_io (get_io f) g)"
  unfolding keeps_def
proof
  fix w
  show "removes_in_tree d w (snd (let_io (get_io f) g w))"
  proof (cases "names_ok (files w)")
    case True
    from assms [OF this] show ?thesis by (simp add: keeps_def let_io_def get_io_def)
  next
    case False
    then show ?thesis by (simp add: removes_in_tree_def)
  qed
qed

lemma list_dir_valid:
  assumes "names_ok fs" and "x \<in> set (list_dir fs d)"
  shows "valid_comp (fst x)"
proof -
  from assms(2) have "(d @ [fst x], snd x) \<in> set fs" by (simp flip: list_dir_iff)
  with assms(1) show ?thesis by (force simp: names_ok_def)
qed

lemma rmtree_fd_frame: "keeps (removes_in_tree (comps p)) (rmtree_fd n p deadline)"
proof (induction n arbitrary: p)
  case 0
  show ?case by (simp add: in_tree.pure)
next
  case (Suc n)
  have ent: "keeps (removes_in_tree (comps p)) (rmtree_entry (\<lambda>name. rmtree_fd n name deadline) p ent deleted)"
    if "valid_comp (fst ent)" for ent deleted
  proof -
    have c: "comps (path_append p (fst ent)) = comps p @ [fst ent]" by (rule comps_valid_comp [OF that])
    then have b: "below (comps p) (comps (path_append p (fst ent)))" by (simp add: below_def strict_prefix_def)
    have r: "keeps (removes_in_tree (comps p)) (rmtree_fd n (path_append p (fst ent)) deadline)"
      using Suc.IH [of "path_append p (fst ent)"] unfolding c by (rule in_tree_child)
    show ?thesis unfolding rmtree_entry_def Let_def
      by (intro in_tree.rules r in_tree_removes removes_quiet removes_unlink removes_rmdir b)
  qed
  show ?case unfolding rmtree_fd.simps rmtree_dir_def
    by (intro in_tree.rules in_tree_get ent in_tree_removes removes_quiet) (auto dest: list_dir_valid)
qed

lemma open_and_delete_frame:
  "keeps (\<lambda>w w'. names_ok (files w) \<longrightarrow> removes (under p) w w') (open_and_delete p deadline itself)"
proof -
  let ?R = "\<lambda>w w'. names_ok (files w) \<longrightarrow> removes (under p) w w'"
  have s: "step_relation ?R"
    by unfold_locales (auto intro: removal.refl removal.trans dest: removes_names)
  have lift: "keeps (removes (under p)) m \<Longrightarrow> keeps ?R m" for m by (auto simp: keeps_def)
  have t: "keeps ?R (rmtree_fd n p deadline)" for n
    using rmtree_fd_frame [of p n deadline]
    by (auto simp: keeps_def removes_in_tree_def under_def below_def elim!: removes_mono)
  have u: "under p (comps p)" by (simp add: under_def)
  note r = step_relation.rules [OF s]
  show ?thesis unfolding open_and_delete_def
    by (intro r lift [OF removes_quiet(3)] lift [OF removes_quiet(1)] t lift [OF removes_rmdir] u)
qed

section \<open>The bound on the depth\<close>

lemma tree_depth_le: "tree_depth fs \<le> d \<longleftrightarrow> (\<forall>e \<in> set fs. length (fst e) \<le> d)"
  by (induction fs) (auto simp: tree_depth_def)

lemma removes_depth: "removes A w w' \<Longrightarrow> tree_depth (files w) \<le> d \<Longrightarrow> tree_depth (files w') \<le> d"
  by (auto simp: removes_def tree_depth_le)

lemma fold_io_cong:
  assumes "\<And>x s w. x \<in> set xs \<Longrightarrow> P w \<Longrightarrow> f x s w = g x s w"
    and "\<And>x s w. x \<in> set xs \<Longrightarrow> P w \<Longrightarrow> P (snd (f x s w))" and "P w"
  shows "fold_io xs f s w = fold_io xs g s w"
  using assms
proof (induction xs arbitrary: s w)
  case Nil
  then show ?case by simp
next
  case (Cons x xs)
  have p: "P (snd (f x s w))" and fg: "f x s w = g x s w" using Cons.prems by simp_all
  have "fold_io xs f s' w' = fold_io xs g s' w'" if "P w'" for s' w'
    by (rule Cons.IH) (use Cons.prems that in auto)
  with p fg show ?case by (cases "g x s w"; cases "fst (g x s w)") (auto simp: let_io_def)
qed

lemma rmtree_entry_cong:
  assumes "\<And>w'. files w' = files w \<Longrightarrow> rec (path_append p (fst ent)) w' = rec' (path_append p (fst ent)) w'"
  shows "rmtree_entry rec p ent d w = rmtree_entry rec' p ent d w"
  using assms by (auto simp: rmtree_entry_def Let_def io_defs sys_lstat_def sys_call_def split: option.splits)

lemma rmtree_dir_cong:
  assumes "\<And>w'. files w' = files w \<Longrightarrow>
      fold_io (list_dir (files w) (comps p)) (rmtree_entry rec p) 0 w' =
      fold_io (list_dir (files w) (comps p)) (rmtree_entry rec' p) 0 w'"
  shows "rmtree_dir rec p deadline w = rmtree_dir rec' p deadline w"
  using assms by (auto simp: rmtree_dir_def io_defs time_now_def sys_call_def)

lemma rmtree_fd_fuel:
  assumes "names_ok (files w)" and "tree_depth (files w) < length (comps p) + n" and "0 < n"
  shows "rmtree_fd n p deadline w = rmtree_fd (Suc n) p deadline w"
  using assms
proof (induction n arbitrary: p w)
  case 0
  then show ?case by simp
next
  case (Suc n)
  let ?D = "tree_depth (files w)"
  let ?P = "\<lambda>w'::world. names_ok (files w') \<and> tree_depth (files w') \<le> ?D"
  let ?f = "\<lambda>n. rmtree_entry (\<lambda>name. rmtree_fd n name deadline) p"
  have loop: "fold_io entries (?f n) s w1 = fold_io entries (?f (Suc n)) s w1"
    if w1: "files w1 = files w" and entries: "entries = list_dir (files w) (comps p)" for entries s w1
  proof (rule fold_io_cong [where P = ?P])
    fix x s and w2 :: world
    assume x: "x \<in> set entries" and w2: "?P w2"
    have v: "valid_comp (fst x)" using list_dir_valid [OF Suc.prems(1)] x entries by blast
    have c: "comps (path_append p (fst x)) = comps p @ [fst x]" by (rule comps_valid_comp [OF v])
    have "(comps p @ [fst x], snd x) \<in> set (files w)" using x entries by (simp flip: list_dir_iff)
    then have "length (comps p) + 1 \<le> ?D" using tree_depth_le [of "files w" ?D] by fastforce
    then have n: "0 < n" using Suc.prems(2) by simp
    show "?f n x s w2 = ?f (Suc n) x s w2"
      by (rule rmtree_entry_cong, rule Suc.IH) (use w2 c n Suc.prems(2) in auto)
    have "keeps (removes_in_tree (comps p)) (?f n x s)"
    proof -
      have b: "below (comps p) (comps (path_append p (fst x)))" by (simp add: below_def strict_prefix_def c)
      have r: "keeps (removes_in_tree (comps p)) (rmtree_fd n (path_append p (fst x)) deadline)"
        using rmtree_fd_frame [of "path_append p (fst x)" n] unfolding c by (rule in_tree_child)
      show ?thesis unfolding rmtree_entry_def Let_def
        by (intro in_tree.rules r in_tree_removes removes_quiet removes_unlink removes_rmdir b)
    qed
    then show "?P (snd (?f n x s w2))" using w2
      by (auto simp: keeps_def removes_in_tree_def dest: removes_names removes_depth)
  qed (use Suc.prems w1 in auto)
  show ?case
    by (subst rmtree_fd.simps, subst rmtree_fd.simps(2) [of "Suc n"]) (rule rmtree_dir_cong, simp add: loop del: rmtree_fd.simps)
qed

section \<open>Deleting everything\<close>

lemma tree_ok_names: "tree_ok fs \<Longrightarrow> names_ok fs"
  by (simp add: tree_ok_def names_ok_def)

lemma map_of_filter_not: "map_of (filter (\<lambda>e. \<not> P (fst e)) fs) k = (if P k then None else map_of fs k)"
  using map_of_filter_key [of "\<lambda>k. \<not> P k" fs k] by simp

lemma tree_ok_remove:
  assumes "tree_ok fs"
  shows "tree_ok (filter (\<lambda>e. \<not> prefix q (fst e)) fs)"
proof -
  have "\<not> prefix q (butlast k)" if "\<not> prefix q k" for k :: key
    using that by (metis prefix_order.trans prefixeq_butlast)
  then have "dir_at (filter (\<lambda>e. \<not> prefix q (fst e)) fs) (butlast k)" if "\<not> prefix q k" "dir_at fs (butlast k)" for k
    using that by (auto simp: dir_at_def map_of_filter_not [where P = "prefix q"])
  with assms show ?thesis by (auto simp: tree_ok_def distinct_map_filter)
qed

lemma no_children:
  assumes "tree_ok fs" and "\<And>k. strict_prefix q k \<Longrightarrow> map_of fs k = None"
  shows "children fs q = []" and "fs_del q fs = filter (\<lambda>e. \<not> prefix q (fst e)) fs"
proof -
  have n: "\<not> strict_prefix q (fst e)" if "e \<in> set fs" for e
    using assms(2) [of "fst e"] that by (auto simp: map_of_eq_None_iff)
  have "child_of q k \<Longrightarrow> strict_prefix q k" for k
    by (cases k rule: rev_cases) (auto simp: child_of_def strict_prefix_def)
  with n show "children fs q = []" by (auto simp: children_def filter_empty_conv)
  from n show "fs_del q fs = filter (\<lambda>e. \<not> prefix q (fst e)) fs"
    unfolding fs_del_def by (auto simp: strict_prefix_def intro!: filter_cong)
qed

lemma change_ok:
  "no_faults w \<Longrightarrow> rule (snd (sys_call op k w)) = Inr fs \<Longrightarrow>
    \<exists>w'. change_files op k rule w = (Done None, w') \<and> files w' = fs \<and> no_faults w'"
  by (simp add: change_files_run no_faults_def) (simp add: sys_call_def)

lemma non_dir_no_children:
  assumes "tree_ok fs" and "map_of fs q = Some i" and "\<not> is_dir i" and "strict_prefix q k"
  shows "map_of fs k = None"
proof (rule ccontr)
  assume a: "map_of fs k \<noteq> None"
  from assms(4) obtain c r where k: "k = q @ c # r" by (rule strict_prefixE')
  with a assms(1) have "map_of fs (q @ [c]) \<noteq> None" by (intro tree_ok_ancestors) auto
  then obtain j where "(q @ [c], j) \<in> set fs" by (auto dest: map_of_SomeD)
  then have "dir_at fs q" by (rule tree_ok_entry [OF assms(1)])
  moreover have "q \<noteq> []" using assms(1,2) by (auto simp: tree_ok_def dest: map_of_SomeD)
  ultimately show False using assms(2,3) by (simp add: dir_at_def)
qed

lemma filter_below: "fs_del q (filter (\<lambda>e. \<not> below q (fst e)) fs) = filter (\<lambda>e. \<not> prefix q (fst e)) fs"
  unfolding fs_del_def below_def by (auto simp: strict_prefix_def intro!: filter_cong)

lemma children_below: "children (filter (\<lambda>e. \<not> below q (fst e)) fs) q = []"
proof -
  have "child_of q k \<Longrightarrow> below q k" for k
    by (cases k rule: rev_cases) (auto simp: child_of_def below_def strict_prefix_def)
  then show ?thesis by (auto simp: children_def filter_empty_conv)
qed

lemma rmdir_empty:
  assumes "no_faults w" and "map_of (files w) (comps p) = Some i" and "is_dir i" and "children (files w) (comps p) = []"
  shows "\<exists>w'. sys_rmdir p w = (Done None, w') \<and> files w' = fs_del (comps p) (files w) \<and> no_faults w'"
  unfolding sys_rmdir_def by (rule change_ok [OF assms(1)]) (use assms in \<open>simp add: rmdir_rule_def sys_call_def\<close>)

lemma unlink_non_dir:
  assumes "no_faults w" and "map_of (files w) (comps p) = Some i" and "\<not> is_dir i"
  shows "\<exists>w'. sys_unlink p w = (Done None, w') \<and> files w' = fs_del (comps p) (files w) \<and> no_faults w'"
  unfolding sys_unlink_def by (rule change_ok [OF assms(1)]) (use assms in \<open>simp add: unlink_rule_def sys_call_def\<close>)

lemma lstat_present:
  "no_faults w \<Longrightarrow> map_of (files w) (comps p) = Some i \<Longrightarrow>
     \<exists>w'. sys_lstat p w = (Done (Inr i), w') \<and> files w' = files w \<and> no_faults w'"
  by (simp add: sys_lstat_def io_defs sys_call_def no_faults_def)

lemma call_succeeds: "no_faults w \<Longrightarrow> \<exists>w'. sys_call op k w = (Done None, w') \<and> files w' = files w \<and> no_faults w'"
  by (simp add: sys_call_def no_faults_def)

lemma rmtree_entry_run:
  assumes w: "no_faults w" "tree_ok (files w)" and i: "map_of (files w) (comps p @ [n]) = Some i" and n: "valid_comp n"
    and rec: "\<And>w1. is_dir i \<Longrightarrow> no_faults w1 \<Longrightarrow> files w1 = files w \<Longrightarrow>
      \<exists>d w2. rec (path_append p n) w1 = (Done d, w2) \<and> no_faults w2 \<and>
        files w2 = filter (\<lambda>e. \<not> below (comps p @ [n]) (fst e)) (files w)"
  shows "\<exists>d' w'. rmtree_entry rec p (n, i) d w = (Done d', w') \<and> no_faults w' \<and>
      files w' = filter (\<lambda>e. \<not> prefix (comps p @ [n]) (fst e)) (files w)"
proof -
  let ?q = "comps p @ [n]" and ?name = "path_append p n"
  have c: "comps ?name = ?q" by (rule comps_valid_comp [OF n])
  show ?thesis
  proof (cases "is_dir i")
    case True
    obtain w1 where w1: "sys_lstat ?name w = (Done (Inr i), w1)" "files w1 = files w" "no_faults w1"
      using lstat_present [OF w(1), of ?name i] i c by auto
    obtain w2 where w2: "sys_call Sys_read ?q w1 = (Done None, w2)" "files w2 = files w" "no_faults w2"
      using call_succeeds [OF w1(3)] w1(2) by metis
    obtain d2 w3 where w3: "rec ?name w2 = (Done d2, w3)" "no_faults w3"
        "files w3 = filter (\<lambda>e. \<not> below ?q (fst e)) (files w)"
      using rec [OF True w2(3,2)] by blast
    have m: "map_of (files w3) (comps ?name) = Some i"
      unfolding w3(3) c map_of_filter_not using i by (simp add: below_def)
    obtain w4 where w4: "sys_rmdir ?name w3 = (Done None, w4)" "no_faults w4"
        "files w4 = filter (\<lambda>e. \<not> prefix ?q (fst e)) (files w)"
      using rmdir_empty [OF w3(2) m True] unfolding c w3(3) children_below filter_below by blast
    show ?thesis
      by (simp add: rmtree_entry_def Let_def True let_io_def w1 c w2 ok_def w3 w4 ret_def)
  next
    case False
    obtain w1 where w1: "sys_unlink ?name w = (Done None, w1)" "files w1 = fs_del ?q (files w)" "no_faults w1"
      using unlink_non_dir [OF w(1), of ?name i] i False c by auto
    have "fs_del ?q (files w) = filter (\<lambda>e. \<not> prefix ?q (fst e)) (files w)"
      by (rule no_children(2) [OF w(2)]) (rule non_dir_no_children [OF w(2) i False])
    with w1 show ?thesis by (simp add: rmtree_entry_def Let_def False let_io_def ret_def)
  qed
qed

text \<open>The loop: after the entries \<open>xs\<close>, their subtrees are gone and nothing else.\<close>

lemma rmtree_loop_run:
  assumes "no_faults w" and "tree_ok (files w)" and "distinct (map fst xs)"
    and "\<And>n i. (n, i) \<in> set xs \<Longrightarrow> map_of (files w) (comps p @ [n]) = Some i \<and> valid_comp n"
    and "\<And>n i w1. (n, i) \<in> set xs \<Longrightarrow> is_dir i \<Longrightarrow> no_faults w1 \<Longrightarrow> tree_ok (files w1) \<Longrightarrow>
      tree_depth (files w1) \<le> tree_depth (files w) \<Longrightarrow> map_of (files w1) (comps p @ [n]) = Some i \<Longrightarrow>
      \<exists>d w2. rec (path_append p n) w1 = (Done d, w2) \<and> no_faults w2 \<and>
        files w2 = filter (\<lambda>e. \<not> below (comps p @ [n]) (fst e)) (files w1)"
  shows "\<exists>d' w'. fold_io xs (rmtree_entry rec p) d w = (Done d', w') \<and> no_faults w' \<and>
      files w' = filter (\<lambda>e. \<not> (\<exists>n \<in> fst ` set xs. prefix (comps p @ [n]) (fst e))) (files w)"
  using assms
proof (induction xs arbitrary: d w)
  case Nil
  then show ?case by (simp add: ret_def)
next
  case (Cons x xs)
  obtain n i where x: "x = (n, i)" by force
  have i: "map_of (files w) (comps p @ [n]) = Some i" and n: "valid_comp n" using Cons.prems(4) x by auto
  obtain d1 w1 where w1: "rmtree_entry rec p x d w = (Done d1, w1)" "no_faults w1"
      "files w1 = filter (\<lambda>e. \<not> prefix (comps p @ [n]) (fst e)) (files w)"
    using rmtree_entry_run [OF Cons.prems(1,2) i n, of rec d] Cons.prems(2,5) i unfolding x
    by (metis le_refl list.set_intros(1))
  have t1: "tree_ok (files w1)" unfolding w1(3) by (rule tree_ok_remove [OF Cons.prems(2)])
  have depth: "tree_depth (files w1) \<le> tree_depth (files w)"
    unfolding tree_depth_le w1(3) using tree_depth_le [of "files w" "tree_depth (files w)"] by simp
  have "\<exists>d' w'. fold_io xs (rmtree_entry rec p) d1 w1 = (Done d', w') \<and> no_faults w' \<and>
      files w' = filter (\<lambda>e. \<not> (\<exists>n \<in> fst ` set xs. prefix (comps p @ [n]) (fst e))) (files w1)"
  proof (rule Cons.IH [OF w1(2) t1])
    show "distinct (map fst xs)" using Cons.prems(3) by simp
    show "map_of (files w1) (comps p @ [m]) = Some j \<and> valid_comp m" if "(m, j) \<in> set xs" for m j
    proof -
      have "m \<noteq> n" using Cons.prems(3) that x by (auto intro: rev_image_eqI)
      then show ?thesis using Cons.prems(4) [of m j] that
        by (simp add: w1(3) map_of_filter_not [where P = "prefix (comps p @ [n])"])
    qed
    show "\<exists>d w2. rec (path_append p m) w2' = (Done d, w2) \<and> no_faults w2 \<and>
        files w2 = filter (\<lambda>e. \<not> below (comps p @ [m]) (fst e)) (files w2')"
      if "(m, j) \<in> set xs" "is_dir j" "no_faults w2'" "tree_ok (files w2')" "tree_depth (files w2') \<le> tree_depth (files w1)"
        "map_of (files w2') (comps p @ [m]) = Some j" for m j w2'
      using that depth by (intro Cons.prems(5)) auto
  qed
  then obtain d' w' where "fold_io xs (rmtree_entry rec p) d1 w1 = (Done d', w')" "no_faults w'"
      "files w' = filter (\<lambda>e. \<not> (\<exists>n \<in> fst ` set xs. prefix (comps p @ [n]) (fst e))) (files w1)" by blast
  then show ?case using w1 unfolding x
    by (auto simp: let_io_def filter_filter intro!: filter_cong)
qed

lemma list_dir_distinct: "tree_ok fs \<Longrightarrow> distinct (map fst (list_dir fs d))"
proof -
  assume t: "tree_ok fs"
  have "inj_on last {k. child_of d k}" by (rule inj_onI) (metis append_butlast_last_id child_of_def mem_Collect_eq)
  moreover have "distinct (map fst (filter (\<lambda>e. child_of d (fst e)) fs))"
    using t by (auto simp: tree_ok_def distinct_map_filter)
  ultimately have "distinct (map last (map fst (filter (\<lambda>e. child_of d (fst e)) fs)))"
    by (subst distinct_map) (auto intro: inj_on_subset)
  then show ?thesis by (simp add: list_dir_def comp_def)
qed

lemma rmtree_fd_run:
  assumes "no_faults w" and "tree_ok (files w)" and "tree_depth (files w) < length (comps p) + n" and "0 < n"
  shows "\<exists>d w'. rmtree_fd n p 0 w = (Done d, w') \<and> no_faults w' \<and>
    files w' = filter (\<lambda>e. \<not> below (comps p) (fst e)) (files w)"
  using assms
proof (induction n arbitrary: p w)
  case 0
  then show ?case by simp
next
  case (Suc n)
  obtain w1 where w1: "sys_call Sys_readdir (comps p) w = (Done None, w1)" "files w1 = files w" "no_faults w1"
    using call_succeeds [OF Suc.prems(1)] by blast
  let ?xs = "list_dir (files w) (comps p)"
  have "\<exists>d' w'. fold_io ?xs (rmtree_entry (\<lambda>name. rmtree_fd n name 0) p) 0 w1 = (Done d', w') \<and> no_faults w' \<and>
      files w' = filter (\<lambda>e. \<not> (\<exists>n \<in> fst ` set ?xs. prefix (comps p @ [n]) (fst e))) (files w1)"
  proof (rule rmtree_loop_run [OF w1(3)])
    show "tree_ok (files w1)" using Suc.prems(2) w1(2) by simp
    show "distinct (map fst ?xs)" by (rule list_dir_distinct [OF Suc.prems(2)])
    show "map_of (files w1) (comps p @ [m]) = Some i \<and> valid_comp m" if "(m, i) \<in> set ?xs" for m i
      using that tree_ok_entry [OF Suc.prems(2)] w1(2) unfolding list_dir_iff by metis
    show "\<exists>d w2. rmtree_fd n (path_append p m) 0 w2' = (Done d, w2) \<and> no_faults w2 \<and>
        files w2 = filter (\<lambda>e. \<not> below (comps p @ [m]) (fst e)) (files w2')"
      if m: "(m, i) \<in> set ?xs" "no_faults w2'" "tree_ok (files w2')" "tree_depth (files w2') \<le> tree_depth (files w1)"
      for m i w2'
    proof -
      have v: "valid_comp m" and e: "(comps p @ [m], i) \<in> set (files w)"
        using m(1) tree_ok_entry [OF Suc.prems(2)] unfolding list_dir_iff by metis+
      have c: "comps (path_append p m) = comps p @ [m]" by (rule comps_valid_comp [OF v])
      have "length (comps p) + 1 \<le> tree_depth (files w)"
        using tree_depth_le [of "files w" "tree_depth (files w)"] e by fastforce
      then have "0 < n" using Suc.prems(3) by simp
      with Suc.IH [OF m(2,3), of "path_append p m"] Suc.prems(3) m(4) w1(2) c show ?thesis by simp
    qed
  qed
  then obtain d' w' where r: "fold_io ?xs (rmtree_entry (\<lambda>name. rmtree_fd n name 0) p) 0 w1 = (Done d', w')" "no_faults w'"
      "files w' = filter (\<lambda>e. \<not> (\<exists>n \<in> fst ` set ?xs. prefix (comps p @ [n]) (fst e))) (files w)"
    unfolding w1(2) by blast
  have "(\<exists>n \<in> fst ` set ?xs. prefix (comps p @ [n]) (fst e)) \<longleftrightarrow> below (comps p) (fst e)" if "e \<in> set (files w)" for e
  proof
    assume "below (comps p) (fst e)"
    then obtain c r where k: "fst e = comps p @ c # r" unfolding below_def by (rule strict_prefixE')
    with that have "comps p @ c # r \<in> fst ` set (files w)" by (metis rev_image_eqI)
    then have "map_of (files w) (comps p @ c # r) \<noteq> None" by (simp add: map_of_eq_None_iff)
    with Suc.prems(2) have "map_of (files w) (comps p @ [c]) \<noteq> None" by (rule tree_ok_ancestors)
    then obtain i where "(comps p @ [c], i) \<in> set (files w)" by (auto dest: map_of_SomeD)
    then have "(c, i) \<in> set ?xs" by (simp add: list_dir_iff)
    with k show "\<exists>n \<in> fst ` set ?xs. prefix (comps p @ [n]) (fst e)" by force
  next
    assume "\<exists>n \<in> fst ` set ?xs. prefix (comps p @ [n]) (fst e)"
    then show "below (comps p) (fst e)" by (auto simp: below_def dest: append_prefixD prefix_order.antisym)
       (metis append_prefixD prefix_order.le_less prefix_snocD prefix_order.less_le_trans)
  qed
  then have "filter (\<lambda>e. \<not> (\<exists>n \<in> fst ` set ?xs. prefix (comps p @ [n]) (fst e))) (files w) =
      filter (\<lambda>e. \<not> below (comps p) (fst e)) (files w)" by (intro filter_cong) auto
  with r w1 show ?case
    by (simp add: rmtree_dir_def let_io_def ret_def ok_def get_io_def)
qed

section \<open>Properties\<close>

lemma open_and_delete_run:
  assumes "no_faults w" and "tree_ok (files w)" and "map_of (files w) (comps p) = Some i" and "is_dir i"
  shows "\<exists>d w'. open_and_delete p 0 itself w = (Done d, w') \<and> no_faults w' \<and>
    files w' = filter (\<lambda>e. \<not> (if itself then under p (fst e) else below (comps p) (fst e))) (files w)"
proof -
  obtain w1 where w1: "sys_lstat p w = (Done (Inr i), w1)" "files w1 = files w" "no_faults w1"
    using lstat_present [OF assms(1,3)] by blast
  obtain w2 where w2: "sys_call Sys_read (comps p) w1 = (Done None, w2)" "files w2 = files w" "no_faults w2"
    using call_succeeds [OF w1(3)] w1(2) by metis
  obtain d w3 where w3: "rmtree_fd (Suc (tree_depth (files w))) p 0 w2 = (Done d, w3)" "no_faults w3"
      "files w3 = filter (\<lambda>e. \<not> below (comps p) (fst e)) (files w)"
    using rmtree_fd_run [OF w2(3), of p "Suc (tree_depth (files w))"] assms(2) unfolding w2(2) by auto
  have m: "map_of (files w3) (comps p) = Some i"
    unfolding w3(3) map_of_filter_not using assms(3) by (simp add: below_def)
  obtain w4 where w4: "sys_rmdir p w3 = (Done None, w4)" "no_faults w4"
      "files w4 = filter (\<lambda>e. \<not> prefix (comps p) (fst e)) (files w)"
    using rmdir_empty [OF w3(2) m assms(4)] unfolding w3(3) children_below filter_below by blast
  show ?thesis
    using w3 w4 by (simp add: open_and_delete_def let_io_def w1 w2 ok_def get_io_def ret_def assms(4) under_def
        del: rmtree_fd.simps)
qed


definition example_inode :: "kind \<Rightarrow> inode" where
  "example_inode k = \<lparr>kind = k, owner = 1000, group_owner = 100, mode = 448, mtime = 0\<rparr>"

definition example_tree :: files where
  "example_tree =
     [([''ws''], example_inode Dir), ([''ws'', ''a''], example_inode Dir), ([''ws'', ''a'', ''f''], example_inode (Reg ''data'')),
      ([''ws'', ''a'', ''l''], example_inode (Link ''/keep'')), ([''keep''], example_inode (Reg ''x''))]"




end
