(* ===== verification/DbEntry.thy ===== *)
theory DbEntry
  imports Fsops Config
begin

text \<open>
  One entry of the workspace database: the class \<open>DBEntryV1\<close> of \<open>src/src/dbv1.h\<close> and the part of
  \<open>src/src/dbv1.cpp\<close> that reads an entry, changes its fields and writes it back. rapidyaml, which the
  build uses for the database, is not part of the repository: parsing, emitting and the conversion
  of numbers are the fields of a parameter of type \<open>ryml\<close>.
\<close>

section \<open>rapidyaml\<close>

text \<open>
  A parsed document as far as the code looks at it: whether the root is a map, and per key the scalar
  of the node (\<open>None\<close>: \<open>has_val()\<close> is false). \<open>parse\<close> gives \<open>None\<close> when an error callback is
  called; \<open>emit\<close> writes a map of scalars in the given order.
\<close>

datatype document = Not_map | Map "(string \<times> string option) list"

record ryml =
  parse :: "string \<Rightarrow> document option"
  emit :: "(string \<times> string) list \<Rightarrow> string"
  from_chars :: "string \<Rightarrow> int option"
  to_chars :: "int \<Rightarrow> string"

text \<open>
  What the library documents: what was emitted with distinct keys is parsed back, where an empty
  scalar may come back as a node without value, and numbers survive the conversion.
\<close>

definition ryml_ok :: "ryml \<Rightarrow> bool" where
  "ryml_ok y \<longleftrightarrow>
     (\<forall>kvs. distinct (map fst kvs) \<longrightarrow>
        (\<exists>m. parse y (emit y kvs) = Some (Map m) \<and>
           (\<forall>k v. map_of kvs k = Some v \<longrightarrow>
              map_of m k = Some (Some v) \<or> v = [] \<and> map_of m k = Some None) \<and>
           (\<forall>k. map_of kvs k = None \<longrightarrow> map_of m k = None))) \<and>
     (\<forall>kvs. kvs \<noteq> [] \<longrightarrow> emit y kvs \<noteq> []) \<and>
     (\<forall>i. from_chars y (to_chars y i) = Some i \<and> to_chars y i \<noteq> [])"

section \<open>Data\<close>

text \<open>The database an entry belongs to: \<open>FilesystemDBV1\<close> with its configuration and filesystem.\<close>

record database_handle =
  db_config :: config
  db_fs :: string

record entry =
  e_parent :: database_handle
  e_dbversion :: int
  e_id :: string
  e_username :: string
  e_filesystem :: string
  e_workspace :: path
  e_creation :: int
  e_expiration :: int
  e_released :: int
  e_expired :: int
  e_reminder :: int
  e_extensions :: int
  e_groupflag :: bool
  e_group :: string
  e_mailaddress :: string
  e_comment :: string
  e_acctcode :: string
  e_dbfilepath :: path

definition checkID :: "string \<Rightarrow> unit io" where
  "checkID i =
     (if i = [] \<or> i = ''.'' \<or> i = ''..'' \<or> CHR ''/'' \<in> set i then throw DatabaseException else ret ())"

text \<open>\<open>getFsConfig\<close> ends the process when the filesystem is not configured.\<close>

definition fs_config_or_exit :: "config \<Rightarrow> string \<Rightarrow> Filesystem_config io" where
  "fs_config_or_exit c fs = (case getFsConfig c fs of None \<Rightarrow> exit_with (- 1) | Some f \<Rightarrow> ret f)"

text \<open>The two constructors. Fields without a value in the code are 0 or empty; all are assigned before use.\<close>

definition blank_entry :: "database_handle \<Rightarrow> entry" where
  "blank_entry db =
     \<lparr>e_parent = db, e_dbversion = 0, e_id = [], e_username = [], e_filesystem = [], e_workspace = [],
      e_creation = 0, e_expiration = 0, e_released = 0, e_expired = 0, e_reminder = 0, e_extensions = 0,
      e_groupflag = False, e_group = [], e_mailaddress = [], e_comment = [], e_acctcode = [],
      e_dbfilepath = []\<rparr>"

definition new_entry ::
  "database_handle \<Rightarrow> string \<Rightarrow> string \<Rightarrow> path \<Rightarrow> int \<Rightarrow> int \<Rightarrow> int \<Rightarrow> int \<Rightarrow> bool \<Rightarrow> string \<Rightarrow> string \<Rightarrow> string \<Rightarrow> entry io" where
  "new_entry db i username workspace creation expiration reminder extensions groupflag grp mailaddress comment =
     seq_io (checkID i)
       (let_io (fs_config_or_exit (db_config db) (db_fs db)) (\<lambda>f.
          ret ((blank_entry db)\<lparr>e_id := i, e_username := username, e_workspace := workspace,
             e_creation := creation, e_expiration := expiration, e_reminder := reminder,
             e_extensions := extensions, e_groupflag := groupflag, e_group := grp,
             e_mailaddress := mailaddress, e_comment := comment,
             e_dbfilepath := fs_database f @ ''/'' @ i, e_released := 0, e_expired := 0, e_acctcode := []\<rparr>)))"

section \<open>Reading\<close>

text \<open>\<open>node.has_val() && node.val() != ""\<close>, else empty; and a number with its default.\<close>

definition node_string :: "(string \<times> string option) list \<Rightarrow> string \<Rightarrow> string" where
  "node_string m key = (case map_of m key of Some (Some v) \<Rightarrow> v | _ \<Rightarrow> [])"

definition node_number :: "ryml \<Rightarrow> (string \<times> string option) list \<Rightarrow> string \<Rightarrow> int io \<Rightarrow> int io" where
  "node_number y m key dflt =
     (case map_of m key of
        Some (Some v) \<Rightarrow> (case from_chars y v of None \<Rightarrow> throw DatabaseException | Some i \<Rightarrow> ret i)
      | _ \<Rightarrow> dflt)"

definition readFromString :: "ryml \<Rightarrow> string \<Rightarrow> entry \<Rightarrow> entry io" where
  "readFromString y str e =
     (case parse y str of
        None \<Rightarrow> throw DatabaseException
      | Some Not_map \<Rightarrow> throw DatabaseException
      | Some (Map m) \<Rightarrow>
          let_io (node_number y m ''dbversion'' (ret 0)) (\<lambda>dbversion.
          let workspace = node_string m ''workspace'';
              username = node_string m ''user'' in
          let_io (node_number y m ''creation'' (getFileTimeAsLong workspace)) (\<lambda>creation.
          let_io (node_number y m ''released'' (ret 0)) (\<lambda>released.
          let_io (node_number y m ''expiration'' (ret 0)) (\<lambda>expiration.
          let_io (node_number y m ''expired'' (ret 0)) (\<lambda>expired.
          let_io (node_number y m ''reminder'' (ret 0)) (\<lambda>reminder.
          let_io (node_number y m ''extensions'' (ret 0)) (\<lambda>extensions.
          ret (e\<lparr>e_dbversion := dbversion, e_workspace := workspace, e_username := username,
                 e_creation := creation, e_released := released, e_expiration := expiration,
                 e_expired := expired, e_reminder := reminder, e_extensions := extensions,
                 e_mailaddress := node_string m ''mailaddress'', e_comment := node_string m ''comment'',
                 e_groupflag := (node_string m ''group'' \<noteq> []), e_group := node_string m ''group'',
                 e_acctcode := node_string m ''acctcode''\<rparr>)))))))))"

text \<open>Every exception of \<open>readFromString\<close> is turned into a \<open>DatabaseException\<close>.\<close>

definition readFromFile :: "ryml \<Rightarrow> string \<Rightarrow> string \<Rightarrow> path \<Rightarrow> entry \<Rightarrow> entry io" where
  "readFromFile y i fs file e =
     (let e = e\<lparr>e_id := i, e_filesystem := fs, e_dbfilepath := file\<rparr>
      in let_io (getFileContents file) (\<lambda>filecontent.
           if filecontent = [] then throw DatabaseException
           else catch_io (readFromString y filecontent e) (\<lambda>x. throw DatabaseException)))"

section \<open>Fields\<close>

definition getRemaining :: "entry \<Rightarrow> int io" where
  "getRemaining e = let_io time_now (\<lambda>t. ret (e_expiration e - t))"

definition entry_getUsername :: "world \<Rightarrow> entry \<Rightarrow> string" where
  "entry_getUsername w e = (if e_username e \<noteq> [] then e_username e else getOwner (user_exists w) (e_id e))"

definition setGroup :: "string \<Rightarrow> entry \<Rightarrow> entry" where
  "setGroup g e = e\<lparr>e_group := g, e_groupflag := (g \<noteq> [])\<rparr>"

definition setExpiration :: "int \<Rightarrow> entry \<Rightarrow> entry" where
  "setExpiration t e = e\<lparr>e_expiration := t\<rparr>"

definition setExpired :: "int \<Rightarrow> entry \<Rightarrow> entry" where
  "setExpired t e = e\<lparr>e_expired := t\<rparr>"

section \<open>Writing\<close>

definition entry_pairs :: "ryml \<Rightarrow> entry \<Rightarrow> (string \<times> string) list" where
  "entry_pairs y e =
     [(''workspace'', e_workspace e)] @
     (if e_username e \<noteq> [] then [(''user'', e_username e)] else []) @
     [(''creation'', to_chars y (e_creation e)), (''expiration'', to_chars y (e_expiration e))] @
     (if e_expired e > 0 then [(''expired'', to_chars y (e_expired e))] else []) @
     [(''extensions'', to_chars y (e_extensions e)), (''acctcode'', e_acctcode e),
      (''reminder'', to_chars y (e_reminder e)), (''mailaddress'', e_mailaddress e)] @
     (if e_groupflag e \<and> e_group e \<noteq> [] then [(''group'', e_group e)] else []) @
     (if e_released e > 0 then [(''released'', to_chars y (e_released e))] else []) @
     [(''comment'', e_comment e)]"

text \<open>
  \<open>writeEntry\<close>: a failing call is reported in the log and not to the caller. The signal handler set
  around it is left out.
\<close>

definition open_and_write :: "path \<Rightarrow> string \<Rightarrow> mode_t \<Rightarrow> bool io" where
  "open_and_write file entrytext perm =
     let_io (sys_open_trunc file perm) (\<lambda>r.
       if \<not> ok r then ret False
       else let_io (sys_write_all file entrytext) (\<lambda>r. ret (ok r)))"

definition chown_entry :: "path \<Rightarrow> bool \<Rightarrow> bool \<Rightarrow> uid \<Rightarrow> gid \<Rightarrow> unit io" where
  "chown_entry file calledasroot writeok duid dgid =
     seqs_io
       [when_io (\<not> calledasroot) (raise_cap [CAP_CHOWN]),
        when_io writeok (let_io (sys_fchown file duid dgid) (\<lambda>r.
          when_io (\<not> ok r) (lower_cap [CAP_CHOWN] duid)))]
       (when_io (\<not> calledasroot) (lower_cap [CAP_CHOWN] duid))"

definition writeEntry :: "ryml \<Rightarrow> bool \<Rightarrow> entry \<Rightarrow> unit io" where
  "writeEntry y calledasroot e =
     (let entrytext = emit y (entry_pairs y e);
          g = global (db_config (e_parent e));
          perm = (if length (e_group e) > 0 then 484 else 420)
      in seqs_io
        [when_io (\<not> calledasroot) (raise_cap [CAP_DAC_OVERRIDE]),
         when_io (\<not> calledasroot) become_db]
        (let_io (open_and_write (e_dbfilepath e) entrytext perm) (\<lambda>writeok.
           seqs_io
             [when_io (\<not> calledasroot) (raise_cap [CAP_FOWNER]),
              when_io writeok (let_io (sys_fchmod (e_dbfilepath e) perm) (\<lambda>r. ret ())),
              when_io (\<not> calledasroot) (lower_cap [CAP_FOWNER, CAP_DAC_OVERRIDE] (dbuid g))]
             (let_io (get_io (\<lambda>w. hascaps (caps w))) (\<lambda>hc.
                when_io hc (chown_entry (e_dbfilepath e) calledasroot writeok (dbuid g) (dbgid g)))))))"

definition useExtension :: "ryml \<Rightarrow> int \<Rightarrow> string \<Rightarrow> int \<Rightarrow> string \<Rightarrow> entry \<Rightarrow> entry io" where
  "useExtension y expiration mailaddress reminder comment e =
     let_io getuid (\<lambda>u.
       let e1 = (if mailaddress \<noteq> [] then e\<lparr>e_mailaddress := mailaddress\<rparr> else e);
           e2 = (if reminder \<noteq> 0 then e1\<lparr>e_reminder := reminder\<rparr> else e1);
           e3 = (if comment \<noteq> [] then e2\<lparr>e_comment := comment\<rparr> else e2);
           e4 = (if u \<noteq> 0 \<and> expiration \<noteq> - 1 \<and> expiration > e_expiration e3
                 then e3\<lparr>e_extensions := e_extensions e3 - 1\<rparr> else e3)
       in if e_extensions e4 < 0 \<and> u \<noteq> 0 then throw DatabaseException
          else (let e5 = (if expiration \<noteq> - 1 then e4\<lparr>e_expiration := expiration\<rparr> else e4)
                in seq_io (writeEntry y False e5) (ret e5)))"

section \<open>Frames\<close>

context call_relation
begin

lemma fs_config_call: "keeps R (fs_config_or_exit c fs)"
  unfolding fs_config_or_exit_def by (intro rules)

lemma write_calls:
  assumes "good Sys_open (comps f)" and "good Sys_write (comps f)" and "good Sys_chown (comps f)"
  shows "keeps R (open_and_write f s m)" "keeps R (chown_entry f b b' u g)"
  unfolding open_and_write_def chown_entry_def
  by (intro all_calls assms; auto intro!: all_calls assms)+

lemma writeEntry_calls:
  assumes "\<And>op. op \<in> {Sys_open, Sys_write, Sys_chmod, Sys_chown} \<Longrightarrow> good op (comps (e_dbfilepath e))"
  shows "keeps R (writeEntry y b e)"
  unfolding writeEntry_def Let_def
  by (intro all_calls write_calls; auto intro!: all_calls assms)

end

lemma only_write_entry:
  assumes "A (comps f)"
  shows "keeps (only A) (open_and_write f s m)" "keeps (only A) (chown_entry f b b' u g)"
  unfolding open_and_write_def chown_entry_def
  by (intro only_calls assms; auto intro!: only_calls assms)+

lemma only_writeEntry: "A (comps (e_dbfilepath e)) \<Longrightarrow> keeps (only A) (writeEntry y b e)"
  unfolding writeEntry_def Let_def
  by (intro only_calls only_write_entry; auto intro!: only_calls)

lemma document_step: "keeps R m \<Longrightarrow> (\<And>x. keeps R (f x)) \<Longrightarrow> keeps R (case d of Not_map \<Rightarrow> m | Map x \<Rightarrow> f x)"
  by (cases d) simp_all

lemma node_number_only: "keeps (only A) d \<Longrightarrow> keeps (only A) (node_number y m k d)"
  unfolding node_number_def by (intro frame.rules)

lemma readFromString_only: "keeps (only A) (readFromString y s e)"
  unfolding readFromString_def Let_def
  by (intro frame.rules document_step node_number_only only_readers)

lemma readFromFile_only: "keeps (only A) (readFromFile y i fs f e)"
  unfolding readFromFile_def Let_def by (intro frame.rules only_readers readFromString_only)

section \<open>Writing an entry\<close>

abbreviation db_caps :: "cap_value_t list" where
  "db_caps \<equiv> [CAP_DAC_OVERRIDE, CAP_FOWNER, CAP_CHOWN]"

definition entry_text :: "ryml \<Rightarrow> entry \<Rightarrow> string" where
  "entry_text y e = emit y (entry_pairs y e)"

lemma open_and_write_returns:
  assumes "ready cs fs w" and "writable fs (comps f)"
    and "\<And>i w'. kind i = Reg s \<Longrightarrow> ready cs (fs_put (comps f) i fs) w' \<Longrightarrow> Q True w'"
  shows "returns (open_and_write f s m) w Q"
  unfolding open_and_write_def
  by (simp add: returns_sequence)
     (rule ready_open_trunc [OF assms(1,2)], simp add: ok_def returns_sequence,
      rule ready_write_all, assumption, assumption, auto intro!: assms(3))

lemma chown_entry_returns:
  assumes "ready db_caps (fs_put (comps f) i fs) w"
    and "\<And>j w'. kind j = kind i \<Longrightarrow> ready db_caps (fs_put (comps f) j fs) w' \<Longrightarrow> Q () w'"
  shows "returns (chown_entry f b True u g) w Q"
  unfolding chown_entry_def seqs_io.simps returns_seq
  apply (rule ready_when(1) [OF assms(1)])
   apply (simp only: returns_when if_True returns_let)
   apply (rule ready_fchmod(2), assumption)
   apply (simp only: returns_when ok_def simp_thms if_False)
   apply (rule ready_when(2) [unfolded returns_when], assumption)
   apply (rule assms(2), assumption+)
  by simp

lemma writeEntry_returns:
  assumes "ready db_caps fs w" and "writable fs (comps (e_dbfilepath e))"
    and "\<And>i w'. kind i = Reg (entry_text y e) \<Longrightarrow> ready db_caps (fs_put (comps (e_dbfilepath e)) i fs) w' \<Longrightarrow> Q () w'"
  shows "returns (writeEntry y b e) w Q"
  unfolding writeEntry_def Let_def seqs_io.simps returns_seq
  apply (rule ready_when(1) [OF assms(1)])
   apply (rule ready_when(3), assumption)
   apply (simp only: returns_let)
   apply (rule open_and_write_returns, assumption, rule assms(2))
   apply (simp only: returns_seq)
   apply (rule ready_when(1), assumption)
    apply (simp only: returns_when if_True returns_let)
    apply (rule ready_fchmod(1), assumption)
    apply (simp only: returns_ret)
    apply (rule ready_when(2) [unfolded returns_when], assumption)
    apply (simp only: returns_get)
    apply (simp add: entry_text_def [symmetric])
    apply (rule conjI; rule impI)
     apply (rule chown_entry_returns, assumption, rule assms(3); simp)
    apply (rule assms(3); simp)
  by simp_all

text \<open>Who writes: the database owner opens and writes the file, root only changes its mode.\<close>

definition entry_calls :: "uid \<Rightarrow> path \<Rightarrow> event \<Rightarrow> bool" where
  "entry_calls d f ev \<longleftrightarrow> ev \<in> {(d, Sys_open, comps f), (d, Sys_write, comps f), (0, Sys_chmod, comps f)}"

lemma open_and_write_trail:
  assumes "trail P w0 w" and "P (euid (cred w), Sys_open, comps f)" and "P (euid (cred w), Sys_write, comps f)"
    and "\<And>r w'. trail P w0 w' \<Longrightarrow> euid (cred w') = euid (cred w) \<Longrightarrow> Q r w'"
  shows "returns (open_and_write f s m) w Q"
  unfolding open_and_write_def returns_let
proof (rule trail_ops(1) [OF assms(1)])
  fix r w' assume t: "trail P w0 w'" and e: "euid (cred w') = euid (cred w)"
  show "returns (if \<not> ok r then ret False else let_io (sys_write_all f s) (\<lambda>r. ret (ok r))) w' Q"
    unfolding returns_sequence
    using t e assms(3) by (auto intro!: assms(4) trail_ops(5) [OF t])
qed (rule assms(2))

lemma writeEntry_trail:
  assumes t: "trail P w0 w" and P: "\<And>ev. entry_calls (db_uid (caps w0)) (e_dbfilepath e) ev \<Longrightarrow> P ev"
    and Q: "\<And>w'. trail P w0 w' \<Longrightarrow> euid (cred w') = db_uid (caps w0) \<Longrightarrow> Q () w'"
  shows "returns (writeEntry y False e) w Q"
proof -
  note p = P [unfolded entry_calls_def]
  have h: "\<not> hascaps (caps w')" if "trail P w0 w'" for w'
    using that unfolding trail_def setuid_ready_def setuid_mode_def by blast
  show ?thesis
    unfolding writeEntry_def Let_def seqs_io.simps returns_seq returns_when simp_thms if_True
    apply (rule trail_caps(1) [OF t])
    apply (rule trail_caps(2), assumption)
    apply (simp only: returns_let)
    apply (rule open_and_write_trail, assumption)
      apply (simp add: p)
     apply (simp add: p)
    apply (simp only: returns_seq returns_when simp_thms if_True)
    apply (rule trail_caps(1), assumption)
    subgoal premises ps for w1 w2 r w3 w4
    proof -
      have last: "returns (lower_cap [CAP_FOWNER, CAP_DAC_OVERRIDE] (dbuid (global (db_config (e_parent e))))) w5
          (\<lambda>a w'. returns (get_io (\<lambda>w. hascaps (caps w))) w' (\<lambda>a w'. returns (when_io a (chown_entry (e_dbfilepath e) False r
             (dbuid (global (db_config (e_parent e)))) (dbgid (global (db_config (e_parent e)))))) w' Q))"
        if "trail P w0 w5" for w5
        by (rule trail_caps(3) [OF that]) (simp add: returns_get returns_when h Q)
      show ?thesis
      proof (cases r)
        case True
        have "returns (sys_fchmod (e_dbfilepath e) (if 0 < length (e_group e) then 484 else 420)) w4
           (\<lambda>a w'. returns (lower_cap [CAP_FOWNER, CAP_DAC_OVERRIDE] (dbuid (global (db_config (e_parent e))))) w'
          (\<lambda>a w'. returns (get_io (\<lambda>w. hascaps (caps w))) w' (\<lambda>a w'. returns (when_io a (chown_entry (e_dbfilepath e) False r
             (dbuid (global (db_config (e_parent e)))) (dbgid (global (db_config (e_parent e)))))) w' Q)))"
          by (rule trail_ops(2) [OF ps(7)]) (simp_all add: last ps(8) p)
        with True show ?thesis by (simp only: returns_let returns_ret if_True returns_when)
      next
        case False
        with last [OF ps(7)] show ?thesis by (simp only: if_False returns_let returns_when)
      qed
    qed
    done
qed

section \<open>What is stored\<close>

text \<open>The fields that reach the file, as a later reader gets them.\<close>

definition stored :: "entry \<Rightarrow> entry \<Rightarrow> entry" where
  "stored e e0 = e0\<lparr>e_dbversion := 0, e_workspace := e_workspace e, e_username := e_username e,
     e_creation := e_creation e, e_released := max 0 (e_released e), e_expiration := e_expiration e,
     e_expired := max 0 (e_expired e), e_reminder := e_reminder e, e_extensions := e_extensions e,
     e_mailaddress := e_mailaddress e, e_comment := e_comment e,
     e_groupflag := ((if e_groupflag e then e_group e else []) \<noteq> []),
     e_group := (if e_groupflag e then e_group e else []), e_acctcode := e_acctcode e\<rparr>"

lemma let_ret: "let_io (ret a) f = f a"
  by (simp add: fun_eq_iff let_io_def ret_def)

lemma entry_pairs_lookup:
  "map_of (entry_pairs y e) ''dbversion'' = None"
  "map_of (entry_pairs y e) ''workspace'' = Some (e_workspace e)"
  "map_of (entry_pairs y e) ''user'' = (if e_username e \<noteq> [] then Some (e_username e) else None)"
  "map_of (entry_pairs y e) ''creation'' = Some (to_chars y (e_creation e))"
  "map_of (entry_pairs y e) ''expiration'' = Some (to_chars y (e_expiration e))"
  "map_of (entry_pairs y e) ''expired'' = (if e_expired e > 0 then Some (to_chars y (e_expired e)) else None)"
  "map_of (entry_pairs y e) ''released'' = (if e_released e > 0 then Some (to_chars y (e_released e)) else None)"
  "map_of (entry_pairs y e) ''reminder'' = Some (to_chars y (e_reminder e))"
  "map_of (entry_pairs y e) ''extensions'' = Some (to_chars y (e_extensions e))"
  "map_of (entry_pairs y e) ''mailaddress'' = Some (e_mailaddress e)"
  "map_of (entry_pairs y e) ''comment'' = Some (e_comment e)"
  "map_of (entry_pairs y e) ''acctcode'' = Some (e_acctcode e)"
  "map_of (entry_pairs y e) ''group'' = (if e_groupflag e \<and> e_group e \<noteq> [] then Some (e_group e) else None)"
  by (simp_all add: entry_pairs_def)

lemma entry_pairs_distinct: "distinct (map fst (entry_pairs y e))"
  by (cases "e_username e \<noteq> []"; cases "e_expired e > 0"; cases "e_groupflag e"; cases "e_group e = []";
      cases "e_released e > 0")
     (simp_all add: entry_pairs_def)

lemma readFromString_stored:
  assumes "ryml_ok y"
  shows "readFromString y (entry_text y e) e0 w = (Done (stored e e0), w)"
proof -
  obtain m where m: "parse y (emit y (entry_pairs y e)) = Some (Map m)"
    and some: "\<And>k v. map_of (entry_pairs y e) k = Some v \<Longrightarrow> map_of m k = Some (Some v) \<or> v = [] \<and> map_of m k = Some None"
    and none: "\<And>k. map_of (entry_pairs y e) k = None \<Longrightarrow> map_of m k = None"
    using assms entry_pairs_distinct [of y e] unfolding ryml_ok_def by metis
  have num: "from_chars y (to_chars y i) = Some i" "to_chars y i \<noteq> []" for i
    using assms by (simp_all add: ryml_ok_def)
  have str: "node_string m k = v" if "map_of (entry_pairs y e) k = Some v" for k v
    using some [OF that] by (auto simp: node_string_def)
  have str0: "node_string m k = []" if "map_of (entry_pairs y e) k = None" for k
    using none [OF that] by (simp add: node_string_def)
  have int: "node_number y m k d = ret i" if "map_of (entry_pairs y e) k = Some (to_chars y i)" for k d i
    using some [OF that] num by (auto simp: node_number_def)
  have int0: "node_number y m k d = d" if "map_of (entry_pairs y e) k = None" for k d
    using none [OF that] by (simp add: node_number_def)
  note l = entry_pairs_lookup [of y e]
  have u: "node_string m ''user'' = e_username e"
    using str [of "''user''"] str0 [of "''user''"] l(3) by (cases "e_username e = []") simp_all
  have g: "node_string m ''group'' = (if e_groupflag e then e_group e else [])"
    using str [of "''group''"] str0 [of "''group''"] l(13) by (cases "e_groupflag e \<and> e_group e \<noteq> []") auto
  have x: "node_number y m ''expired'' (ret 0) = ret (max 0 (e_expired e))"
    using int [of "''expired''"] int0 [of "''expired''"] l(6) by (cases "e_expired e > 0") simp_all
  have r: "node_number y m ''released'' (ret 0) = ret (max 0 (e_released e))"
    using int [of "''released''"] int0 [of "''released''"] l(7) by (cases "e_released e > 0") simp_all
  have "readFromString y (entry_text y e) e0 = ret (stored e e0)"
    by (simp add: readFromString_def entry_text_def m Let_def let_ret int0 [OF l(1)] str [OF l(2)]
        int [OF l(4)] int [OF l(5)] int [OF l(8)] int [OF l(9)] str [OF l(10)] str [OF l(11)] str [OF l(12)] u g x r stored_def)
  then show ?thesis by (simp add: ret_def)
qed

section \<open>A library that keeps the contract\<close>

text \<open>An encoding that satisfies \<open>ryml_ok\<close>: each string escaped character by character and closed by a dot.\<close>

definition enc_string :: "string \<Rightarrow> string" where
  "enc_string s = concat (map (\<lambda>c. [CHR ''x'', c]) s) @ ''.''"

fun dec_string :: "string \<Rightarrow> (string \<times> string) option" where
  "dec_string [] = None"
| "dec_string [a] = (if a = CHR ''.'' then Some ([], []) else None)"
| "dec_string (a # c # r) =
     (if a = CHR ''.'' then Some ([], c # r)
      else case dec_string r of None \<Rightarrow> None | Some (s, t) \<Rightarrow> Some (c # s, t))"

fun dec_pairs :: "nat \<Rightarrow> string \<Rightarrow> (string \<times> string option) list option" where
  "dec_pairs 0 s = (if s = [] then Some [] else None)"
| "dec_pairs (Suc n) s =
     (if s = [] then Some []
      else case dec_string s of None \<Rightarrow> None
       | Some (k, r) \<Rightarrow> (case dec_string r of None \<Rightarrow> None
       | Some (v, r') \<Rightarrow> (case dec_pairs n r' of None \<Rightarrow> None | Some m \<Rightarrow> Some ((k, Some v) # m))))"

definition enc_pairs :: "(string \<times> string) list \<Rightarrow> string" where
  "enc_pairs kvs = concat (map (\<lambda>kv. enc_string (fst kv) @ enc_string (snd kv)) kvs)"

definition int_of_string :: "string \<Rightarrow> int option" where
  "int_of_string s = (case s of [] \<Rightarrow> None | c # t \<Rightarrow>
     Some (if c = CHR ''-'' then - int (digits_value t) else int (digits_value s)))"

definition simple_ryml :: ryml where
  "simple_ryml = \<lparr>parse = (\<lambda>s. map_option Map (dec_pairs (length s) s)), emit = enc_pairs,
     from_chars = int_of_string, to_chars = show_int\<rparr>"

lemma dec_enc_string: "dec_string (enc_string s @ r) = Some (s, r)"
proof (induction s)
  case Nil
  show ?case by (cases r) (simp_all add: enc_string_def)
next
  case (Cons c s)
  then show ?case by (simp add: enc_string_def)
qed

lemma enc_string_length: "1 \<le> length (enc_string s)"
  by (simp add: enc_string_def)

lemma dec_enc_pairs: "length kvs \<le> n \<Longrightarrow> dec_pairs n (enc_pairs kvs) = Some (map (\<lambda>kv. (fst kv, Some (snd kv))) kvs)"
proof (induction n arbitrary: kvs)
  case 0
  then show ?case by (simp add: enc_pairs_def)
next
  case (Suc n)
  show ?case
  proof (cases kvs)
    case Nil
    then show ?thesis by (simp add: enc_pairs_def)
  next
    case (Cons kv kvs')
    have e: "enc_pairs kvs = enc_string (fst kv) @ enc_string (snd kv) @ enc_pairs kvs'" by (simp add: Cons enc_pairs_def)
    have "enc_string (fst kv) \<noteq> []" by (simp add: enc_string_def)
    then have "dec_pairs (Suc n) (enc_pairs kvs) =
        (case dec_pairs n (enc_pairs kvs') of None \<Rightarrow> None | Some m \<Rightarrow> Some ((fst kv, Some (snd kv)) # m))"
      unfolding e by (simp add: dec_enc_string)
    with Suc Cons show ?thesis by simp
  qed
qed

lemma enc_pairs_length: "length kvs \<le> length (enc_pairs kvs)"
proof (induction kvs)
  case Nil
  then show ?case by simp
next
  case (Cons kv kvs)
  then show ?case using enc_string_length [of "fst kv"] by (simp add: enc_pairs_def)
qed

lemma int_of_show: "int_of_string (show_int i) = Some i"
proof (cases "i < 0")
  case True
  then show ?thesis by (simp add: int_of_string_def show_int_def num_simps)
next
  case False
  obtain a t where n: "show_nat (nat i) = a # t" using show_nat_not_Nil by (metis list.exhaust)
  with show_nat_no_dash [of "nat i"] have "a \<noteq> CHR ''-''" by auto
  moreover have "digits_value (a # t) = nat i" unfolding n [symmetric] by (rule digits_value_show_nat)
  ultimately show ?thesis using False n by (simp add: int_of_string_def show_int_def)
qed

lemma map_of_Some_values: "map_of (map (\<lambda>kv. (fst kv, Some (snd kv))) kvs) k = map_option Some (map_of kvs k)"
  by (induction kvs) auto

lemma simple_ryml_ok: "ryml_ok simple_ryml"
proof -
  have "parse simple_ryml (emit simple_ryml kvs) = Some (Map (map (\<lambda>kv. (fst kv, Some (snd kv))) kvs))" for kvs
    using dec_enc_pairs [OF enc_pairs_length] by (simp add: simple_ryml_def)
  moreover have "kvs \<noteq> [] \<Longrightarrow> emit simple_ryml kvs \<noteq> []" for kvs
    using enc_pairs_length [of kvs] by (auto simp: simple_ryml_def)
  moreover have "from_chars simple_ryml (to_chars simple_ryml i) = Some i" "to_chars simple_ryml i \<noteq> []" for i
    by (simp_all add: simple_ryml_def int_of_show)
  ultimately show ?thesis by (simp add: ryml_ok_def map_of_Some_values)
qed

section \<open>Properties\<close>

lemma entry_text_not_Nil: "ryml_ok y \<Longrightarrow> entry_text y e \<noteq> []"
  by (auto simp: ryml_ok_def entry_text_def) (auto simp: entry_pairs_def)

lemma read_back:
  assumes "ryml_ok y" and "no_faults w" and "map_of (files w) (comps f) = Some i" and "kind i = Reg (entry_text y e)"
  shows "\<exists>w'. readFromFile y n fs f e0 w = (Done (stored e (e0\<lparr>e_id := n, e_filesystem := fs, e_dbfilepath := f\<rparr>)), w') \<and>
    files w' = files w \<and> no_faults w'"
proof -
  have "follow 40 (files w) (comps f) = Some (comps f, i)"
    using assms(3,4) by (simp add: eval_nat_numeral)
  then obtain w' where g: "getFileContents f w = (Done (entry_text y e), w')" "files w' = files w" "no_faults w'"
    using assms(2,4) by (simp add: getFileContents_def io_defs sys_call_def no_faults_def)
  show ?thesis
    by (simp add: readFromFile_def Let_def let_io_def g entry_text_not_Nil [OF assms(1)] catch_io_def
        readFromString_stored [OF assms(1)])
qed

text \<open>C31. What is written is what is read: with a YAML library that keeps its contract and no failing
  call, \<open>writeEntry\<close> returns, touches only the file of the entry, and a later \<open>readFromFile\<close> gives back
  every field: owner, path, all times, extensions, group, mail address, comment and account. (Times of
  release and expiry that are not positive come back as 0, a group without the group flag as no group.)\<close>

theorem entry_file_round_trip:
  assumes "ryml_ok y" and "can_act [CAP_DAC_OVERRIDE, CAP_FOWNER, CAP_CHOWN] w" and "no_faults w"
    and "writable (files w) (comps (e_dbfilepath e))"
  shows "\<exists>w1 w2. writeEntry y b e w = (Done (), w1) \<and>
    (\<forall>k. k \<noteq> comps (e_dbfilepath e) \<longrightarrow> map_of (files w1) k = map_of (files w) k) \<and>
    readFromFile y (e_id e) (e_filesystem e) (e_dbfilepath e) (blank_entry (e_parent e)) w1 =
      (Done (stored e ((blank_entry (e_parent e))\<lparr>e_id := e_id e, e_filesystem := e_filesystem e,
                        e_dbfilepath := e_dbfilepath e\<rparr>)), w2)"
proof -
  let ?k = "comps (e_dbfilepath e)"
  have r: "ready db_caps (files w) w" using assms(2,3) by (simp add: ready_def)
  have "returns (writeEntry y b e) w (\<lambda>_ w1. \<exists>i. kind i = Reg (entry_text y e) \<and> ready db_caps (fs_put ?k i (files w)) w1)"
    by (rule writeEntry_returns [OF r assms(4)]) auto
  then obtain w1 i where w1: "writeEntry y b e w = (Done (), w1)" "kind i = Reg (entry_text y e)"
      "ready db_caps (fs_put ?k i (files w)) w1" by (auto simp: returns_def)
  have "map_of (files w1) ?k = Some i" "no_faults w1" using w1(3) by (simp_all add: ready_def map_of_put)
  from read_back [OF assms(1) this(2,1) w1(2)] obtain w2 where
    "readFromFile y (e_id e) (e_filesystem e) (e_dbfilepath e) (blank_entry (e_parent e)) w1 =
      (Done (stored e ((blank_entry (e_parent e))\<lparr>e_id := e_id e, e_filesystem := e_filesystem e,
                        e_dbfilepath := e_dbfilepath e\<rparr>)), w2)" by blast
  moreover have "\<forall>k. k \<noteq> ?k \<longrightarrow> map_of (files w1) k = map_of (files w) k"
    using w1(3) by (simp add: ready_def map_of_put)
  ultimately show ?thesis using w1(1) by blast
qed

definition example_entry :: entry where
  "example_entry = (blank_entry \<lparr>db_config = example_config [] [], db_fs = ''ws''\<rparr>)\<lparr>e_id := ''alice-run1'',
     e_username := ''alice'', e_filesystem := ''ws'', e_workspace := ''/ws/alice-run1'', e_creation := 1600000000,
     e_expiration := 1600086400, e_extensions := 3, e_mailaddress := ''alice@localhost'', e_dbfilepath := ''/db/alice-run1''\<rparr>"

definition example_files :: files where
  "example_files =
     [([''ws''], example_inode Dir), ([''ws'', ''.removed''], example_inode Dir),
      ([''ws'', ''alice-run1''], example_inode Dir), ([''ws'', ''alice-run1'', ''data''], example_inode (Reg ''results'')),
      ([''db''], example_inode Dir), ([''db'', ''.removed''], example_inode Dir),
      ([''db'', ''alice-run1''], example_inode (Reg ''workspace: /ws/alice-run1''))]"

lemma example_can_act:
  "can_act cs (example_world fs)" "can_act cs (setuid_world fs)" "no_faults (example_world fs)" "no_faults (setuid_world fs)"
  "setuid_ready (setuid_world fs)"
  by (simp_all add: can_act_def user_mode_def example_world_def user_caps_def setuid_caps_def setuid_world_def setuid_ready_def
      setuid_mode_def setuid_cred_def no_faults_def)

lemma example_files_simps: "files (example_world fs) = fs" "files (setuid_world fs) = fs"
  by (simp_all add: example_world_def setuid_world_def)

lemma entry_file_round_trip_witness:
  "\<exists>w1 w2. writeEntry simple_ryml False example_entry (setuid_world example_files) = (Done (), w1) \<and>
    readFromFile simple_ryml ''alice-run1'' ''ws'' ''/db/alice-run1'' (blank_entry (e_parent example_entry)) w1 =
      (Done (stored example_entry ((blank_entry (e_parent example_entry))\<lparr>e_id := ''alice-run1'', e_filesystem := ''ws'',
                        e_dbfilepath := ''/db/alice-run1''\<rparr>)), w2)"
proof -
  have "writable example_files (comps (e_dbfilepath example_entry))" by code_simp
  then have w: "writable (files (setuid_world example_files)) (comps (e_dbfilepath example_entry))"
    by (simp add: example_files_simps)
  from entry_file_round_trip [OF simple_ryml_ok example_can_act(2,4) w, of False] show ?thesis
    by (auto simp: example_entry_def)
qed

text \<open>C32. In a setuid tool the database is only written as its owner: whichever calls fail, \<open>writeEntry\<close>
  returns, leaves the process with the identity of the database owner, and the only calls it made are
  opening and writing the file of the entry as that owner and changing its mode as root.\<close>

theorem writeEntry_identity:
  assumes "setuid_ready w"
  shows "\<exists>w'. writeEntry y False e w = (Done (), w') \<and> setuid_ready w' \<and> euid (cred w') = db_uid (caps w) \<and>
    calls (\<lambda>ev. ev \<in> {(db_uid (caps w), Sys_open, comps (e_dbfilepath e)), (db_uid (caps w), Sys_write, comps (e_dbfilepath e)),
                     (0, Sys_chmod, comps (e_dbfilepath e))}) w w'"
proof -
  let ?P = "\<lambda>ev. ev \<in> {(db_uid (caps w), Sys_open, comps (e_dbfilepath e)), (db_uid (caps w), Sys_write, comps (e_dbfilepath e)),
                     (0, Sys_chmod, comps (e_dbfilepath e))}"
  have "returns (writeEntry y False e) w (\<lambda>_ w'. trail ?P w w' \<and> euid (cred w') = db_uid (caps w))"
    by (rule writeEntry_trail [OF trail_start [OF assms]]) (auto simp: entry_calls_def)
  then show ?thesis by (auto simp: returns_def trail_def)
qed

lemma writeEntry_identity_witness:
  "\<exists>w'. writeEntry simple_ryml False example_entry (setuid_world example_files) = (Done (), w') \<and> setuid_ready w' \<and>
     euid (cred w') = 77"
proof -
  have "db_uid (caps (setuid_world example_files)) = 77" by (simp add: setuid_world_def setuid_caps_def)
  with writeEntry_identity [OF example_can_act(5), of simple_ryml example_entry example_files] show ?thesis by auto
qed

lemma useExtension_run:
  assumes "ruid (cred w) \<noteq> 0"
  shows "\<exists>e5. e_dbfilepath e5 = e_dbfilepath e \<and>
    e_extensions e5 = e_extensions e - (if expiration \<noteq> - 1 \<and> expiration > e_expiration e then 1 else 0) \<and>
    e_expiration e5 = (if expiration = - 1 then e_expiration e else expiration) \<and>
    useExtension y expiration mailaddress reminder comment e w =
       (if e_extensions e - (if expiration \<noteq> - 1 \<and> expiration > e_expiration e then 1 else 0) < 0
        then (Throw DatabaseException, w) else seq_io (writeEntry y False e5) (ret e5) w)"
proof -
  define e3 where "e3 = (let e1 = (if mailaddress \<noteq> [] then e\<lparr>e_mailaddress := mailaddress\<rparr> else e);
      e2 = (if reminder \<noteq> 0 then e1\<lparr>e_reminder := reminder\<rparr> else e1)
    in if comment \<noteq> [] then e2\<lparr>e_comment := comment\<rparr> else e2)"
  have e3: "e_dbfilepath e3 = e_dbfilepath e" "e_extensions e3 = e_extensions e" "e_expiration e3 = e_expiration e"
    by (simp_all add: e3_def Let_def)
  have "useExtension y expiration mailaddress reminder comment e w =
     (let e4 = (if expiration \<noteq> - 1 \<and> expiration > e_expiration e3 then e3\<lparr>e_extensions := e_extensions e3 - 1\<rparr> else e3)
      in if e_extensions e4 < 0 then (Throw DatabaseException, w)
         else (let e5 = (if expiration \<noteq> - 1 then e4\<lparr>e_expiration := expiration\<rparr> else e4)
               in seq_io (writeEntry y False e5) (ret e5) w))"
    using assms by (simp add: useExtension_def e3_def getuid_def let_io_def get_io_def throw_def Let_def del: if_split_asm cong: if_cong)
  moreover define e4 where "e4 = (if expiration \<noteq> - 1 \<and> expiration > e_expiration e3
      then e3\<lparr>e_extensions := e_extensions e3 - 1\<rparr> else e3)"
  moreover define e5 where "e5 = (if expiration \<noteq> - 1 then e4\<lparr>e_expiration := expiration\<rparr> else e4)"
  ultimately have run: "useExtension y expiration mailaddress reminder comment e w =
     (if e_extensions e4 < 0 then (Throw DatabaseException, w) else seq_io (writeEntry y False e5) (ret e5) w)"
    by (simp add: Let_def)
  show ?thesis
    unfolding run by (rule exI [of _ e5]) (simp add: e5_def e4_def e3)
qed

text \<open>Extensions are a budget: for a caller who is not root, asking for a later expiration costs
  exactly one extension and any other change costs none; when the budget would become negative the
  request is refused before anything is written, so the whole world is as before.\<close>

theorem useExtension_budget:
  assumes "ruid (cred w) \<noteq> 0"
  shows "let cost = (if expiration \<noteq> - 1 \<and> expiration > e_expiration e then 1 else 0)
    in if e_extensions e - cost < 0
       then useExtension y expiration mailaddress reminder comment e w = (Throw DatabaseException, w)
       else case useExtension y expiration mailaddress reminder comment e w of
              (Done e', w') \<Rightarrow> e_extensions e' = e_extensions e - cost \<and>
                 e_expiration e' = (if expiration = - 1 then e_expiration e else expiration) \<and>
                 (\<forall>k. k \<noteq> comps (e_dbfilepath e) \<longrightarrow> map_of (files w') k = map_of (files w) k)
            | _ \<Rightarrow> True"
proof -
  define cost :: int where "cost = (if expiration \<noteq> - 1 \<and> expiration > e_expiration e then 1 else 0)"
  obtain e5 where e5: "e_dbfilepath e5 = e_dbfilepath e" "e_extensions e5 = e_extensions e - cost"
      "e_expiration e5 = (if expiration = - 1 then e_expiration e else expiration)"
    and run: "useExtension y expiration mailaddress reminder comment e w =
       (if e_extensions e - cost < 0 then (Throw DatabaseException, w) else seq_io (writeEntry y False e5) (ret e5) w)"
    using useExtension_run [OF assms] unfolding cost_def by metis
  have "map_of (files w') k = map_of (files w) k" if "writeEntry y False e5 w = (r, w')" "k \<noteq> comps (e_dbfilepath e)" for r w' k
    using keepsD [OF only_writeEntry [of "\<lambda>k. k = comps (e_dbfilepath e)"] that(1)] e5(1) that(2) by (simp add: only_def)
  then show ?thesis
    unfolding cost_def [symmetric] Let_def run
    using e5 by (auto simp: seq_io_def let_io_def ret_def split: prod.splits outcome.splits)
qed

lemma useExtension_budget_witness:
  "useExtension simple_ryml 1700000000 [] 0 [] (example_entry\<lparr>e_extensions := 0\<rparr>) (example_world example_files) =
     (Throw DatabaseException, example_world example_files)"
proof -
  have "ruid (cred (example_world example_files)) \<noteq> 0" by (simp add: example_world_def user_cred_def)
  from useExtension_budget [OF this, of 1700000000 "example_entry\<lparr>e_extensions := 0\<rparr>" simple_ryml "[]" 0 "[]"]
  show ?thesis by (simp add: Let_def example_entry_def)
qed

end
