(* ===== verification/DbV1.thy ===== *)
theory DbV1
  imports DbEntry
begin

text \<open>
  The rest of \<open>src/src/dbv1.cpp\<close>: the operations of \<open>FilesystemDBV1\<close> (workspace directories, pattern
  search, reading and deleting entries) and those of \<open>DBEntryV1\<close> that move an entry to the deleted
  area or within it (\<open>release\<close>, \<open>expire\<close>, \<open>renameAsExpired\<close>, \<open>remove\<close>); also \<open>Config::openDB\<close> and the
  constructor of \<open>Config\<close> that reads files, from \<open>src/src/config.cpp\<close>.
\<close>

section \<open>Opening\<close>

definition openDB :: "config \<Rightarrow> string \<Rightarrow> database_handle io" where
  "openDB c fs =
     let_io (fs_config_or_exit c fs) (\<lambda>f.
     let_io (fs_exists (path_append (fs_database f) ''.ws_db_magic'')) (\<lambda>there.
       if \<not> there then throw DatabaseException
       else let_io (getFileContents (fs_database f @ ''/.ws_db_magic'')) (\<lambda>text.
         if getFirstLine text \<noteq> fs then throw DatabaseException
         else ret \<lparr>db_config = c, db_fs = fs\<rparr>)))"

definition read_config_file :: "'n yaml_cpp \<Rightarrow> path \<Rightarrow> config \<Rightarrow> config io" where
  "read_config_file y p c =
     let_io (getFileContents p) (\<lambda>yaml.
       case readYAML y yaml c of None \<Rightarrow> throw Other_exception | Some c' \<Rightarrow> ret c')"

definition read_config_dir :: "'n yaml_cpp \<Rightarrow> path \<Rightarrow> config \<Rightarrow> config io" where
  "read_config_dir y p c =
     let_io (fs_directory_iterator p) (\<lambda>entries.
       fold_io (sort (map (\<lambda>e. path_append p (fst e)) entries)) (\<lambda>cfile c.
         let_io (fs_is_regular_file cfile) (\<lambda>reg. if reg then read_config_file y cfile c else ret c)) c)"

primrec first_config :: "'n yaml_cpp \<Rightarrow> path list \<Rightarrow> config \<Rightarrow> config io" where
  "first_config y [] c = ret (c\<lparr>isvalid := False\<rparr>)"
| "first_config y (p # ps) c =
     let_io (fs_exists p) (\<lambda>there.
       if \<not> there then first_config y ps c
       else let_io (fs_is_regular_file p) (\<lambda>reg.
         let_io (if reg then read_config_file y p c
                 else let_io (fs_is_directory p) (\<lambda>dir.
                   if dir then read_config_dir y p c else exit_with (- 1)))
           (\<lambda>c'. ret (snd (validate c')))))"

definition Config_files :: "'n yaml_cpp \<Rightarrow> path list \<Rightarrow> config io" where
  "Config_files y configpathes = first_config y configpathes (config_initial\<lparr>global := file_defaults Global_initial\<rparr>)"

section \<open>Workspace directories\<close>

text \<open>A path with exactly the given components, and \<open>create_directories\<close>.\<close>

definition key_path :: "key \<Rightarrow> path" where
  "key_path k = concat (map (\<lambda>c. CHR ''/'' # c) k)"

definition create_one :: "path \<Rightarrow> unit io" where
  "create_one p =
     let_io (sys_stat p) (\<lambda>r.
       case r of
         Inr i \<Rightarrow> if is_dir i then ret () else throw (Filesystem_error ENOTDIR)
       | Inl e \<Rightarrow> if e = ENOENT then or_throw (sys_mkdir p 511) else throw (Filesystem_error e))"

definition fs_create_directories :: "path \<Rightarrow> unit io" where
  "fs_create_directories p =
     for_io (map (\<lambda>n. key_path (take (Suc n) (comps p))) [0..<length (comps p)]) create_one"

definition most_space :: "(path \<Rightarrow> nat option) \<Rightarrow> path list \<Rightarrow> nat" where
  "most_space statfs spaces =
     fst (foldl (\<lambda>(spaceid, max_free) (i, sp).
                   case statfs sp of
                     None \<Rightarrow> (spaceid, max_free)
                   | Some free \<Rightarrow> if free > max_free then (i, free) else (spaceid, max_free))
                (0, 0) (enumerate 0 spaces))"

definition select_space :: "Filesystem_config \<Rightarrow> nat io" where
  "select_space f =
     (let spaces = fs_spaces f; sel = fs_spaceselection f
      in if length spaces \<le> 1 then ret 0
         else if sel = ''random'' then let_io time_now (\<lambda>t. let_io rand (\<lambda>r. ret (r mod length spaces)))
         else if sel = ''uid'' then let_io getuid (\<lambda>u. ret (unat u mod length spaces))
         else if sel = ''gid'' then let_io getgid (\<lambda>g. ret (unat g mod length spaces))
         else if sel = ''mostspace'' then get_io (\<lambda>w. most_space (free_bytes w) spaces)
         else ret 0)"

text \<open>
  Reading \<open>spaces[spaceid]\<close> of an empty list (\<open>validate\<close> rejects such a configuration) is undefined in
  the code; here the process ends.
\<close>

definition space_at :: "path list \<Rightarrow> nat \<Rightarrow> path io" where
  "space_at spaces i = (if i < length spaces then ret (spaces ! i) else exit_with 139)"

definition set_umask :: "mode_t \<Rightarrow> unit io" where
  "set_umask m = put_io (\<lambda>w. w\<lparr>umask := m\<rparr>)"

definition make_wsdir :: "path \<Rightarrow> uid \<Rightarrow> unit io" where
  "make_wsdir wsdir duid =
     catch_io
       (seq_io (raise_cap [CAP_DAC_OVERRIDE])
         (let_io (get_io umask) (\<lambda>oldmask.
           seqs_io [set_umask 63, fs_create_directories wsdir, set_umask oldmask]
             (lower_cap [CAP_DAC_OVERRIDE] duid))))
       (\<lambda>x. case x of
          Filesystem_error e \<Rightarrow> seq_io (lower_cap [CAP_DAC_OVERRIDE] duid) (exit_with (- 1))
        | _ \<Rightarrow> throw x)"

text \<open>\<open>open\<close> with \<open>O_RDONLY|O_DIRECTORY|O_NOFOLLOW\<close>.\<close>

definition open_directory :: "path \<Rightarrow> bool io" where
  "open_directory p =
     let_io (sys_call Sys_read (comps p)) (\<lambda>e.
       if \<not> ok e then ret False
       else get_io (\<lambda>w. case map_of (files w) (comps p) of None \<Rightarrow> False | Some i \<Rightarrow> is_dir i))"

definition workspace_mode :: "bool \<Rightarrow> bool \<Rightarrow> mode_t" where
  "workspace_mode groupflag groupwritable =
     (let m0 = 448;
          m1 = (if groupflag then m0 OR (32 OR 8 OR 1024) else m0)
      in if groupwritable then m1 OR 16 else m1)"

definition give_up :: "path \<Rightarrow> 'a io" where
  "give_up wsdir = let_io (sys_unlink wsdir) (\<lambda>r. exit_with (- 1))"

definition workspace_path :: "string \<Rightarrow> string \<Rightarrow> string \<Rightarrow> uid \<Rightarrow> path \<Rightarrow> path" where
  "workspace_path name user_option username u space =
     (if length user_option > 0 \<and> user_option \<noteq> username \<and> u \<noteq> 0 then space @ ''/'' @ username @ ''-'' @ name
      else if length user_option > 0 \<and> u = 0 then space @ ''/'' @ user_option @ ''-'' @ name
      else space @ ''/'' @ username @ ''-'' @ name)"

text \<open>The target owner of the directory, and its transfer.\<close>

definition target_ids :: "string \<Rightarrow> string \<Rightarrow> uid \<Rightarrow> (uid \<times> gid) io" where
  "target_ids user_option groupname u =
     let_io getgid (\<lambda>g.
     let_io (if length user_option > 0
             then let_io (get_io (\<lambda>w. getpwnam (accounts w) user_option)) (\<lambda>pw.
                  let_io (not_null pw) (\<lambda>pw. ret (pw_uid pw, pw_gid pw)))
             else ret (u, g)) (\<lambda>ug.
     let_io (if groupname \<noteq> []
             then let_io (get_io (\<lambda>w. getgrnam (accounts w) groupname)) not_null
             else ret (snd ug)) (\<lambda>tgid.
     ret (fst ug, tgid))))"

definition hand_over :: "path \<Rightarrow> uid \<times> gid \<Rightarrow> mode_t \<Rightarrow> uid \<Rightarrow> path io" where
  "hand_over wsdir ids m duid =
     seq_io (raise_cap [CAP_CHOWN])
       (let_io (sys_fchown wsdir (fst ids) (snd ids)) (\<lambda>r.
        seq_io (lower_cap [CAP_CHOWN] duid)
          (if \<not> ok r then give_up wsdir
           else seq_io (raise_cap [CAP_FOWNER])
             (let_io (sys_fchmod wsdir m) (\<lambda>r.
              seq_io (lower_cap [CAP_FOWNER] duid)
                (if \<not> ok r then give_up wsdir else ret wsdir))))))"

definition make_workspace :: "path \<Rightarrow> string \<Rightarrow> string \<Rightarrow> mode_t \<Rightarrow> uid \<Rightarrow> uid \<Rightarrow> path io" where
  "make_workspace wsdir user_option groupname m u duid =
     seqs_io [make_wsdir wsdir duid, raise_cap [CAP_DAC_OVERRIDE]]
       (let_io (open_directory wsdir) (\<lambda>wsfd.
        seq_io (lower_cap [CAP_DAC_OVERRIDE] duid)
          (if \<not> wsfd then give_up wsdir
           else let_io (target_ids user_option groupname u) (\<lambda>ids. hand_over wsdir ids m duid))))"

definition createWorkspace :: "database_handle \<Rightarrow> string \<Rightarrow> string \<Rightarrow> bool \<Rightarrow> bool \<Rightarrow> string \<Rightarrow> path io" where
  "createWorkspace db name user_option groupflag groupwritable groupname =
     let_io getUsername (\<lambda>username.
     let_io (fs_config_or_exit (db_config db) (db_fs db)) (\<lambda>f.
     let_io (select_space f) (\<lambda>spaceid.
     let_io getuid (\<lambda>u.
     let_io (space_at (fs_spaces f) spaceid) (\<lambda>space.
     make_workspace (workspace_path name user_option username u space) user_option groupname
       (workspace_mode groupflag groupwritable) u (dbuid (global (db_config db))))))))"

definition createEntry ::
  "ryml \<Rightarrow> database_handle \<Rightarrow> string \<Rightarrow> string \<Rightarrow> path \<Rightarrow> int \<Rightarrow> int \<Rightarrow> int \<Rightarrow> int \<Rightarrow> bool \<Rightarrow> string \<Rightarrow> string \<Rightarrow> string \<Rightarrow> unit io" where
  "createEntry y db i username workspace creation expiration reminder extensions groupflag grp mailaddress comment =
     let_io (new_entry db i username workspace creation expiration reminder extensions groupflag grp mailaddress comment)
       (writeEntry y False)"

section \<open>Searching\<close>

text \<open>
  The group of a database file, as the search reads it; here no error callback is installed, so a
  document that cannot be parsed ends the process.
\<close>

definition group_of_file :: "ryml \<Rightarrow> string \<Rightarrow> string io" where
  "group_of_file y text =
     (case parse y text of
        None \<Rightarrow> exit_with 134
      | Some Not_map \<Rightarrow> exit_with 134
      | Some (Map m) \<Rightarrow> ret (node_string m ''group''))"

definition group_listing :: "ryml \<Rightarrow> path \<Rightarrow> string \<Rightarrow> string list \<Rightarrow> string list io" where
  "group_listing y pathname filepattern groups =
     let_io (dirEntries pathname filepattern False) (\<lambda>filelist.
     let_io getUsername (\<lambda>me.
     let_io (get_io getUserGroupList) (\<lambda>groups_of.
     let_io (fold_io filelist (\<lambda>f s.
       let parts = splitString f (CHR ''-'');
           q = (if length parts = 2 then hasCommonGroups groups_of (hd parts) (snd s) else (True, snd s))
       in if length parts = 2 \<and> \<not> fst q then ret (fst s, snd q)
          else let_io (getFileContents (path_append pathname f)) (\<lambda>text.
               let_io (group_of_file y text) (\<lambda>grp.
                 ret (if grp \<in> set groups then fst s @ [f] else fst s, snd q))))
       ([], new_group_cache groups_of me)) (\<lambda>r. ret (fst r)))))"

definition matchPattern :: "ryml \<Rightarrow> database_handle \<Rightarrow> string \<Rightarrow> string \<Rightarrow> string list \<Rightarrow> bool \<Rightarrow> bool \<Rightarrow> string list io" where
  "matchPattern y db pattern user groups deleted groupworkspaces =
     (let filepattern = (if groupworkspaces then ''*-'' @ pattern else user @ ''-'' @ pattern);
          c = db_config db;
          pathname = (if deleted then path_append (database c (db_fs db)) (deletedPath c (db_fs db))
                      else database c (db_fs db))
      in catch_io
           (if groupworkspaces then group_listing y pathname filepattern groups
            else dirEntries pathname filepattern False)
           (\<lambda>x. case x of Filesystem_error e \<Rightarrow> throw DatabaseException | _ \<Rightarrow> throw x))"

section \<open>Single entries\<close>

definition entry_path :: "config \<Rightarrow> string \<Rightarrow> string \<Rightarrow> bool \<Rightarrow> path" where
  "entry_path c fs i deleted =
     (if deleted then path_append (path_append (database c fs) (deletedPath c fs)) i
      else path_append (database c fs) i)"

definition readEntry :: "ryml \<Rightarrow> database_handle \<Rightarrow> string \<Rightarrow> bool \<Rightarrow> entry io" where
  "readEntry y db i deleted =
     seq_io (checkID i)
       (readFromFile y i (db_fs db) (entry_path (db_config db) (db_fs db) i deleted) (blank_entry db))"

definition deleteEntry :: "database_handle \<Rightarrow> string \<Rightarrow> bool \<Rightarrow> unit io" where
  "deleteEntry db wsid deleted =
     seq_io (checkID wsid)
       (let_io (fs_config_or_exit (db_config db) (db_fs db)) (\<lambda>f.
          catch_io (let_io (fs_remove (entry_path (db_config db) (db_fs db) wsid deleted)) (\<lambda>b. ret ()))
            (\<lambda>x. case x of Filesystem_error e \<Rightarrow> throw DatabaseException | _ \<Rightarrow> throw x)))"

section \<open>The deleted area\<close>

definition splitExpiredId :: "string \<Rightarrow> (string \<times> int) option" where
  "splitExpiredId i =
     (case rfind_char (CHR ''-'') i of
        None \<Rightarrow> None
      | Some dash \<Rightarrow>
          if dash = 0 \<or> dash + 1 \<ge> length i then None
          else (let suffix = drop (dash + 1) i
                in if list_all is_digit suffix
                   then (case stoll_digits suffix of None \<Rightarrow> None | Some ts \<Rightarrow> Some (take dash i, ts))
                   else None))"

definition nameTaken :: "path \<Rightarrow> bool io" where
  "nameTaken p =
     let_io (sys_lstat p) (\<lambda>r.
       case r of
         Inr i \<Rightarrow> ret True
       | Inl e \<Rightarrow> if e = ENOENT \<or> e = ENOTDIR then ret False else throw DatabaseException)"

definition renameDBFile :: "config \<Rightarrow> path \<Rightarrow> path \<Rightarrow> unit io" where
  "renameDBFile c from to =
     seqs_io [raise_cap [CAP_FOWNER, CAP_DAC_OVERRIDE], become_db]
       (let_io (sys_rename from to) (\<lambda>ec.
          seq_io (lower_cap [CAP_DAC_OVERRIDE, CAP_FOWNER] (dbuid (global c)))
            (if \<not> ok ec then throw DatabaseException else ret ())))"

definition renameWorkspaceDir :: "config \<Rightarrow> path \<Rightarrow> path \<Rightarrow> errno option io" where
  "renameWorkspaceDir c from to =
     seq_io (raise_cap [CAP_DAC_OVERRIDE])
       (let_io (sys_rename from to) (\<lambda>ec.
          seq_io (lower_cap [CAP_DAC_OVERRIDE] (dbuid (global c))) (ret ec)))"

definition db_deleted_dir :: "Filesystem_config \<Rightarrow> path" where
  "db_deleted_dir f = path_append (fs_database f) (fs_deletedPath f)"

definition ws_deleted_dir :: "path \<Rightarrow> Filesystem_config \<Rightarrow> path" where
  "ws_deleted_dir workspace f = path_append (remove_filename workspace) (fs_deletedPath f)"

definition stamped :: "string \<Rightarrow> int \<Rightarrow> string" where
  "stamped base t = base @ CHR ''-'' # show_int t"

text \<open>The loops over candidate timestamps: at most \<open>n\<close> steps, counting up.\<close>

primrec count_up :: "nat \<Rightarrow> (int \<Rightarrow> 'a option io) \<Rightarrow> int \<Rightarrow> 'a option io" where
  "count_up 0 step t = ret None"
| "count_up (Suc n) step t = let_io (step t) (\<lambda>r. case r of Some a \<Rightarrow> ret (Some a) | None \<Rightarrow> count_up n step (t + 1))"

definition maxtries :: nat where
  "maxtries = 1000"

text \<open>\<open>nameTaken(a) || nameTaken(b)\<close>.\<close>

definition either_taken :: "path \<Rightarrow> path \<Rightarrow> bool io" where
  "either_taken a b = let_io (nameTaken a) (\<lambda>t. if t then ret True else nameTaken b)"

definition expiredIdFor :: "entry \<Rightarrow> int \<Rightarrow> string set \<Rightarrow> string io" where
  "expiredIdFor e boundary reserved =
     (case splitExpiredId (e_id e) of
        None \<Rightarrow> throw DatabaseException
      | Some (base, ts) \<Rightarrow>
          if boundary \<le> 0 then throw DatabaseException
          else let_io (fs_config_or_exit (db_config (e_parent e)) (e_filesystem e)) (\<lambda>f.
            let_io (count_up maxtries (\<lambda>t.
              let candidate = stamped base t
              in if candidate = e_id e then ret (Some (e_id e))
                 else if candidate \<in> reserved then ret None
                 else let_io (either_taken (path_append (db_deleted_dir f) candidate)
                                (path_append (ws_deleted_dir (e_workspace e) f) candidate)) (\<lambda>taken.
                   ret (if taken then None else Some candidate))) boundary) (\<lambda>r.
              case r of None \<Rightarrow> throw DatabaseException | Some c \<Rightarrow> ret c)))"

definition refuse_if_taken :: "path \<Rightarrow> unit io" where
  "refuse_if_taken p = let_io (nameTaken p) (\<lambda>t. if t then throw DatabaseException else ret ())"

definition rename_both :: "entry \<Rightarrow> Filesystem_config \<Rightarrow> string \<Rightarrow> entry io" where
  "rename_both e f new_id =
     (let c = db_config (e_parent e);
          db_from = e_dbfilepath e;
          db_to = path_append (db_deleted_dir f) new_id;
          ws_from = path_append (ws_deleted_dir (e_workspace e) f) (e_id e);
          ws_to = path_append (ws_deleted_dir (e_workspace e) f) new_id
      in seqs_io [refuse_if_taken db_to, refuse_if_taken ws_to]
           (let_io (nameTaken ws_from) (\<lambda>ws_present.
            seq_io (renameDBFile c db_from db_to)
              (if \<not> ws_present then ret (e\<lparr>e_dbfilepath := db_to, e_id := new_id\<rparr>)
               else let_io (renameWorkspaceDir c ws_from ws_to) (\<lambda>ec.
                 if ok ec then ret (e\<lparr>e_dbfilepath := db_to, e_id := new_id\<rparr>)
                 else seq_io (renameDBFile c db_to db_from) (throw DatabaseException))))))"

definition renameAsExpired :: "entry \<Rightarrow> string \<Rightarrow> entry io" where
  "renameAsExpired e new_id =
     (if e_released e > 1000000000 then throw DatabaseException
      else case splitExpiredId (e_id e) of
        None \<Rightarrow> throw DatabaseException
      | Some (base, ts) \<Rightarrow>
          (case splitExpiredId new_id of
             None \<Rightarrow> throw DatabaseException
           | Some (new_base, new_ts) \<Rightarrow>
               if new_base \<noteq> base \<or> new_ts \<le> 0 then throw DatabaseException
               else if new_id = e_id e then ret e
               else let_io (fs_config_or_exit (db_config (e_parent e)) (e_filesystem e)) (\<lambda>f. rename_both e f new_id)))"

text \<open>
  \<open>release\<close>: the timestamp is passed by reference and comes back changed after a collision; the pause
  of a second is left out. The first result is the timestamp, the second the entry.
\<close>

definition release_target :: "entry \<Rightarrow> Filesystem_config \<Rightarrow> int \<Rightarrow> path" where
  "release_target e f t = path_append (db_deleted_dir f) (stamped (e_id e) t)"

definition release_as :: "entry \<Rightarrow> Filesystem_config \<Rightarrow> int \<Rightarrow> (int \<times> entry) io" where
  "release_as e f timestamp =
     (let duid = dbuid (global (db_config (e_parent e)))
      in seqs_io [raise_cap [CAP_FOWNER, CAP_DAC_OVERRIDE], become_db]
           (let_io (fs_exists (release_target e f timestamp)) (\<lambda>there.
            let t = (if there then timestamp + 1 else timestamp)
            in seq_io
                 (catch_io (fs_rename (e_dbfilepath e) (release_target e f t))
                    (\<lambda>x. case x of
                       Filesystem_error er \<Rightarrow> seq_io (lower_cap [CAP_DAC_OVERRIDE, CAP_FOWNER] duid) (throw DatabaseException)
                     | _ \<Rightarrow> throw x))
                 (seq_io (lower_cap [CAP_DAC_OVERRIDE, CAP_FOWNER] duid)
                    (ret (t, e\<lparr>e_dbfilepath := release_target e f t\<rparr>))))))"

definition release :: "ryml \<Rightarrow> int \<Rightarrow> entry \<Rightarrow> (int \<times> entry) io" where
  "release y timestamp e =
     let_io time_now (\<lambda>now.
     seq_io (writeEntry y False (e\<lparr>e_released := now\<rparr>))
       (let_io (fs_config_or_exit (db_config (e_parent e)) (e_filesystem e)) (\<lambda>f.
          release_as (e\<lparr>e_released := now\<rparr>) f timestamp)))"

definition find_stamp :: "entry \<Rightarrow> Filesystem_config \<Rightarrow> int \<Rightarrow> int option io" where
  "find_stamp e f base_ts = count_up maxtries (\<lambda>t.
     let_io (either_taken (path_append (db_deleted_dir f) (stamped (e_id e) t))
               (path_append (ws_deleted_dir (e_workspace e) f) (stamped (e_id e) t))) (\<lambda>taken.
       ret (if taken then None else Some t))) base_ts"

definition expire_as :: "ryml \<Rightarrow> entry \<Rightarrow> Filesystem_config \<Rightarrow> int \<Rightarrow> (string \<times> entry) io" where
  "expire_as y e f t =
     (let dbtarget = path_append (db_deleted_dir f) (stamped (e_id e) t)
      in let_io time_now (\<lambda>now.
           seqs_io
             [writeEntry y True (e\<lparr>e_expired := now\<rparr>),
              catch_io (fs_rename (e_dbfilepath e) dbtarget)
                (\<lambda>x. case x of Filesystem_error er \<Rightarrow> throw DatabaseException | _ \<Rightarrow> throw x)]
             (ret (show_int t, e\<lparr>e_expired := now, e_dbfilepath := dbtarget\<rparr>))))"

definition expire :: "ryml \<Rightarrow> string \<Rightarrow> entry \<Rightarrow> (string \<times> entry) io" where
  "expire y timestamp e =
     (if timestamp = [] \<or> \<not> list_all is_digit timestamp then throw DatabaseException
      else case stoll_digits timestamp of
        None \<Rightarrow> throw DatabaseException
      | Some base_ts \<Rightarrow>
          let_io (fs_config_or_exit (db_config (e_parent e)) (e_filesystem e)) (\<lambda>f.
          let_io (find_stamp e f base_ts) (\<lambda>found.
            case found of None \<Rightarrow> throw DatabaseException | Some t \<Rightarrow> expire_as y e f t)))"

definition remove :: "entry \<Rightarrow> unit io" where
  "remove e =
     seqs_io [raise_cap [CAP_DAC_OVERRIDE], become_db]
       (let_io (fs_remove (e_dbfilepath e)) (\<lambda>b.
        seq_io (lower_cap [CAP_DAC_OVERRIDE] (dbuid (global (db_config (e_parent e)))))
          (let_io getUsername (\<lambda>u. ret ()))))"

section \<open>Programs that change no file\<close>

lemma same_stat: "keeps same_files (sys_lstat p)" "keeps same_files (sys_stat p)" "keeps same_files (fs_exists p)"
  "keeps same_files (fs_is_directory p)" "keeps same_files (fs_is_regular_file p)" "keeps same_files (getFileContents p)"
  unfolding sys_lstat_def sys_stat_def fs_exists_def fs_is_directory_def fs_is_regular_file_def fs_status_def getFileContents_def
  by (intro same.rules same_calls; auto intro!: same.rules split: kind.split)+

lemma same_names: "keeps same_files (nameTaken p)" "keeps same_files (either_taken p q)" "keeps same_files (refuse_if_taken p)"
  "keeps same_files (fs_config_or_exit c fs)" "keeps same_files (not_null x)" "keeps same_files getUsername"
  unfolding nameTaken_def either_taken_def refuse_if_taken_def fs_config_or_exit_def not_null_def getUsername_def
  by (intro same.rules same_calls same_stat)+

lemmas same_all = same.rules same.cap_calls same_calls same_stat same_names

lemma nameTaken_Done: "nameTaken p w = (Done b, w') \<Longrightarrow> b \<longleftrightarrow> map_of (files w) (comps p) \<noteq> None"
  by (auto simp: nameTaken_def sys_lstat_def sys_call_def io_defs split: option.splits if_splits)

lemma either_taken_Done:
  assumes "either_taken p q w = (Done b, w')"
  shows "b \<longleftrightarrow> map_of (files w) (comps p) \<noteq> None \<or> map_of (files w) (comps q) \<noteq> None"
proof -
  from assms obtain a w1 where "nameTaken p w = (Done a, w1)" and r: "(if a then ret True else nameTaken q) w1 = (Done b, w')"
    by (auto simp: either_taken_def let_io_Done)
  moreover from this(1) have "files w1 = files w" by (rule same_filesD [OF same_names(1)])
  ultimately show ?thesis
    using nameTaken_Done [of p w a w1] nameTaken_Done [of q w1 b w'] by (cases a) (auto simp: ret_Done)
qed

lemma fs_config_Done: "fs_config_or_exit c fs w = (Done f, w') \<longleftrightarrow> getFsConfig c fs = Some f \<and> w' = w"
  by (auto simp: fs_config_or_exit_def ret_Done split: option.splits)

section \<open>Counting up to a free name\<close>

text \<open>
  The contract of a loop over candidate timestamps: a step changes no file and finds an answer exactly
  when the candidate is available.
\<close>

locale candidate_search =
  fixes step :: "int \<Rightarrow> 'a option io" and available :: "files \<Rightarrow> int \<Rightarrow> bool" and answer :: "int \<Rightarrow> 'a"
  assumes quiet: "keeps same_files (step t)"
    and found: "step t w = (Done (Some a), w') \<Longrightarrow> available (files w) t \<and> a = answer t"
    and occupied: "step t w = (Done None, w') \<Longrightarrow> \<not> available (files w) t"
begin

lemma count_quiet: "keeps same_files (count_up n step t)"
  by (induction n arbitrary: t) (auto intro!: same.rules quiet)

lemma count_result:
  assumes "count_up n step t w = (Done r, w')"
  shows "case r of
      Some a \<Rightarrow> \<exists>i < n. a = answer (t + int i) \<and> available (files w) (t + int i) \<and> (\<forall>j < i. \<not> available (files w) (t + int j))
    | None \<Rightarrow> \<forall>j < n. \<not> available (files w) (t + int j)"
  using assms
proof (induction n arbitrary: t w)
  case 0
  then show ?case by (simp add: ret_Done)
next
  case (Suc n)
  from Suc.prems obtain x w1 where x: "step t w = (Done x, w1)"
    and rest: "(case x of Some a \<Rightarrow> ret (Some a) | None \<Rightarrow> count_up n step (t + 1)) w1 = (Done r, w')"
    by (auto simp: let_io_Done)
  have f: "files w1 = files w" by (rule same_filesD [OF quiet x])
  show ?case
  proof (cases x)
    case (Some a)
    with rest have "r = Some a" by (simp add: ret_Done)
    with found [of t w a w1] x Some show ?thesis by (auto intro: exI [of _ 0])
  next
    case None
    with x have "\<not> available (files w) t" using occupied by blast
    moreover from None rest have "count_up n step (t + 1) w1 = (Done r, w')" by simp
    note Suc.IH [OF this]
    ultimately show ?thesis
    proof (cases r)
      case None
      with \<open>\<not> available (files w) t\<close> Suc.IH [OF \<open>count_up n step (t + 1) w1 = (Done r, w')\<close>] show ?thesis
        by (auto simp: f less_Suc_eq_0_disj algebra_simps)
    next
      case (Some a)
      with Suc.IH [OF \<open>count_up n step (t + 1) w1 = (Done r, w')\<close>] obtain i where
        "i < n" "a = answer (t + int (Suc i))" "available (files w) (t + int (Suc i))"
        "\<forall>j < i. \<not> available (files w) (t + int (Suc j))" by (auto simp: f algebra_simps)
      with \<open>\<not> available (files w) t\<close> have "Suc i < Suc n \<and> a = answer (t + int (Suc i)) \<and> available (files w) (t + int (Suc i)) \<and>
          (\<forall>j < Suc i. \<not> available (files w) (t + int j))" by (auto simp: less_Suc_eq_0_disj)
      then show ?thesis unfolding Some option.case by blast
    qed
  qed
qed

end

text \<open>The two names a deleted entry needs, and when they are free.\<close>

definition free_stamp :: "Filesystem_config \<Rightarrow> path \<Rightarrow> string \<Rightarrow> files \<Rightarrow> int \<Rightarrow> bool" where
  "free_stamp f workspace base fs t \<longleftrightarrow>
     map_of fs (comps (path_append (db_deleted_dir f) (stamped base t))) = None \<and>
     map_of fs (comps (path_append (ws_deleted_dir workspace f) (stamped base t))) = None"

interpretation expire_names: candidate_search
  "\<lambda>t. let_io (either_taken (path_append (db_deleted_dir f) (stamped base t)) (path_append (ws_deleted_dir ws f) (stamped base t)))
        (\<lambda>taken. ret (if taken then None else Some t))"
  "free_stamp f ws base" "\<lambda>t. t" for f ws base
proof
  show "keeps same_files (let_io (either_taken (path_append (db_deleted_dir f) (stamped base t)) (path_append (ws_deleted_dir ws f) (stamped base t)))
        (\<lambda>taken. ret (if taken then None else Some t)))" for t by (intro same_all)
qed (auto simp: let_io_Done ret_Done free_stamp_def dest: either_taken_Done split: if_splits)

interpretation rename_names: candidate_search
  "\<lambda>t. let candidate = stamped base t
        in if candidate = i then ret (Some i)
           else if candidate \<in> reserved then ret None
           else let_io (either_taken (path_append (db_deleted_dir f) candidate) (path_append (ws_deleted_dir ws f) candidate))
             (\<lambda>taken. ret (if taken then None else Some candidate))"
  "\<lambda>fs t. stamped base t = i \<or> stamped base t \<notin> reserved \<and> free_stamp f ws base fs t" "stamped base" for f ws base i reserved
proof
  show "keeps same_files (let candidate = stamped base t
        in if candidate = i then ret (Some i)
           else if candidate \<in> reserved then ret None
           else let_io (either_taken (path_append (db_deleted_dir f) candidate) (path_append (ws_deleted_dir ws f) candidate))
             (\<lambda>taken. ret (if taken then None else Some candidate)))" for t unfolding Let_def by (intro same_all)
qed (auto simp: Let_def let_io_Done ret_Done free_stamp_def dest: either_taken_Done split: if_splits)

section \<open>Nothing but the entry itself\<close>

lemma let_ioE:
  assumes "let_io m f w = (r, w')"
  obtains (next_step) a w1 where "m w = (Done a, w1)" "f a w1 = (r, w')"
    | (stopped) r1 where "m w = (r1, w')" "\<And>a. r1 \<noteq> Done a" "\<And>a. r \<noteq> Done a"
proof (cases "m w")
  case (Pair x w1)
  show thesis
  proof (cases x)
    case (Done a)
    with Pair assms show thesis by (intro next_step) (auto simp: let_io_def)
  next
    case (Throw e)
    with Pair assms show thesis by (intro stopped [of x]) (auto simp: let_io_def)
  next
    case (Exit n)
    with Pair assms show thesis by (intro stopped [of x]) (auto simp: let_io_def)
  qed
qed

lemma sys_rename_cases:
  assumes "sys_rename a b w = (r, w')"
  obtains "r = Done None" "rename_rule (comps a) (comps b) (files w) = Inr (files w')"
    | e where "r = Done (Some e)" "files w' = files w"
  using assms by (auto simp: sys_rename_def change_files_run sys_call_def split: option.splits sum.splits)

lemma fs_rename_cases:
  assumes "fs_rename a b w = (r, w')"
  obtains "r = Done ()" "rename_rule (comps a) (comps b) (files w) = Inr (files w')"
    | e where "r = Throw (Filesystem_error e)" "files w' = files w"
proof -
  obtain x w1 where x: "sys_rename a b w = (x, w1)" by force
  from x show thesis
  proof (cases rule: sys_rename_cases)
    case 1
    with x assms show thesis by (intro that(1)) (auto simp: fs_rename_def or_throw_def io_defs)
  next
    case (2 e)
    with x assms show thesis by (intro that(2)) (auto simp: fs_rename_def or_throw_def io_defs)
  qed
qed

lemma tree_ok_absent:
  assumes "tree_ok fs" and "map_of fs q = None" and "q \<noteq> []" and "prefix q k"
  shows "map_of fs k = None"
proof -
  obtain d c where q: "q = d @ [c]" using assms(3) by (metis append_butlast_last_id)
  obtain s where k: "k = d @ c # s" using assms(4) by (auto simp: q prefix_def)
  show ?thesis using tree_ok_ancestors [OF assms(1), of d c s] assms(2)
    by (cases "map_of fs (d @ c # s)") (auto simp: k q)
qed

lemma rename_keeps:
  assumes "rename_rule a b fs = Inr fs'" and "\<not> prefix a k" and "map_of fs k = Some i"
    and "\<And>k. prefix b k \<Longrightarrow> \<not> prefix a k \<Longrightarrow> map_of fs k = None"
  shows "map_of fs' k = Some i"
proof -
  have "\<not> prefix b k" using assms(2-4) by fastforce
  with rename_rule_only [OF assms(1,2)] assms(3) show ?thesis by simp
qed

text \<open>
  The last two steps of the operations that retire an entry: after the file of the entry was written
  (in \<open>w2\<close>) it is renamed to a name that was free at the start.
\<close>

lemma retire_keeps:
  assumes "tree_ok (files w)" and "map_of (files w) target = None" and "target \<noteq> []"
    and "only (\<lambda>k. k = own) w w2" and "rename_rule own target (files w2) = Inr fs'"
    and "\<not> prefix own k" and "map_of (files w) k = Some i"
  shows "map_of fs' k = Some i"
proof (rule rename_keeps [OF assms(5,6)])
  have o: "map_of (files w2) q = map_of (files w) q" if "\<not> prefix own q" for q
    using assms(4) that by (auto simp: only_def)
  show "map_of (files w2) k = Some i" using o [OF assms(6)] assms(7) by simp
  show "map_of (files w2) q = None" if "prefix target q" "\<not> prefix own q" for q
    using tree_ok_absent [OF assms(1-3) that(1)] o [OF that(2)] by simp
qed

lemma stamped_comps: "one_comp i \<Longrightarrow> comps (path_append d (stamped i t)) = comps d @ [stamped i t]"
  unfolding stamped_def by (rule comps_append_one) (rule one_comp_stamp)

lemma expire_steps:
  assumes "expire y timestamp e w = (r, w')"
  obtains (nothing) "files w' = files w" "\<And>a. r \<noteq> Done a"
  | (written) f b n w2 where "getFsConfig (db_config (e_parent e)) (e_filesystem e) = Some f"
      "stoll_digits timestamp = Some b" "n < maxtries" "free_stamp f (e_workspace e) (e_id e) (files w) (b + int n)"
      "\<And>m. m < n \<Longrightarrow> \<not> free_stamp f (e_workspace e) (e_id e) (files w) (b + int m)"
      "only (\<lambda>k. k = comps (e_dbfilepath e)) w w2"
      "files w' = files w2 \<and> (\<forall>a. r \<noteq> Done a) \<or>
       rename_rule (comps (e_dbfilepath e)) (comps (path_append (db_deleted_dir f) (stamped (e_id e) (b + int n)))) (files w2)
           = Inr (files w') \<and>
         (\<exists>now. r = Done (show_int (b + int n), e\<lparr>e_expired := now,
                e_dbfilepath := path_append (db_deleted_dir f) (stamped (e_id e) (b + int n))\<rparr>))"
proof (cases "timestamp = [] \<or> \<not> list_all is_digit timestamp \<or> stoll_digits timestamp = None")
  case True
  have "files w' = files w" "\<And>a. r \<noteq> Done a" using assms True by (auto simp: expire_def throw_def split: if_splits option.splits)
  then show thesis by (rule nothing)
next
  case False
  then obtain b where b: "stoll_digits timestamp = Some b" by auto
  from assms False b have run: "let_io (fs_config_or_exit (db_config (e_parent e)) (e_filesystem e)) (\<lambda>f.
        let_io (find_stamp e f b) (\<lambda>found. case found of None \<Rightarrow> throw DatabaseException | Some t \<Rightarrow> expire_as y e f t)) w = (r, w')"
    by (simp add: expire_def)
  have quiet: "keeps same_files (find_stamp e f b)" for f
    unfolding find_stamp_def by (rule expire_names.count_quiet)
  from run show thesis
  proof (cases rule: let_ioE)
    case (stopped r1)
    from same_filesD [OF same_names(4) stopped(1)] show thesis using stopped(3) by (rule nothing)
  next
    case (next_step f w1)
    then have f: "getFsConfig (db_config (e_parent e)) (e_filesystem e) = Some f" "w1 = w" by (simp_all add: fs_config_Done)
    from next_step(2) show thesis unfolding f(2)
    proof (cases rule: let_ioE)
      case (stopped r1)
      from same_filesD [OF quiet stopped(1)] show thesis using stopped(3) by (rule nothing)
    next
      case (next_step found w1)
      have w1: "files w1 = files w" by (rule same_filesD [OF quiet next_step(1)])
      show thesis
      proof (cases found)
        case None
        show thesis by (rule nothing) (use None next_step(2) w1 in \<open>auto simp: throw_def\<close>)
      next
        case (Some t)
        from expire_names.count_result [OF next_step(1) [unfolded find_stamp_def]] Some obtain n where n: "n < maxtries" "t = b + int n"
            "free_stamp f (e_workspace e) (e_id e) (files w) (b + int n)"
            "\<And>m. m < n \<Longrightarrow> \<not> free_stamp f (e_workspace e) (e_id e) (files w) (b + int m)" by auto
        from next_step(2) Some have "expire_as y e f t w1 = (r, w')" by simp
        moreover define now where "now = clock w1 (steps w1)"
        moreover define w2 where "w2 = w1\<lparr>steps := Suc (steps w1)\<rparr>"
        ultimately have rest: "seq_io (writeEntry y True (e\<lparr>e_expired := now\<rparr>))
             (seq_io (catch_io (fs_rename (e_dbfilepath e) (path_append (db_deleted_dir f) (stamped (e_id e) t)))
                   (\<lambda>x. case x of Filesystem_error er \<Rightarrow> throw DatabaseException | _ \<Rightarrow> throw x))
                (ret (show_int t, e\<lparr>e_expired := now, e_dbfilepath := path_append (db_deleted_dir f) (stamped (e_id e) t)\<rparr>))) w2 = (r, w')"
          by (simp add: expire_as_def Let_def let_io_def time_now_def)
        have w2: "files w2 = files w1" by (simp add: w2_def)
        have o: "only (\<lambda>k. k = comps (e_dbfilepath e)) w w3"
          if "writeEntry y True (e\<lparr>e_expired := now\<rparr>) w2 = (r3, w3)" for r3 w3
        proof -
          have "keeps (only (\<lambda>k. k = comps (e_dbfilepath e))) (writeEntry y True (e\<lparr>e_expired := now\<rparr>))"
            by (rule only_writeEntry) simp
          from keepsD [OF this that] show ?thesis by (simp add: only_def w1 w2)
        qed
        from rest show thesis unfolding seq_io_def [of "writeEntry y True (e\<lparr>e_expired := now\<rparr>)"]
        proof (cases rule: let_ioE)
          case (stopped r1)
          show thesis by (rule written [OF f(1) b n(1,3,4) o [OF stopped(1)]]) (use stopped in auto)
        next
          case (next_step u w3)
          obtain x w4 where x: "fs_rename (e_dbfilepath e) (path_append (db_deleted_dir f) (stamped (e_id e) t)) w3 = (x, w4)"
            by force
          from x show thesis
          proof (cases rule: fs_rename_cases)
            case 1
            with next_step(2) x have "w' = w4" "r = Done (show_int t, e\<lparr>e_expired := now, e_dbfilepath := path_append (db_deleted_dir f) (stamped (e_id e) t)\<rparr>)"
              by (auto simp: io_defs)
            show thesis by (rule written [OF f(1) b n(1,3,4) o [OF next_step(1)]]) (use 1 \<open>w' = w4\<close> \<open>r = _\<close> in \<open>auto simp: n(2)\<close>)
          next
            case (2 er)
            with next_step(2) x have "w' = w4" "\<And>a. r \<noteq> Done a" by (auto simp: io_defs)
            show thesis by (rule written [OF f(1) b n(1,3,4) o [OF next_step(1)]]) (use 2 \<open>w' = w4\<close> \<open>\<And>a. r \<noteq> Done a\<close> in auto)
          qed
        qed
      qed
    qed
  qed
qed

section \<open>Successful runs\<close>

lemma ready_lstat:
  "ready cs fs w \<Longrightarrow> (\<And>w'. ready cs fs w' \<Longrightarrow> Q (case map_of fs (comps p) of None \<Rightarrow> Inl ENOENT | Some i \<Rightarrow> Inr i) w') \<Longrightarrow>
     returns (sys_lstat p) w Q"
  unfolding sys_lstat_def returns_let
  by (erule ready_call) (simp add: returns_get, simp add: ready_def)

lemma ready_taken:
  assumes "ready cs fs w"
  shows "(\<And>w'. ready cs fs w' \<Longrightarrow> Q (map_of fs (comps p) \<noteq> None) w') \<Longrightarrow> returns (nameTaken p) w Q"
    and "(\<And>w'. ready cs fs w' \<Longrightarrow> Q (map_of fs (comps p) \<noteq> None \<or> map_of fs (comps q) \<noteq> None) w') \<Longrightarrow> returns (either_taken p q) w Q"
proof -
  have n: "returns (nameTaken p) w Q" if "ready cs fs w" "\<And>w'. ready cs fs w' \<Longrightarrow> Q (map_of fs (comps p) \<noteq> None) w'" for p w Q
    unfolding nameTaken_def returns_let
  proof (rule ready_lstat [OF that(1)])
    fix w' assume "ready cs fs w'"
    from that(2) [OF this] show "returns (case case map_of fs (comps p) of None \<Rightarrow> Inl ENOENT | Some i \<Rightarrow> Inr i of
        Inl e \<Rightarrow> if e = ENOENT \<or> e = ENOTDIR then ret False else throw DatabaseException | Inr i \<Rightarrow> ret True) w' Q"
      by (cases "map_of fs (comps p)") (simp_all add: returns_ret)
  qed
  show "(\<And>w'. ready cs fs w' \<Longrightarrow> Q (map_of fs (comps p) \<noteq> None) w') \<Longrightarrow> returns (nameTaken p) w Q"
    by (rule n [OF assms])
  show "returns (either_taken p q) w Q"
    if "\<And>w'. ready cs fs w' \<Longrightarrow> Q (map_of fs (comps p) \<noteq> None \<or> map_of fs (comps q) \<noteq> None) w'"
    unfolding either_taken_def returns_let
  proof (rule n [OF assms])
    fix w' assume r: "ready cs fs w'"
    show "returns (if map_of fs (comps p) \<noteq> None then ret True else nameTaken q) w' Q"
      unfolding returns_if using that by (auto simp: returns_ret r intro!: n [OF r])
  qed
qed

lemma ready_rename:
  assumes "ready cs fs w" and "rename_rule (comps a) (comps b) fs = Inr fs'"
    and "\<And>w'. ready cs fs' w' \<Longrightarrow> Q None w'"
  shows "returns (sys_rename a b) w Q"
  unfolding sys_rename_def
  by (rule ready_change [OF assms(1), where g = "\<lambda>w. fs'"]) (use assms in \<open>auto simp: ready_def\<close>)

lemma ready_fs_rename:
  assumes "ready cs fs w" and "rename_rule (comps a) (comps b) fs = Inr fs'"
    and "\<And>w'. ready cs fs' w' \<Longrightarrow> Q () w'"
  shows "returns (fs_rename a b) w Q"
  unfolding fs_rename_def or_throw_def returns_let
  by (rule ready_rename [OF assms(1,2)]) (simp add: returns_ret assms(3))

text \<open>Renaming a file to a free name in a directory.\<close>

lemma rename_to_free:
  assumes "map_of fs a = Some i" and "map_of fs b = None" and "dir_at fs (butlast b)"
    and "\<not> prefix a b" and "\<not> prefix b a"
  shows "rename_rule a b fs = Inr (fs_move a b fs)"
proof -
  from assms(4,5) have "a \<noteq> b" "b \<noteq> []" by auto
  with assms show ?thesis by (simp add: rename_rule_def)
qed

lemma dir_at_put: "map_of fs k = None \<or> (\<exists>i. map_of fs k = Some i \<and> \<not> is_dir i) \<Longrightarrow> dir_at fs d \<Longrightarrow> dir_at (fs_put k j fs) d"
  by (auto simp: dir_at_def map_of_put split: option.splits)

lemma writable_not_dir: "writable fs k \<Longrightarrow> map_of fs k = None \<or> (\<exists>i. map_of fs k = Some i \<and> \<not> is_dir i)"
  by (auto simp: writable_def is_reg_def is_dir_def split: option.splits kind.splits)

lemma expire_returns:
  assumes r: "ready db_caps fs w" and w: "writable fs (comps (e_dbfilepath e))" and i: "one_comp (e_id e)"
    and ts: "timestamp \<noteq> []" "list_all is_digit timestamp" "stoll_digits timestamp = Some b"
    and f: "getFsConfig (db_config (e_parent e)) (e_filesystem e) = Some f"
    and free: "free_stamp f (e_workspace e) (e_id e) fs b" and d: "dir_at fs (comps (db_deleted_dir f))"
    and apart: "\<not> prefix (comps (e_dbfilepath e)) (comps (db_deleted_dir f) @ [stamped (e_id e) b])"
      "\<not> prefix (comps (db_deleted_dir f) @ [stamped (e_id e) b]) (comps (e_dbfilepath e))"
  shows "returns (expire y timestamp e) w (\<lambda>p w'. fst p = show_int b \<and>
    e_dbfilepath (snd p) = path_append (db_deleted_dir f) (stamped (e_id e) b) \<and>
    (\<exists>now j. kind j = Reg (entry_text y (e\<lparr>e_expired := now\<rparr>)) \<and>
      files w' = fs_move (comps (e_dbfilepath e)) (comps (db_deleted_dir f) @ [stamped (e_id e) b]) (fs_put (comps (e_dbfilepath e)) j fs)))"
    (is "returns _ w ?Q")
proof -
  let ?own = "comps (e_dbfilepath e)" and ?target = "path_append (db_deleted_dir f) (stamped (e_id e) b)"
  have c: "comps ?target = comps (db_deleted_dir f) @ [stamped (e_id e) b]" by (rule stamped_comps [OF i])
  have step: "returns (expire_as y e f b) w1 ?Q" if "ready db_caps fs w1" for w1
    unfolding expire_as_def Let_def returns_let seqs_io.simps returns_seq
  proof (rule ready_now [OF that])
    fix now w2 assume w2: "ready db_caps fs w2"
    show "returns (writeEntry y True (e\<lparr>e_expired := now\<rparr>)) w2 (\<lambda>a w'. returns (catch_io (fs_rename (e_dbfilepath e) ?target)
           (\<lambda>x. case x of Filesystem_error er \<Rightarrow> throw DatabaseException | _ \<Rightarrow> throw x)) w'
           (\<lambda>a w'. returns (ret (show_int b, e\<lparr>e_expired := now, e_dbfilepath := ?target\<rparr>)) w' ?Q))"
    proof (rule writeEntry_returns [OF w2])
      show "writable fs (comps (e_dbfilepath (e\<lparr>e_expired := now\<rparr>)))" using w by simp
      fix j w3
      assume j: "kind j = Reg (entry_text y (e\<lparr>e_expired := now\<rparr>))"
        and "ready db_caps (fs_put (comps (e_dbfilepath (e\<lparr>e_expired := now\<rparr>))) j fs) w3"
      then have w3: "ready db_caps (fs_put ?own j fs) w3" by simp
      have m: "rename_rule ?own (comps ?target) (fs_put ?own j fs) = Inr (fs_move ?own (comps ?target) (fs_put ?own j fs))"
      proof (rule rename_to_free)
        show "map_of (fs_put ?own j fs) ?own = Some j" by (simp add: map_of_put)
        show "map_of (fs_put ?own j fs) (comps ?target) = None"
          using free apart unfolding free_stamp_def c by (auto simp: map_of_put)
        show "dir_at (fs_put ?own j fs) (butlast (comps ?target))"
          unfolding c using dir_at_put [OF writable_not_dir [OF w] d] by simp
      qed (use apart in \<open>simp_all add: c\<close>)
      show "returns (catch_io (fs_rename (e_dbfilepath e) ?target)
           (\<lambda>x. case x of Filesystem_error er \<Rightarrow> throw DatabaseException | _ \<Rightarrow> throw x)) w3
           (\<lambda>a w'. returns (ret (show_int b, e\<lparr>e_expired := now, e_dbfilepath := ?target\<rparr>)) w' ?Q)"
        by (rule returns_catch, rule ready_fs_rename [OF w3 m]) (use j in \<open>auto simp: returns_ret ready_def c\<close>)
    qed
  qed
  have search: "returns (find_stamp e f b) w (\<lambda>found w'. returns (case found of None \<Rightarrow> throw DatabaseException | Some t \<Rightarrow> expire_as y e f t) w' ?Q)"
  proof -
    obtain n where n: "maxtries = Suc n" by (simp add: maxtries_def eval_nat_numeral)
    show ?thesis
      unfolding find_stamp_def n count_up.simps returns_let
      by (rule ready_taken(2) [OF r]) (use free step in \<open>simp add: free_stamp_def returns_ret\<close>)
  qed
  show ?thesis
    using ts search by (simp add: expire_def returns_let) (simp add: fs_config_or_exit_def f returns_ret)
qed

section \<open>Releasing\<close>

lemma ends_rename:
  assumes "\<And>w'. rename_rule (comps a) (comps b) (files w) = Inr (files w') \<Longrightarrow> Q () w'" and "\<And>w'. files w' = files w \<Longrightarrow> F w'"
  shows "ends (fs_rename a b) w Q F"
proof -
  obtain x w1 where x: "fs_rename a b w = (x, w1)" by force
  then show ?thesis
    by (cases rule: fs_rename_cases) (use x assms in \<open>auto simp: ends_def\<close>)
qed

lemma fs_exists_Done: "fs_exists p w = (Done b, w') \<Longrightarrow> b \<longleftrightarrow> follow 40 (files w) (comps p) \<noteq> None"
  by (auto simp: fs_exists_def fs_status_def sys_stat_def sys_call_def io_defs split: option.splits sum.splits if_splits prod.splits)

text \<open>The tree after the entry was moved to the first or second name.\<close>

definition released_to :: "entry \<Rightarrow> Filesystem_config \<Rightarrow> int \<Rightarrow> files \<Rightarrow> files \<Rightarrow> bool" where
  "released_to e f t fs fs' \<longleftrightarrow>
     rename_rule (comps (e_dbfilepath e))
       (comps (release_target e f (if follow 40 fs (comps (release_target e f t)) \<noteq> None then t + 1 else t))) fs = Inr fs'"

lemma release_as_ends:
  "ends (release_as e f t) w
     (\<lambda>p w'. released_to e f t (files w) (files w') \<and>
        fst p = (if follow 40 (files w) (comps (release_target e f t)) \<noteq> None then t + 1 else t) \<and>
        snd p = e\<lparr>e_dbfilepath := release_target e f (fst p)\<rparr>)
     (\<lambda>w'. files w' = files w \<or> released_to e f t (files w) (files w'))"
  (is "ends _ w ?Q ?F")
proof -
  let ?low = "lower_cap [CAP_DAC_OVERRIDE, CAP_FOWNER] (dbuid (global (db_config (e_parent e))))"
  show ?thesis
    unfolding release_as_def Let_def seqs_io.simps ends_sequence
  proof (rule ends_quiet [OF same.cap_calls(1)], rule ends_quiet [OF same.cap_calls(5)], rule ends_quiet [OF same_stat(3)])
    fix a w1 a' w2 there w3
    assume w1: "files w1 = files w" and w2: "files w2 = files w1" and w3: "files w3 = files w2"
      and ex: "fs_exists (release_target e f t) w2 = (Done there, w3)"
    have th: "there \<longleftrightarrow> follow 40 (files w) (comps (release_target e f t)) \<noteq> None"
      using fs_exists_Done [OF ex] by (simp add: w2 w1)
    let ?t = "if there then t + 1 else t"
    show "ends (catch_io (fs_rename (e_dbfilepath e) (release_target e f ?t))
             (\<lambda>x. case x of Filesystem_error er \<Rightarrow> seq_io ?low (throw DatabaseException) | _ \<Rightarrow> throw x)) w3
            (\<lambda>a w'. ends ?low w' (\<lambda>a w'. ?Q (?t, e\<lparr>e_dbfilepath := release_target e f ?t\<rparr>) w') ?F) ?F"
    proof (rule ends_catch, rule ends_rename)
      fix w4 :: world assume m: "rename_rule (comps (e_dbfilepath e)) (comps (release_target e f ?t)) (files w3) = Inr (files w4)"
      have r: "released_to e f t (files w) (files w4)"
        unfolding released_to_def th [symmetric] using m w3 w2 w1 by simp
      show "ends ?low w4 (\<lambda>a w'. ?Q (?t, e\<lparr>e_dbfilepath := release_target e f ?t\<rparr>) w') ?F"
        by (rule ends_quiet [OF same.cap_calls(2)]) (use r th in auto)
    next
      fix w4 :: world assume w4: "files w4 = files w3"
      have all: "ends (case x of Filesystem_error er \<Rightarrow> seq_io ?low (throw DatabaseException) | _ \<Rightarrow> throw x) w4
         (\<lambda>a w'. ends ?low w' (\<lambda>a w'. ?Q (?t, e\<lparr>e_dbfilepath := release_target e f ?t\<rparr>) w') ?F) ?F" for x
        using w4 w3 w2 w1
        by (cases x) (auto simp: ends_sequence intro!: ends_quiet [OF same.cap_calls(2)])
      show "?F w4 \<and> (\<forall>x. ends (case x of Filesystem_error er \<Rightarrow> seq_io ?low (throw DatabaseException) | _ \<Rightarrow> throw x) w4
         (\<lambda>a w'. ends ?low w' (\<lambda>a w'. ?Q (?t, e\<lparr>e_dbfilepath := release_target e f ?t\<rparr>) w') ?F) ?F)"
        by (intro conjI allI all disjI1) (use w4 w3 w2 w1 in simp)
    qed
  qed auto
qed

lemma release_ends:
  assumes "getFsConfig (db_config (e_parent e)) (e_filesystem e) = Some f"
  shows "ends (release y t e) w (\<lambda>p w'. \<exists>w2. only (\<lambda>k. k = comps (e_dbfilepath e)) w w2 \<and> released_to e f t (files w2) (files w'))
     (\<lambda>w'. \<exists>w2. only (\<lambda>k. k = comps (e_dbfilepath e)) w w2 \<and> (files w' = files w2 \<or> released_to e f t (files w2) (files w')))"
  unfolding release_def ends_sequence
proof (rule ends_quiet [OF same_calls(2)])
  fix now :: int and w1 :: world assume w1: "files w1 = files w"
  have o: "keeps (only (\<lambda>k. k = comps (e_dbfilepath e))) (writeEntry y False (e\<lparr>e_released := now\<rparr>))"
    by (rule only_writeEntry) simp
  have target: "released_to (e\<lparr>e_released := now\<rparr>) f t fs fs' = released_to e f t fs fs'" for fs fs'
    by (simp add: released_to_def release_target_def)
  show "ends (writeEntry y False (e\<lparr>e_released := now\<rparr>)) w1
     (\<lambda>a w'. ends (fs_config_or_exit (db_config (e_parent e)) (e_filesystem e)) w'
        (\<lambda>g w'. ends (release_as (e\<lparr>e_released := now\<rparr>) g t) w'
           (\<lambda>p w'. \<exists>w2. only (\<lambda>k. k = comps (e_dbfilepath e)) w w2 \<and> released_to e f t (files w2) (files w'))
           (\<lambda>w'. \<exists>w2. only (\<lambda>k. k = comps (e_dbfilepath e)) w w2 \<and> (files w' = files w2 \<or> released_to e f t (files w2) (files w'))))
        (\<lambda>w'. \<exists>w2. only (\<lambda>k. k = comps (e_dbfilepath e)) w w2 \<and> (files w' = files w2 \<or> released_to e f t (files w2) (files w'))))
     (\<lambda>w'. \<exists>w2. only (\<lambda>k. k = comps (e_dbfilepath e)) w w2 \<and> (files w' = files w2 \<or> released_to e f t (files w2) (files w')))"
  proof (rule ends_keeps [OF o])
    fix w2 :: world assume "only (\<lambda>k. k = comps (e_dbfilepath e)) w1 w2"
    then have w2: "only (\<lambda>k. k = comps (e_dbfilepath e)) w w2" by (simp add: only_def w1)
    then show "\<exists>w2'. only (\<lambda>k. k = comps (e_dbfilepath e)) w w2' \<and> (files w2 = files w2' \<or> released_to e f t (files w2') (files w2))"
      by blast
    show "ends (fs_config_or_exit (db_config (e_parent e)) (e_filesystem e)) w2
        (\<lambda>g w'. ends (release_as (e\<lparr>e_released := now\<rparr>) g t) w'
           (\<lambda>p w'. \<exists>w2. only (\<lambda>k. k = comps (e_dbfilepath e)) w w2 \<and> released_to e f t (files w2) (files w'))
           (\<lambda>w'. \<exists>w2. only (\<lambda>k. k = comps (e_dbfilepath e)) w w2 \<and> (files w' = files w2 \<or> released_to e f t (files w2) (files w'))))
        (\<lambda>w'. \<exists>w2. only (\<lambda>k. k = comps (e_dbfilepath e)) w w2 \<and> (files w' = files w2 \<or> released_to e f t (files w2) (files w')))"
      unfolding fs_config_or_exit_def assms option.case ends_sequence
      by (rule ends_mono [OF release_as_ends]) (use w2 in \<open>auto simp: target\<close>)
  qed
qed (auto intro: exI [of _ w] simp: only_def)

text \<open>A successful release, and what it leaves in the deleted area.\<close>

lemma ready_exists:
  assumes "ready cs fs w" and "\<And>w'. ready cs fs w' \<Longrightarrow> Q (follow 40 fs (comps p) \<noteq> None) w'"
  shows "returns (fs_exists p) w Q"
  unfolding fs_exists_def fs_status_def sys_stat_def returns_let
proof (rule ready_call [OF assms(1)])
  fix w' assume r: "ready cs fs w'"
  then have "files w' = fs" by (simp add: ready_def)
  with assms(2) [OF r] show "returns (case None of None \<Rightarrow> get_io (\<lambda>w. case follow 40 (files w) (comps p) of
        None \<Rightarrow> Inl ENOENT | Some (k, i) \<Rightarrow> Inr i) | Some e \<Rightarrow> ret (Inl e)) w'
      (\<lambda>r w'. returns (case r of Inl e \<Rightarrow> if e = ENOENT \<or> e = ENOTDIR then ret None else throw (Filesystem_error e)
         | Inr i \<Rightarrow> ret (Some i)) w' (\<lambda>r w'. returns (ret (r \<noteq> None)) w' Q))"
    by (auto simp: returns_get returns_ret split: option.splits)
qed

section \<open>Renaming a deleted entry\<close>

lemma acts_taken:
  assumes "acts cs ft fs w" and "\<And>w'. acts cs ft fs w' \<Longrightarrow> Q (map_of fs (comps p) \<noteq> None) w'"
    and "\<And>w'. acts cs ft fs w' \<Longrightarrow> F w'"
  shows "ends (nameTaken p) w Q F"
  unfolding nameTaken_def ends_let
  by (rule acts_lstat [OF assms(1)]) (use assms(2,3) in \<open>auto simp: ends_simple split: option.splits\<close>)

lemma acts_refuse:
  assumes "acts cs ft fs w" and "\<And>w'. acts cs ft fs w' \<Longrightarrow> map_of fs (comps p) = None \<Longrightarrow> Q () w'"
    and "\<And>w'. acts cs ft fs w' \<Longrightarrow> F w'"
  shows "ends (refuse_if_taken p) w Q F"
  unfolding refuse_if_taken_def ends_let
  by (rule acts_taken [OF assms(1)]) (use assms(2,3) in \<open>auto simp: ends_simple\<close>)

lemma acts_renameDBFile:
  assumes "acts db_caps ft fs w"
    and "\<And>fs' w'. rename_rule (comps a) (comps b) fs = Inr fs' \<Longrightarrow> acts db_caps ft fs' w' \<Longrightarrow> Q () w'"
    and "\<And>e w'. acts db_caps ft fs w' \<Longrightarrow> rename_rule (comps a) (comps b) fs = Inl e \<or> (\<exists>n t. ft n Sys_rename (comps a) = Some t) \<Longrightarrow> F w'"
  shows "ends (renameDBFile c a b) w Q F"
  unfolding renameDBFile_def seqs_io.simps ends_let ends_seq
proof (rule acts_caps(1) [OF assms(1)], rule acts_caps(3), assumption, rule acts_rename, assumption, goal_cases)
  case (1 w1 w2 fs' w3)
  show ?case by (rule acts_caps(2) [OF 1(4)]) (simp add: ok_def ends_simple assms(2) [OF 1(3)])
next
  case (2 w1 w2 e w3)
  show ?case by (rule acts_caps(2) [OF 2(3)]) (use 2(4) assms(3) in \<open>auto simp: ok_def ends_simple\<close>)
qed simp

lemma acts_renameWorkspaceDir:
  assumes "acts db_caps ft fs w"
    and "\<And>fs' w'. rename_rule (comps a) (comps b) fs = Inr fs' \<Longrightarrow> acts db_caps ft fs' w' \<Longrightarrow> Q None w'"
    and "\<And>e w'. acts db_caps ft fs w' \<Longrightarrow> rename_rule (comps a) (comps b) fs = Inl e \<or> (\<exists>n t. ft n Sys_rename (comps a) = Some t) \<Longrightarrow> Q (Some e) w'"
  shows "ends (renameWorkspaceDir c a b) w Q F"
  unfolding renameWorkspaceDir_def ends_let ends_seq
proof (rule acts_caps(1) [OF assms(1)], rule acts_rename, assumption, goal_cases)
  case (1 w2 fs' w3)
  show ?case by (rule acts_caps(2) [OF 1(3)]) (simp add: ends_simple assms(2) [OF 1(2)])
next
  case (2 w2 e w3)
  show ?case by (rule acts_caps(2) [OF 2(2)]) (use 2(3) assms(3) in \<open>simp add: ends_simple\<close>)
qed simp

text \<open>Renaming an existing file to a free name in its own directory.\<close>

lemma rename_sibling:
  assumes "tree_ok fs" and "map_of fs (d @ [m]) \<noteq> None" and "map_of fs (d @ [n]) = None"
  shows "rename_rule (d @ [m]) (d @ [n]) fs = Inr (fs_move (d @ [m]) (d @ [n]) fs)"
proof -
  obtain i where i: "map_of fs (d @ [m]) = Some i" using assms(2) by auto
  have "dir_at fs d" using tree_ok_entry(3) [OF assms(1) map_of_SomeD [OF i]] by auto
  with i assms(3) show ?thesis by (intro rename_to_free) auto
qed

lemma rename_siblings_move:
  assumes "rename_rule (d @ [m]) (d @ [n]) fs = Inr fs'" and "m \<noteq> n"
  shows "fs' = fs_move (d @ [m]) (d @ [n]) fs" and "map_of fs (d @ [m]) \<noteq> None"
  using assms by (auto simp: rename_rule_def split: option.splits if_splits)

text \<open>Two directories neither of which contains the other; a rename inside one leaves the other alone.\<close>

definition apart :: "key \<Rightarrow> key \<Rightarrow> bool" where
  "apart d d' \<longleftrightarrow> \<not> prefix d d' \<and> \<not> prefix d' d"

lemma apart_append: "apart d d' \<Longrightarrow> \<not> prefix (d @ r) (d' @ r')" "apart d d' \<Longrightarrow> \<not> prefix (d' @ r) (d @ r')"
  unfolding apart_def by (metis append_prefixD prefixI prefix_order.trans prefix_same_cases)+

lemma sibling_no_prefix: "m \<noteq> n \<Longrightarrow> \<not> prefix (d @ [m]) (d @ [n])"
  by simp

lemma move_elsewhere:
  assumes "apart d d'" and "m \<noteq> n"
  shows "map_of (fs_move (d @ [m]) (d @ [n]) fs) (d' @ r) = map_of fs (d' @ r)"
  by (rule map_of_move(3) [OF no_common_extension])
     (use assms sibling_no_prefix [of m n d] sibling_no_prefix [of n m d] apart_append [OF assms(1)] in auto)

lemma rename_after_move:
  assumes t: "tree_ok fs" and a: "apart d d'" and n: "m \<noteq> n" "m' \<noteq> n'"
    and x: "map_of fs (d' @ [m']) \<noteq> None" "map_of fs (d' @ [n']) = None"
  shows "rename_rule (d' @ [m']) (d' @ [n']) (fs_move (d @ [m]) (d @ [n]) fs)
     = Inr (fs_move (d' @ [m']) (d' @ [n']) (fs_move (d @ [m]) (d @ [n]) fs))"
proof -
  obtain i where i: "map_of fs (d' @ [m']) = Some i" using x(1) by auto
  have "dir_at fs d'" using tree_ok_entry(3) [OF t map_of_SomeD [OF i]] by auto
  then have "dir_at (fs_move (d @ [m]) (d @ [n]) fs) d'"
    using move_elsewhere [OF a n(1), of fs "[]"] by (simp add: dir_at_def)
  with i x(2) n(2) show ?thesis
    by (intro rename_to_free) (auto simp: move_elsewhere [OF a n(1)])
qed

lemma rename_undone:
  assumes t: "tree_ok fs" and n: "m \<noteq> n" and x: "map_of fs (d @ [m]) \<noteq> None" "map_of fs (d @ [n]) = None"
  defines "fs1 \<equiv> fs_move (d @ [m]) (d @ [n]) fs"
  shows "rename_rule (d @ [n]) (d @ [m]) fs1 = Inr (fs_move (d @ [n]) (d @ [m]) fs1)"
    and "map_of (fs_move (d @ [n]) (d @ [m]) fs1) k = map_of fs k"
proof -
  note no = no_common_extension [OF sibling_no_prefix [OF n] sibling_no_prefix [OF n [symmetric]], of d]
  note no' = no_common_extension [OF sibling_no_prefix [OF n [symmetric]] sibling_no_prefix [OF n], of d]
  note there = map_of_move [OF no, where fs = fs, folded fs1_def]
  note here = map_of_move [OF no', where fs = fs1]
  obtain i where i: "map_of fs (d @ [m]) = Some i" using x(1) by auto
  have d: "dir_at fs d" using tree_ok_entry(3) [OF t map_of_SomeD [OF i]] by auto
  have "map_of fs1 d = map_of fs d" by (rule there(3)) auto
  with d have d1: "dir_at fs1 d" by (simp add: dir_at_def)
  show "rename_rule (d @ [n]) (d @ [m]) fs1 = Inr (fs_move (d @ [n]) (d @ [m]) fs1)"
    by (rule rename_to_free) (use there(1) [of "[]"] there(2) [of "d @ [m]"] i d1 n in auto)
  show "map_of (fs_move (d @ [n]) (d @ [m]) fs1) k = map_of fs k"
  proof -
    consider (old) r where "k = (d @ [m]) @ r" | (new) "prefix (d @ [n]) k" | (other) "\<not> prefix (d @ [m]) k" "\<not> prefix (d @ [n]) k"
      by (auto simp: prefix_def)
    then show ?thesis
    proof cases
      case old
      then show ?thesis using here(1) [of r] there(1) [of r] by simp
    next
      case new
      with tree_ok_absent [OF t x(2) _ new] here(2) show ?thesis by simp
    next
      case other
      then show ?thesis using here(3) there(3) by simp
    qed
  qed
qed

text \<open>How a renaming of the entry \<open>i\<close> and its directory to \<open>j\<close> can end: done, or not, in which case nothing is different
  unless the rename of the directory and the rename back of the entry have both failed.\<close>

definition renamed :: "files \<Rightarrow> key \<Rightarrow> key \<Rightarrow> string \<Rightarrow> string \<Rightarrow> entry \<Rightarrow> world \<Rightarrow> bool" where
  "renamed fs dbd wsd i j e w \<longleftrightarrow> e_id e = j \<and> comps (e_dbfilepath e) = dbd @ [j] \<and>
     map_of fs (dbd @ [j]) = None \<and> map_of fs (wsd @ [j]) = None \<and>
     files w = (if map_of fs (wsd @ [i]) = None then fs_move (dbd @ [i]) (dbd @ [j]) fs
       else fs_move (wsd @ [i]) (wsd @ [j]) (fs_move (dbd @ [i]) (dbd @ [j]) fs))"

definition unrenamed :: "(nat \<Rightarrow> sysop \<Rightarrow> key \<Rightarrow> trouble option) \<Rightarrow> files \<Rightarrow> key \<Rightarrow> key \<Rightarrow> string \<Rightarrow> string \<Rightarrow> world \<Rightarrow> bool" where
  "unrenamed ft fs dbd wsd i j w \<longleftrightarrow> (\<forall>k. map_of (files w) k = map_of fs k) \<or>
     files w = fs_move (dbd @ [i]) (dbd @ [j]) fs \<and>
       (\<exists>n t. ft n Sys_rename (wsd @ [i]) = Some t) \<and> (\<exists>n t. ft n Sys_rename (dbd @ [j]) = Some t)"

lemma unrenamed_start: "acts db_caps ft fs w \<Longrightarrow> unrenamed ft fs dbd wsd i j w"
  by (simp add: unrenamed_def acts_def)

text \<open>The directory follows the entry, or the entry goes back.\<close>

lemma rename_back_ends:
  assumes t: "tree_ok fs" and n: "i \<noteq> j" and old: "map_of fs (dbd @ [i]) \<noteq> None" and free: "map_of fs (dbd @ [j]) = None"
    and w: "acts db_caps ft (fs_move (dbd @ [i]) (dbd @ [j]) fs) w" and c: "comps a = dbd @ [j]" "comps b = dbd @ [i]"
    and stuck: "\<exists>n t. ft n Sys_rename (wsd @ [i]) = Some t"
  shows "ends (seq_io (renameDBFile cf a b) (throw DatabaseException)) w Q (unrenamed ft fs dbd wsd i j)"
proof -
  note undone = rename_undone [OF t n old free]
  have "ends (renameDBFile cf a b) w (\<lambda>u. unrenamed ft fs dbd wsd i j) (unrenamed ft fs dbd wsd i j)"
  proof (rule acts_renameDBFile [OF w], goal_cases)
    case (1 fs'' w6)
    with undone show ?case by (simp add: c unrenamed_def acts_def)
  next
    case (2 er w6)
    with undone(1) stuck show ?case by (simp add: c unrenamed_def acts_def)
  qed
  then show ?thesis by (simp add: ends_sequence)
qed

lemma rename_both_ends:
  fixes e f new_id
  defines "dbd \<equiv> comps (db_deleted_dir f)" and "wsd \<equiv> comps (ws_deleted_dir (e_workspace e) f)"
  assumes w: "acts db_caps ft fs w" and t: "tree_ok fs" and ids: "one_comp (e_id e)" "one_comp new_id" and n: "e_id e \<noteq> new_id"
    and path: "comps (e_dbfilepath e) = dbd @ [e_id e]" and apart: "apart dbd wsd"
  shows "ends (rename_both e f new_id) w (renamed fs dbd wsd (e_id e) new_id) (unrenamed ft fs dbd wsd (e_id e) new_id)"
proof -
  let ?Q = "renamed fs dbd wsd (e_id e) new_id" and ?F = "unrenamed ft fs dbd wsd (e_id e) new_id"
  have c: "comps (path_append (db_deleted_dir f) new_id) = dbd @ [new_id]"
      "comps (path_append (ws_deleted_dir (e_workspace e) f) (e_id e)) = wsd @ [e_id e]"
      "comps (path_append (ws_deleted_dir (e_workspace e) f) new_id) = wsd @ [new_id]"
    using ids by (simp_all add: dbd_def wsd_def comps_append_one)
  show ?thesis
    unfolding rename_both_def Let_def seqs_io.simps ends_let ends_seq
  proof (rule acts_refuse [OF w], rule acts_refuse, assumption, rule acts_taken, assumption, goal_cases)
    case (1 w1 w2 w3)
    note free = 1(2) [unfolded c] 1(4) [unfolded c]
    show ?case
    proof (rule acts_renameDBFile [OF 1(5)], goal_cases)
      case (1 fs' w4)
      from 1(1) have m: "rename_rule (dbd @ [e_id e]) (dbd @ [new_id]) fs = Inr fs'" by (simp add: c path)
      note fs' = rename_siblings_move [OF m n]
      show ?case
      proof (cases "map_of fs (wsd @ [e_id e]) = None")
        case True
        with 1(2) fs' free show ?thesis by (simp add: c ends_simple acts_def renamed_def)
      next
        case False
        note wm = rename_after_move [OF t apart n n False free(2)]
        have "ends (let_io (renameWorkspaceDir (db_config (e_parent e)) (path_append (ws_deleted_dir (e_workspace e) f) (e_id e)) (path_append (ws_deleted_dir (e_workspace e) f) new_id))
            (\<lambda>ec. if ok ec then ret (e\<lparr>e_dbfilepath := path_append (db_deleted_dir f) new_id, e_id := new_id\<rparr>)
                  else seq_io (renameDBFile (db_config (e_parent e)) (path_append (db_deleted_dir f) new_id) (e_dbfilepath e)) (throw DatabaseException))) w4 ?Q ?F"
          unfolding ends_let
        proof (rule acts_renameWorkspaceDir [OF 1(2)], goal_cases)
          case (1 fs'' w5)
          with wm fs' free False show ?case by (auto simp: c ok_def ends_simple acts_def renamed_def)
        next
          case (2 er w5)
          then have "\<exists>n t. ft n Sys_rename (wsd @ [e_id e]) = Some t" using wm fs'(1) by (simp add: c)
          then show ?case
            using rename_back_ends [OF t n fs'(2) free(1) 2(1) [unfolded fs'(1)] c(1) path] by (simp add: ok_def)
        qed
        with False show ?thesis by (simp add: c)
      qed
    qed (use unrenamed_start in blast)
  qed (use unrenamed_start in blast)+
qed

section \<open>Making a workspace directory\<close>

lemma settings_make: "keeps same_setup (set_umask m)" "keeps same_setup (fs_create_directories p)"
    "keeps same_setup (make_wsdir p u)" "keeps same_setup (open_directory p)" "keeps same_setup (space_at ps i)"
    "keeps same_setup (select_space f)"
proof -
  show u: "keeps same_setup (set_umask m)" for m by (simp add: set_umask_def keeps_def put_io_def same_setup_def)
  have one: "keeps same_setup (create_one p)" for p
    unfolding create_one_def or_throw_def by (intro settings.all_calls TrueI)
  show d: "keeps same_setup (fs_create_directories p)" for p
    unfolding fs_create_directories_def by (intro settings.all_calls one)
  show "keeps same_setup (make_wsdir p u)"
    unfolding make_wsdir_def
    by (intro settings.all_calls TrueI) (auto intro!: settings.all_calls u d split: exn.split)
  show "keeps same_setup (open_directory p)"
    unfolding open_directory_def by (intro settings.all_calls TrueI)
  show "keeps same_setup (space_at ps i)" unfolding space_at_def by (intro settings.rules)
  show "keeps same_setup (select_space f)"
    unfolding select_space_def Let_def getuid_def getgid_def by (intro settings.all_calls)
qed

lemma ends_any: "(\<And>a w'. m w = (Done a, w') \<Longrightarrow> Q a w') \<Longrightarrow> ends m w Q (\<lambda>w. True)"
  by (auto simp: ends_def split: prod.splits outcome.splits)

lemma endsDone: "m w = (Done a, w') \<Longrightarrow> ends m w Q F \<Longrightarrow> Q a w'"
  by (simp add: ends_def)

lemma space_at_Done: "space_at ps i w = (Done p, w') \<Longrightarrow> p \<in> set ps \<and> w' = w"
  by (auto simp: space_at_def ret_Done split: if_splits)

lemma open_directory_Done:
  "open_directory p w = (Done True, w') \<Longrightarrow> \<exists>i. map_of (files w') (comps p) = Some i \<and> is_dir i"
  by (auto simp: open_directory_def sys_call_def io_defs ok_def split: option.splits if_splits)

lemma sys_fchown_Done:
  "sys_fchown p u g w = (Done None, w') \<Longrightarrow> map_of (files w) (comps p) = Some i \<Longrightarrow>
     map_of (files w') (comps p) = Some (i\<lparr>owner := u, group_owner := g\<rparr>)"
  by (auto simp: sys_fchown_def change_files_run sys_call_def update_inode_def map_of_put split: option.splits)

lemma sys_fchmod_Done:
  "sys_fchmod p m w = (Done None, w') \<Longrightarrow> map_of (files w) (comps p) = Some i \<Longrightarrow>
     map_of (files w') (comps p) = Some (i\<lparr>mode := m\<rparr>)"
  by (auto simp: sys_fchmod_def change_files_run sys_call_def update_inode_def map_of_put split: option.splits)

lemma raise_Done:
  assumes "raise_cap cs w = (r, w')"
  shows "files w' = files w" and "same_setup w w'"
  using same_filesD [OF same.cap_calls(1) assms] keepsD [OF settings.cap_calls(1) assms] .

lemma lower_Done:
  assumes "lower_cap cs u w = (r, w')"
  shows "files w' = files w" and "same_setup w w'"
  using same_filesD [OF same.cap_calls(2) assms] keepsD [OF settings.cap_calls(2) assms] .

lemma ok_iff: "ok r \<longleftrightarrow> r = None"
  by (simp add: ok_def)

lemma give_up_Done: "give_up p w \<noteq> (Done a, w')"
  by (auto simp: give_up_def let_io_Done)

lemma target_ids_Done:
  assumes "target_ids user_option groupname u w = (Done ids, w')"
  shows "Some (fst ids) = (if user_option = [] then Some u else map_option pw_uid (getpwnam (accounts w) user_option))"
    and "Some (snd ids) = (if groupname \<noteq> [] then getgrnam (accounts w) groupname
      else if user_option = [] then Some (rgid (cred w)) else map_option pw_gid (getpwnam (accounts w) user_option))"
    and "w' = w"
  using assms by (auto simp: target_ids_def Done_iffs getgid_def not_null_Done split: if_splits)

lemma hand_over_Done:
  assumes "hand_over wsdir ids m duid w = (Done p, w')" and i: "map_of (files w) (comps wsdir) = Some i"
  shows "map_of (files w') (comps wsdir) = Some (i\<lparr>owner := fst ids, group_owner := snd ids, mode := m\<rparr>)" and "p = wsdir"
proof -
  from assms(1) obtain w3 w4 w5 w6 w7 where
    run: "raise_cap [CAP_CHOWN] w = (Done (), w3)" "sys_fchown wsdir (fst ids) (snd ids) w3 = (Done None, w4)"
      "lower_cap [CAP_CHOWN] duid w4 = (Done (), w5)" "raise_cap [CAP_FOWNER] w5 = (Done (), w6)"
      "sys_fchmod wsdir m w6 = (Done None, w7)" "lower_cap [CAP_FOWNER] duid w7 = (Done (), w')" and p: "p = wsdir"
    by (auto simp: hand_over_def Done_iffs give_up_Done ok_iff split: if_splits)
  show "map_of (files w') (comps wsdir) = Some (i\<lparr>owner := fst ids, group_owner := snd ids, mode := m\<rparr>)"
    using i sys_fchown_Done [OF run(2), of i] sys_fchmod_Done [OF run(5)]
      raise_Done(1) [OF run(1)] lower_Done(1) [OF run(3)] raise_Done(1) [OF run(4)] lower_Done(1) [OF run(6)] by simp
  show "p = wsdir" by (rule p)
qed

lemma make_workspace_Done:
  assumes "make_workspace wsdir user_option groupname m u duid w = (Done p, w')"
  obtains i where "p = wsdir" "map_of (files w') (comps wsdir) = Some i" "is_dir i" "mode i = m"
    "Some (owner i) = (if user_option = [] then Some u else map_option pw_uid (getpwnam (accounts w) user_option))"
    "Some (group_owner i) = (if groupname \<noteq> [] then getgrnam (accounts w) groupname
      else if user_option = [] then Some (rgid (cred w)) else map_option pw_gid (getpwnam (accounts w) user_option))"
proof -
  from assms obtain w2 w3 w4 w5 ids w6 where run: "make_wsdir wsdir duid w = (Done (), w2)"
      "raise_cap [CAP_DAC_OVERRIDE] w2 = (Done (), w3)" "open_directory wsdir w3 = (Done True, w4)"
      "lower_cap [CAP_DAC_OVERRIDE] duid w4 = (Done (), w5)" "target_ids user_option groupname u w5 = (Done ids, w6)"
      "hand_over wsdir ids m duid w6 = (Done p, w')"
    by (auto simp: make_workspace_def Done_iffs give_up_Done split: if_splits)
  obtain i where i: "map_of (files w4) (comps wsdir) = Some i" "is_dir i"
    using open_directory_Done [OF run(3)] by auto
  have "same_setup w w5"
    using keepsD [OF settings_make(3) run(1)] raise_Done(2) [OF run(2)] keepsD [OF settings_make(4) run(3)] lower_Done(2) [OF run(4)]
    by (meson settings.trans)
  then have acc: "accounts w5 = accounts w" "rgid (cred w5) = rgid (cred w)" by (simp_all add: same_setup_def)
  note ids = target_ids_Done [OF run(5), unfolded acc]
  from i(1) ids(3) lower_Done(1) [OF run(4)] have "map_of (files w6) (comps wsdir) = Some i" by simp
  from hand_over_Done [OF run(6) this] ids(1,2) i(2) show thesis
    by (intro that [of "i\<lparr>owner := fst ids, group_owner := snd ids, mode := m\<rparr>"]) (simp_all add: is_dir_def)
qed

lemma createWorkspace_Done:
  assumes "createWorkspace db name user_option groupflag groupwritable groupname w = (Done p, w')"
  shows "\<exists>f space pw i. getFsConfig (db_config db) (db_fs db) = Some f \<and> space \<in> set (fs_spaces f) \<and>
    getpwuid (accounts w) (ruid (cred w)) = Some pw \<and>
    p = workspace_path name user_option (pw_name pw) (ruid (cred w)) space \<and>
    map_of (files w') (comps p) = Some i \<and> is_dir i \<and> mode i = workspace_mode groupflag groupwritable \<and>
    Some (owner i) = (if user_option = [] then Some (ruid (cred w)) else map_option pw_uid (getpwnam (accounts w) user_option)) \<and>
    Some (group_owner i) = (if groupname \<noteq> [] then getgrnam (accounts w) groupname
      else if user_option = [] then Some (rgid (cred w)) else map_option pw_gid (getpwnam (accounts w) user_option))"
proof -
  from assms obtain pw f spaceid space w1 where pw: "getpwuid (accounts w) (ruid (cred w)) = Some pw"
    and f: "getFsConfig (db_config db) (db_fs db) = Some f" and sel: "select_space f w = (Done spaceid, w1)"
    and space: "space \<in> set (fs_spaces f)"
    and run: "make_workspace (workspace_path name user_option (pw_name pw) (ruid (cred w1)) space) user_option groupname
       (workspace_mode groupflag groupwritable) (ruid (cred w1)) (dbuid (global (db_config db))) w1 = (Done p, w')"
    by (auto simp: createWorkspace_def let_io_Done getuid_def get_io_Done fs_config_Done getUsername_run
        dest!: space_at_Done split: option.splits)
  have w1: "accounts w1 = accounts w" "ruid (cred w1) = ruid (cred w)" "rgid (cred w1) = rgid (cred w)"
    using keepsD [OF settings_make(6) sel] by (simp_all add: same_setup_def)
  from run show ?thesis unfolding w1
    by (rule make_workspace_Done) (use f space pw w1 in auto)
qed

section \<open>Properties\<close>

text \<open>C2. Expiring an entry never harms another file: whichever calls fail and however the run ends,
  every file outside the path of the entry itself is still there, unchanged. In particular no earlier
  entry of the deleted area is overwritten, even when the same id was expired in the same second.\<close>

theorem expire_keeps_others:
  assumes "tree_ok (files w)" and "one_comp (e_id e)"
    and "\<not> prefix (comps (e_dbfilepath e)) k" and "map_of (files w) k = Some i"
  shows "map_of (files (snd (expire y timestamp e w))) k = Some i"
proof -
  obtain r w' where run: "expire y timestamp e w = (r, w')" by force
  then show ?thesis
  proof (cases rule: expire_steps)
    case nothing
    with run assms(4) show ?thesis by simp
  next
    case (written f b n w2)
    let ?target = "comps (path_append (db_deleted_dir f) (stamped (e_id e) (b + int n)))"
    have c: "?target \<noteq> []" by (simp add: stamped_comps [OF assms(2)])
    from written(7) show ?thesis
    proof
      assume "files w' = files w2 \<and> (\<forall>a. r \<noteq> Done a)"
      moreover have "k \<noteq> comps (e_dbfilepath e)" using assms(3) by auto
      ultimately show ?thesis using written(6) run assms(4) by (simp add: only_def)
    next
      assume "rename_rule (comps (e_dbfilepath e)) ?target (files w2) = Inr (files w') \<and>
        (\<exists>now. r = Done (show_int (b + int n), e\<lparr>e_expired := now,
           e_dbfilepath := path_append (db_deleted_dir f) (stamped (e_id e) (b + int n))\<rparr>))"
      then have m: "rename_rule (comps (e_dbfilepath e)) ?target (files w2) = Inr (files w')" ..
      have free: "map_of (files w) ?target = None" using written(4) by (simp add: free_stamp_def)
      from retire_keeps [OF assms(1) free c written(6) m assms(3,4)] run show ?thesis by simp
    qed
  qed
qed

lemma example_tree_ok: "tree_ok example_files"
  by code_simp

lemma example_fs_config: "getFsConfig (db_config (e_parent example_entry)) (e_filesystem example_entry) = Some (example_fs [] [])"
  by (simp add: example_entry_def example_config_def getFsConfig_def blank_entry_def config_initial_def)

lemma expire_keeps_others_witness:
  "map_of (files (snd (expire simple_ryml ''17'' example_entry (example_world example_files)))) [''ws'', ''alice-run1'', ''data'']
     = Some (example_inode (Reg ''results''))"
proof (rule expire_keeps_others)
  show "tree_ok (files (example_world example_files))" by (simp add: example_files_simps example_tree_ok)
  show "one_comp (e_id example_entry)" by code_simp
  show "\<not> prefix (comps (e_dbfilepath example_entry)) [''ws'', ''alice-run1'', ''data'']" by code_simp
  show "map_of (files (example_world example_files)) [''ws'', ''alice-run1'', ''data''] = Some (example_inode (Reg ''results''))"
    by (simp add: example_files_simps) code_simp
qed

text \<open>Releasing a workspace never harms another file either, whichever calls fail, as long as at
  most the first of the two names it tries is taken (and not by a symbolic link).\<close>

theorem release_keeps_others:
  assumes "tree_ok (files w)" and "one_comp (e_id e)"
    and "getFsConfig (db_config (e_parent e)) (e_filesystem e) = Some f"
    and "\<not> prefix (comps (e_dbfilepath e)) (comps (release_target e f t))"
    and "map_of (files w) (comps (release_target e f t)) = None \<or>
      (\<exists>j. map_of (files w) (comps (release_target e f t)) = Some j \<and> \<not> is_link j) \<and>
      map_of (files w) (comps (release_target e f (t + 1))) = None"
    and "\<not> prefix (comps (e_dbfilepath e)) k" and "map_of (files w) k = Some i"
  shows "map_of (files (snd (release y t e w))) k = Some i"
proof -
  let ?own = "comps (e_dbfilepath e)" and ?target = "\<lambda>t. comps (release_target e f t)"
  have keep: "map_of fs' k = Some i" if w2: "only (\<lambda>k. k = ?own) w w2" and r: "released_to e f t (files w2) fs'" for w2 fs'
  proof -
    have same: "map_of (files w2) (?target t) = map_of (files w) (?target t)" using w2 assms(4) by (auto simp: only_def)
    have "\<exists>t'. map_of (files w) (?target t') = None \<and> rename_rule ?own (?target t') (files w2) = Inr fs'"
    proof (cases "map_of (files w) (?target t)")
      case None
      then have "follow 40 (files w2) (?target t) = None" using same by (simp add: eval_nat_numeral)
      with r None show ?thesis by (auto simp: released_to_def)
    next
      case (Some j)
      with assms(5) have "\<not> is_link j" and free: "map_of (files w) (?target (t + 1)) = None" by auto
      with same Some have "follow 40 (files w2) (?target t) \<noteq> None"
        by (auto simp: eval_nat_numeral is_link_def split: kind.splits)
      with r free show ?thesis by (auto simp: released_to_def)
    qed
    then obtain t' where free: "map_of (files w) (?target t') = None" and m: "rename_rule ?own (?target t') (files w2) = Inr fs'" by blast
    have c: "?target t' \<noteq> []" by (simp add: release_target_def stamped_comps [OF assms(2)])
    show ?thesis by (rule retire_keeps [OF assms(1) free c w2 m assms(6,7)])
  qed
  have quiet: "map_of fs' k = Some i" if "only (\<lambda>k. k = ?own) w w2" "fs' = files w2" for w2 fs'
    using that assms(6,7) by (auto simp: only_def)
  obtain r w' where run: "release y t e w = (r, w')" by force
  from endsD [OF release_ends [OF assms(3), of y t w] run] show ?thesis
    using keep quiet run by auto
qed

lemma release_keeps_others_witness:
  "map_of (files (snd (release simple_ryml 17 example_entry (example_world example_files)))) [''ws'', ''alice-run1'', ''data'']
     = Some (example_inode (Reg ''results''))"
proof (rule release_keeps_others [where f = "example_fs [] []"])
  show "tree_ok (files (example_world example_files))" by (simp add: example_files_simps example_tree_ok)
  show "one_comp (e_id example_entry)" by code_simp
  show "getFsConfig (db_config (e_parent example_entry)) (e_filesystem example_entry) = Some (example_fs [] [])" by (rule example_fs_config)
  show "\<not> prefix (comps (e_dbfilepath example_entry)) (comps (release_target example_entry (example_fs [] []) 17))" by code_simp
  have "map_of example_files (comps (release_target example_entry (example_fs [] []) 17)) = None" by code_simp
  then show "map_of (files (example_world example_files)) (comps (release_target example_entry (example_fs [] []) 17)) = None \<or>
      (\<exists>j. map_of (files (example_world example_files)) (comps (release_target example_entry (example_fs [] []) 17)) = Some j \<and> \<not> is_link j) \<and>
      map_of (files (example_world example_files)) (comps (release_target example_entry (example_fs [] []) (17 + 1))) = None"
    by (simp add: example_files_simps)
  show "\<not> prefix (comps (e_dbfilepath example_entry)) [''ws'', ''alice-run1'', ''data'']" by code_simp
  show "map_of (files (example_world example_files)) [''ws'', ''alice-run1'', ''data''] = Some (example_inode (Reg ''results''))"
    by (simp add: example_files_simps) code_simp
qed

text \<open>The second name is not looked at: when both names are taken by entries released earlier, a
  release succeeds, and the earlier entry under the second name is replaced by the new one.\<close>

theorem release_replaces_second_name:
  assumes "ready db_caps fs w" and "writable fs (comps (e_dbfilepath e))" and "one_comp (e_id e)"
    and "getFsConfig (db_config (e_parent e)) (e_filesystem e) = Some f"
    and "map_of fs (comps (release_target e f t)) = Some i" and "\<not> is_link i"
    and "map_of fs (comps (release_target e f (t + 1))) = Some (j :: inode)" and "is_reg j"
    and "dir_at fs (comps (db_deleted_dir f))"
    and "comps (e_dbfilepath e) \<noteq> comps (release_target e f t)"
    and "\<not> prefix (comps (e_dbfilepath e)) (comps (release_target e f (t + 1)))"
    and "\<not> prefix (comps (release_target e f (t + 1))) (comps (e_dbfilepath e))"
  shows "\<exists>e' w' now j'. release y t e w = (Done (t + 1, e'), w') \<and>
    map_of (files w') (comps (release_target e f (t + 1))) = Some j' \<and> kind j' = Reg (entry_text y (e\<lparr>e_released := now\<rparr>)) \<and>
    e_dbfilepath e' = release_target e f (t + 1) \<and> map_of (files w') (comps (e_dbfilepath e)) = None"
proof -
  let ?own = "comps (e_dbfilepath e)" and ?second = "comps (release_target e f (t + 1))"
  let ?P = "\<lambda>p w'. \<exists>now j'. fst p = t + 1 \<and>
    map_of (files w') ?second = Some j' \<and> kind j' = Reg (entry_text y (e\<lparr>e_released := now\<rparr>)) \<and>
    e_dbfilepath (snd p) = release_target e f (t + 1) \<and> map_of (files w') ?own = None"
  have c: "butlast ?second = comps (db_deleted_dir f)" "?second \<noteq> []" by (simp_all add: release_target_def stamped_comps [OF assms(3)])
  have tg: "release_target (e\<lparr>e_released := now\<rparr>) f t' = release_target e f t'" for now t'
    by (simp add: release_target_def)
  have step: "returns (release_as (e\<lparr>e_released := now\<rparr>) f t) w2 ?P"
    if k: "kind n = Reg (entry_text y (e\<lparr>e_released := now\<rparr>))" and w2: "ready db_caps (fs_put ?own n fs) w2" for now n w2
  proof -
    let ?fs = "fs_put ?own n fs"
    have there: "follow 40 ?fs (comps (release_target e f t)) \<noteq> None"
      using assms(5,6,10) by (auto simp: eval_nat_numeral is_link_def map_of_put split: kind.splits)
    have m: "rename_rule ?own ?second ?fs = Inr (fs_move ?own ?second ?fs)"
      using assms(7,8,11,12) c k dir_at_put [OF writable_not_dir [OF assms(2)] assms(9), of n]
      by (auto simp: rename_rule_def map_of_put is_dir_def is_reg_def split: kind.splits)
    have moved: "map_of (fs_move ?own ?second ?fs) ?second = Some n" "map_of (fs_move ?own ?second ?fs) ?own = None"
      using map_of_move [OF no_common_extension [OF assms(11,12)], where fs = ?fs]
      by (simp_all add: map_of_put) (metis append_Nil2 fun_upd_same)
    show ?thesis
      unfolding release_as_def Let_def seqs_io.simps returns_seq returns_let tg
    proof (rule ready_caps(1) [OF w2], rule ready_caps(3), assumption, rule ready_exists, assumption)
      fix w3 assume "ready db_caps ?fs w3"
      then show "returns (catch_io (fs_rename (e_dbfilepath (e\<lparr>e_released := now\<rparr>))
              (release_target e f (if follow 40 ?fs (comps (release_target e f t)) \<noteq> None then t + 1 else t)))
           (\<lambda>x. case x of Filesystem_error er \<Rightarrow> seq_io (lower_cap [CAP_DAC_OVERRIDE, CAP_FOWNER]
                 (dbuid (global (db_config (e_parent (e\<lparr>e_released := now\<rparr>)))))) (throw DatabaseException) | _ \<Rightarrow> throw x)) w3
          (\<lambda>a w'. returns (lower_cap [CAP_DAC_OVERRIDE, CAP_FOWNER] (dbuid (global (db_config (e_parent (e\<lparr>e_released := now\<rparr>)))))) w'
            (\<lambda>a w'. returns (ret (if follow 40 ?fs (comps (release_target e f t)) \<noteq> None then t + 1 else t,
               e\<lparr>e_released := now, e_dbfilepath := release_target e f (if follow 40 ?fs (comps (release_target e f t)) \<noteq> None then t + 1 else t)\<rparr>)) w' ?P))"
        unfolding if_P [OF there]
        apply (intro returns_catch)
        apply (rule ready_fs_rename)
          apply assumption
         apply (simp add: m)
        apply (rule ready_caps(2), assumption)
        apply (use moved k in \<open>auto simp: returns_ret ready_def\<close>)
        done
    qed simp
  qed
  have "returns (release y t e) w ?P"
    unfolding release_def returns_let returns_seq fs_config_or_exit_def
  proof (rule ready_now [OF assms(1)])
    fix now w1 assume w1: "ready db_caps fs w1"
    show "returns (writeEntry y False (e\<lparr>e_released := now\<rparr>)) w1 (\<lambda>a w'. returns
        (case getFsConfig (db_config (e_parent e)) (e_filesystem e) of None \<Rightarrow> exit_with (- 1) | Some f \<Rightarrow> ret f) w'
        (\<lambda>f w'. returns (release_as (e\<lparr>e_released := now\<rparr>) f t) w' ?P))"
      by (rule writeEntry_returns [OF w1]) (use assms(2,4) step in \<open>simp_all add: returns_ret\<close>)
  qed
  then show ?thesis by (auto simp: returns_def)
qed

definition two_released :: files where
  "two_released = example_files @
     [([''db'', ''.removed'', ''alice-run1-17''], example_inode (Reg ''first'')),
      ([''db'', ''.removed'', ''alice-run1-18''], example_inode (Reg ''second''))]"

lemma release_replaces_second_name_witness:
  "\<exists>e' w' now j'. release simple_ryml 17 example_entry (setuid_world two_released) = (Done (18, e'), w') \<and>
    map_of (files w') [''db'', ''.removed'', ''alice-run1-18''] = Some j' \<and>
    kind j' = Reg (entry_text simple_ryml (example_entry\<lparr>e_released := now\<rparr>))"
proof -
  have t: "comps (release_target example_entry (example_fs [] []) (17 + 1)) = [''db'', ''.removed'', ''alice-run1-18'']" by code_simp
  have "\<exists>e' w' now j'. release simple_ryml 17 example_entry (setuid_world two_released) = (Done (17 + 1, e'), w') \<and>
    map_of (files w') (comps (release_target example_entry (example_fs [] []) (17 + 1))) = Some j' \<and>
    kind j' = Reg (entry_text simple_ryml (example_entry\<lparr>e_released := now\<rparr>)) \<and>
    e_dbfilepath e' = release_target example_entry (example_fs [] []) (17 + 1) \<and> map_of (files w') (comps (e_dbfilepath example_entry)) = None"
  proof (rule release_replaces_second_name)
    show "ready db_caps two_released (setuid_world two_released)"
      by (simp add: ready_def example_can_act example_files_simps)
    show "getFsConfig (db_config (e_parent example_entry)) (e_filesystem example_entry) = Some (example_fs [] [])" by (rule example_fs_config)
    show "writable two_released (comps (e_dbfilepath example_entry))" by code_simp
    show "one_comp (e_id example_entry)" by code_simp
    show "map_of two_released (comps (release_target example_entry (example_fs [] []) 17)) = Some (example_inode (Reg ''first''))" by code_simp
    show "map_of two_released (comps (release_target example_entry (example_fs [] []) (17 + 1))) = Some (example_inode (Reg ''second''))" by code_simp
    show "\<not> is_link (example_inode (Reg ''first''))" "is_reg (example_inode (Reg ''second''))" by code_simp+
    show "dir_at two_released (comps (db_deleted_dir (example_fs [] [])))" by code_simp
    show "comps (e_dbfilepath example_entry) \<noteq> comps (release_target example_entry (example_fs [] []) 17)" by code_simp
    show "\<not> prefix (comps (e_dbfilepath example_entry)) (comps (release_target example_entry (example_fs [] []) (17 + 1)))" by code_simp
    show "\<not> prefix (comps (release_target example_entry (example_fs [] []) (17 + 1))) (comps (e_dbfilepath example_entry))" by code_simp
  qed
  then show ?thesis unfolding t by (simp only: one_add_one numeral_plus_one numeral_One) auto
qed

text \<open>C7. Renaming a deleted entry is all or nothing. When it returns, the entry, and its directory if
  there is one, carry the new name, which was free, and nothing else has changed. When it does not
  return, every file is as before; the only other outcome, the entry renamed and the directory not,
  takes a failing rename of the directory and a failing rename back of the entry.\<close>

theorem renameAsExpired_all_or_nothing:
  fixes e f new_id
  defines "dbd \<equiv> comps (db_deleted_dir f)" and "wsd \<equiv> comps (ws_deleted_dir (e_workspace e) f)"
  assumes "acts db_caps ft fs w" and "tree_ok fs"
    and "getFsConfig (db_config (e_parent e)) (e_filesystem e) = Some f"
    and "one_comp (e_id e)" and "one_comp new_id" and "e_id e \<noteq> new_id"
    and "comps (e_dbfilepath e) = dbd @ [e_id e]" and "apart dbd wsd"
    and "renameAsExpired e new_id w = (r, w')"
  shows "(\<exists>e'. r = Done e' \<and> e_id e' = new_id \<and> comps (e_dbfilepath e') = dbd @ [new_id] \<and>
      map_of fs (dbd @ [new_id]) = None \<and> map_of fs (wsd @ [new_id]) = None \<and>
      files w' = (if map_of fs (wsd @ [e_id e]) = None then fs_move (dbd @ [e_id e]) (dbd @ [new_id]) fs
        else fs_move (wsd @ [e_id e]) (wsd @ [new_id]) (fs_move (dbd @ [e_id e]) (dbd @ [new_id]) fs))) \<or>
    (\<forall>e'. r \<noteq> Done e') \<and>
      ((\<forall>k. map_of (files w') k = map_of fs k) \<or>
       files w' = fs_move (dbd @ [e_id e]) (dbd @ [new_id]) fs \<and>
         (\<exists>n t. ft n Sys_rename (wsd @ [e_id e]) = Some t) \<and> (\<exists>n t. ft n Sys_rename (dbd @ [new_id]) = Some t))"
proof -
  have "ends (renameAsExpired e new_id) w (renamed fs dbd wsd (e_id e) new_id) (unrenamed ft fs dbd wsd (e_id e) new_id)"
    using unrenamed_start [OF assms(3)] rename_both_ends [OF assms(3,4,6-8) assms(9,10) [unfolded dbd_def wsd_def]] assms(8)
    unfolding dbd_def wsd_def
    by (auto simp: renameAsExpired_def ends_simple ends_let fs_config_or_exit_def assms(5) split: option.splits)
  from endsD [OF this assms(11)] show ?thesis by (auto simp: renamed_def unrenamed_def)
qed

definition expired_files :: files where
  "expired_files =
     [([''ws''], example_inode Dir), ([''ws'', ''.removed''], example_inode Dir),
      ([''ws'', ''.removed'', ''alice-run1-17''], example_inode Dir),
      ([''db''], example_inode Dir), ([''db'', ''.removed''], example_inode Dir),
      ([''db'', ''.removed'', ''alice-run1-17''], example_inode (Reg ''workspace: /ws/alice-run1''))]"

definition expired_entry :: entry where
  "expired_entry = example_entry\<lparr>e_id := ''alice-run1-17'', e_dbfilepath := ''/db/.removed/alice-run1-17''\<rparr>"

lemma renameAsExpired_all_or_nothing_witness:
  "(\<exists>e'. fst (renameAsExpired expired_entry ''alice-run1-18'' (example_world expired_files)) = Done e' \<and> e_id e' = ''alice-run1-18'') \<or>
   (\<forall>k. map_of (files (snd (renameAsExpired expired_entry ''alice-run1-18'' (example_world expired_files)))) k = map_of expired_files k)"
proof -
  obtain r w' where run: "renameAsExpired expired_entry ''alice-run1-18'' (example_world expired_files) = (r, w')" by force
  have a: "acts db_caps (\<lambda>n op k. None) expired_files (example_world expired_files)"
    using example_can_act(1) by (simp add: acts_def example_files_simps) (simp add: example_world_def)
  have "tree_ok expired_files" by code_simp
  moreover have "getFsConfig (db_config (e_parent expired_entry)) (e_filesystem expired_entry) = Some (example_fs [] [])"
    using example_fs_config by (simp add: expired_entry_def)
  moreover have "one_comp (e_id expired_entry)" "one_comp ''alice-run1-18''" "e_id expired_entry \<noteq> ''alice-run1-18''"
    "comps (e_dbfilepath expired_entry) = comps (db_deleted_dir (example_fs [] [])) @ [e_id expired_entry]"
    "apart (comps (db_deleted_dir (example_fs [] []))) (comps (ws_deleted_dir (e_workspace expired_entry) (example_fs [] [])))"
    by code_simp+
  ultimately show ?thesis
    using renameAsExpired_all_or_nothing [OF a _ _ _ _ _ _ _ run] unfolding run fst_conv snd_conv by blast
qed

text \<open>A deleted id splits exactly where the rest of the program reads its timestamp; an id that the
  program made from a base and a timestamp splits back into them, also when the base ends in digits.\<close>

theorem splitExpiredId_round_trip:
  assumes "base \<noteq> []" and "0 \<le> t" and "t \<le> LLONG_MAX"
  shows "splitExpiredId (stamped base t) = Some (base, t) \<and> timestampFromId (stamped base t) = Some t \<and>
    (\<forall>i. timestampFromId i = map_option snd (splitExpiredId i)) \<and>
    (\<forall>i b u. splitExpiredId i = Some (b, u) \<longrightarrow> 0 \<le> u \<and> b \<noteq> [] \<and> (\<exists>digits. i = b @ CHR ''-'' # digits \<and> list_all is_digit digits))"
proof -
  obtain n where t: "t = int n" using assms(2) nonneg_int_cases by blast
  have st: "stamped base t = base @ CHR ''-'' # show_nat n" by (simp add: stamped_def t show_int_def)
  have eq: "timestampFromId i = map_option snd (splitExpiredId i)" for i
    by (simp add: timestampFromId_def splitExpiredId_def Let_def split: option.splits)
  have "splitExpiredId (stamped base t) = Some (base, t)"
    unfolding st using assms t by (simp add: splitExpiredId_def str_simps num_simps Let_def)
  moreover have "0 \<le> u \<and> b \<noteq> [] \<and> (\<exists>digits. i = b @ CHR ''-'' # digits \<and> list_all is_digit digits)"
    if "splitExpiredId i = Some (b, u)" for i b u
    using that
    by (auto simp: splitExpiredId_def Let_def split: option.splits if_splits dest: stoll_nonneg elim!: rfind_char_split)
  ultimately show ?thesis using eq by simp
qed

lemma splitExpiredId_round_trip_witness:
  "splitExpiredId (stamped ''alice-run-2024'' 17) = Some (''alice-run-2024'', 17)"
  using splitExpiredId_round_trip [of "''alice-run-2024''" 17] by (simp add: LLONG_MAX_def)

text \<open>C33. When \<open>createWorkspace\<close> returns a path, that path is a real directory, never a link somebody
  planted there; it lies directly in one of the filesystem's spaces under the composed name, belongs to
  the caller (or to the user root names) with the wanted group, and has exactly the mode asked for.\<close>

theorem createWorkspace_result:
  assumes "createWorkspace db name user_option groupflag groupwritable groupname w = (Done p, w')"
  shows "\<exists>f space pw i. getFsConfig (db_config db) (db_fs db) = Some f \<and> space \<in> set (fs_spaces f) \<and>
    getpwuid (accounts w) (ruid (cred w)) = Some pw \<and>
    p = workspace_path name user_option (pw_name pw) (ruid (cred w)) space \<and>
    map_of (files w') (comps p) = Some i \<and> is_dir i \<and> mode i = workspace_mode groupflag groupwritable \<and>
    Some (owner i) = (if user_option = [] then Some (ruid (cred w)) else map_option pw_uid (getpwnam (accounts w) user_option)) \<and>
    Some (group_owner i) = (if groupname \<noteq> [] then getgrnam (accounts w) groupname
      else if user_option = [] then Some (rgid (cred w)) else map_option pw_gid (getpwnam (accounts w) user_option))"
  using assms by (rule createWorkspace_Done)

lemma createWorkspace_result_witness:
  "\<exists>w' i. createWorkspace \<lparr>db_config = example_config [] [], db_fs = ''ws''\<rparr> ''run2'' [] False False [] (example_world example_files)
      = (Done ''/ws/alice-run2'', w') \<and>
    map_of (files w') (comps ''/ws/alice-run2'') = Some i \<and> is_dir i \<and> mode i = 448"
proof -
  let ?run = "createWorkspace \<lparr>db_config = example_config [] [], db_fs = ''ws''\<rparr> ''run2'' [] False False [] (example_world example_files)"
  have "fst ?run = Done ''/ws/alice-run2''" by code_simp
  then have run: "?run = (Done ''/ws/alice-run2'', snd ?run)" by (simp add: prod_eq_iff)
  have "workspace_mode False False = 448" by code_simp
  with createWorkspace_result [OF run] run show ?thesis by (intro exI [of _ "snd ?run"]) auto
qed

text \<open>When \<open>expire\<close> returns, the entry has moved to the deleted area under its id and the first
  timestamp, counting up from the given one, for which neither the database nor the workspace area has
  that name; that timestamp is returned, so that the directory can follow under the same name.\<close>

theorem expire_first_free_name:
  assumes "expire y timestamp e w = (Done (used, e'), w')"
    and "getFsConfig (db_config (e_parent e)) (e_filesystem e) = Some f"
  shows "\<exists>b n. stoll_digits timestamp = Some b \<and> n < 1000 \<and> used = show_int (b + int n) \<and>
    map_of (files w) (comps (path_append (db_deleted_dir f) (stamped (e_id e) (b + int n)))) = None \<and>
    map_of (files w) (comps (path_append (ws_deleted_dir (e_workspace e) f) (stamped (e_id e) (b + int n)))) = None \<and>
    (\<forall>m < n. map_of (files w) (comps (path_append (db_deleted_dir f) (stamped (e_id e) (b + int m)))) \<noteq> None \<or>
      map_of (files w) (comps (path_append (ws_deleted_dir (e_workspace e) f) (stamped (e_id e) (b + int m)))) \<noteq> None) \<and>
    e_dbfilepath e' = path_append (db_deleted_dir f) (stamped (e_id e) (b + int n)) \<and>
    map_of (files w') (comps (e_dbfilepath e')) \<noteq> None \<and>
    (comps (e_dbfilepath e') \<noteq> comps (e_dbfilepath e) \<longrightarrow> map_of (files w') (comps (e_dbfilepath e)) = None)"
  using assms(1)
proof (cases rule: expire_steps)
  case (written g b n w2)
  then have g: "g = f" using assms(2) by simp
  let ?own = "comps (e_dbfilepath e)" and ?target = "path_append (db_deleted_dir f) (stamped (e_id e) (b + int n))"
  from written(7) have m: "rename_rule ?own (comps ?target) (files w2) = Inr (files w')"
    and res: "used = show_int (b + int n)" "e_dbfilepath e' = ?target" by (auto simp: g)
  have "map_of (files w2) ?own \<noteq> None" using m by (auto simp: rename_rule_def split: option.splits)
  then have t: "map_of (files w') (comps ?target) \<noteq> None"
    using rename_rule_map(1) [OF m, of "[]"] rename_rule_same [of ?own "files w2" "files w'"] m
    by (cases "?own = comps ?target") auto
  have o: "comps ?target \<noteq> ?own \<longrightarrow> map_of (files w') ?own = None"
    using rename_rule_map(2) [OF m, of ?own] by auto
  show ?thesis
    using written(2,3,4,5) res t o unfolding g
    by (intro exI [of _ b] exI [of _ n]) (simp add: maxtries_def free_stamp_def)
next
  case nothing
  then show ?thesis by blast
qed

lemma expire_example:
  "returns (expire simple_ryml ''17'' example_entry) (example_world example_files) (\<lambda>p w'. fst p = show_int 17)"
proof (rule returns_mono, rule expire_returns)
  show "ready db_caps example_files (example_world example_files)"
    by (simp add: ready_def example_can_act example_files_simps)
  show "getFsConfig (db_config (e_parent example_entry)) (e_filesystem example_entry) = Some (example_fs [] [])" by (rule example_fs_config)
  show "stoll_digits ''17'' = Some 17" by (simp add: stoll_digits_def digits_value_def digit_val_def LLONG_MAX_def)
  show "free_stamp (example_fs [] []) (e_workspace example_entry) (e_id example_entry) example_files 17" by code_simp
  show "writable example_files (comps (e_dbfilepath example_entry))" by code_simp
  show "dir_at example_files (comps (db_deleted_dir (example_fs [] [])))" by code_simp
  show "\<not> prefix (comps (e_dbfilepath example_entry))
     (comps (db_deleted_dir (example_fs [] [])) @ [stamped (e_id example_entry) 17])" by code_simp
  show "\<not> prefix (comps (db_deleted_dir (example_fs [] [])) @ [stamped (e_id example_entry) 17])
     (comps (e_dbfilepath example_entry))" by code_simp
  show "one_comp (e_id example_entry)" "list_all is_digit ''17''" by code_simp+
qed auto

lemma expire_first_free_name_witness:
  "\<exists>e' w'. expire simple_ryml ''17'' example_entry (example_world example_files) = (Done (show_int 17, e'), w') \<and>
     map_of (files w') (comps (e_dbfilepath e')) \<noteq> None"
proof -
  obtain e' w' where run: "expire simple_ryml ''17'' example_entry (example_world example_files) = (Done (show_int 17, e'), w')"
    using expire_example by (auto simp: returns_def)
  from expire_first_free_name [OF run example_fs_config] run show ?thesis by auto
qed

end
