(* ===== verification/Readers.thy ===== *)
theory Readers
  imports DbV1
begin

text \<open>
  The operations that only read: the queries on files, the configuration and the database. A relation
  that no single system call can break is kept by all of them; it is interpreted on the frame
  conditions used for the tools (no file changes, the fixed parts of the world, the object \<open>caps\<close>).
  None of them changes the identity of the process; \<open>quiet_relation\<close> adds the calls that do.
\<close>

locale reading_relation = step_relation +
  assumes any_call: "keeps R (sys_call op k)" and any_time: "keeps R time_now" and any_random: "keeps R rand"
begin

lemma queries:
  "keeps R (sys_lstat p)" "keeps R (sys_stat p)" "keeps R (fs_exists p)" "keeps R (fs_is_directory p)"
  "keeps R (fs_is_regular_file p)" "keeps R (fs_is_symlink p)" "keeps R (fs_directory_iterator p)"
  unfolding sys_lstat_def sys_stat_def fs_exists_def fs_is_directory_def fs_is_regular_file_def fs_is_symlink_def
    fs_directory_iterator_def fs_status_def
  by (intro rules any_call)+

lemma file_readers:
  "keeps R (getFileContents f)" "keeps R (readFileNoFollow f n)" "keeps R (getFileTimeAsLong f)"
  "keeps R (dirEntries f pat dirs)" "keeps R getUsername" "keeps R (not_null x)"
proof -
  show n: "keeps R (not_null x)" for x :: "'x option" unfolding not_null_def by (intro rules)
  show "keeps R getUsername" unfolding getUsername_def by (intro rules n)
  show "keeps R (getFileTimeAsLong f)" unfolding getFileTimeAsLong_def by (intro rules queries)
  show "keeps R (getFileContents f)" "keeps R (readFileNoFollow f n)"
    unfolding getFileContents_def readFileNoFollow_def
    by (intro rules queries any_call; auto intro!: rules split: kind.split)+
  show "keeps R (dirEntries f pat dirs)"
    unfolding dirEntries_def entry_listed_def by (intro rules queries)
qed

lemma database_readers:
  "keeps R (fs_config_or_exit c fs)" "keeps R (checkID i)" "keeps R (openDB c fs)" "keeps R (readEntry y db i d)"
  "keeps R (matchPattern y db pat u gs d g)" "keeps R (nameTaken p)" "keeps R (Config_files yc ps)"
proof -
  show f: "keeps R (fs_config_or_exit c fs)" for c fs unfolding fs_config_or_exit_def by (intro rules)
  show i: "keeps R (checkID i)" unfolding checkID_def by (intro rules)
  show "keeps R (openDB c fs)" unfolding openDB_def by (intro rules f queries file_readers)
  show "keeps R (nameTaken p)" unfolding nameTaken_def by (intro rules queries)
  have n: "keeps R dflt \<Longrightarrow> keeps R (node_number y m k dflt)" for m k dflt
    by (simp add: node_number_def pure split: option.split)
  have doc: "keeps R (case r of None \<Rightarrow> throw DatabaseException | Some Not_map \<Rightarrow> throw DatabaseException | Some (Map m) \<Rightarrow> g m)"
    if "\<And>m. keeps R (g m)" for r and g :: "(string \<times> string option) list \<Rightarrow> entry io"
    using that by (simp add: pure split: option.split document.split)
  have "keeps R (readFromString y t e)" for t e
    unfolding readFromString_def Let_def by (rule doc, intro let_step n pure file_readers)
  then show "keeps R (readEntry y db i d)"
    unfolding readEntry_def readFromFile_def Let_def
    by (intro seq_step let_step if_step catch_step pure i file_readers)
  have "keeps R (group_of_file y t)" for t
    unfolding group_of_file_def by (auto intro!: rules split: document.split option.split)
  then have g: "keeps R (group_listing y p fp gs)" for p fp
    unfolding group_listing_def Let_def by (intro rules file_readers)
  show "keeps R (matchPattern y db pat u gs d g)"
    unfolding matchPattern_def Let_def by (intro rules file_readers g) (auto intro!: rules split: exn.split)
  have r: "keeps R (read_config_file yc p c)" for p c unfolding read_config_file_def by (intro rules file_readers)
  have d: "keeps R (read_config_dir yc p c)" for p c
    unfolding read_config_dir_def by (intro rules file_readers queries r)
  have "keeps R (first_config yc ps c)" for c
    by (induction ps) (auto intro!: rules queries r d)
  then show "keeps R (Config_files yc ps)" unfolding Config_files_def .
qed

end

locale quiet_relation = credential_relation + reading_relation
begin

lemmas readers = rules cap_calls any_call any_time any_random queries file_readers database_readers

end

interpretation same: quiet_relation same_files
  by unfold_locales (rule same_calls)+

interpretation frame: quiet_relation "only A" for A
  by unfold_locales (rule only_calls only_quiet sys_call_frame)+

interpretation settings: quiet_relation same_setup
  by unfold_locales (rule settings.all_calls TrueI)+

interpretation cap_object: quiet_relation same_cap_object
  by unfold_locales (rule cap_object.all_calls TrueI)+

end
