(* ===== verification/Mail.thy ===== *)
theory Mail
  imports User Regex
begin

text \<open>
  \<open>src/src/mail.cpp\<close>, and the mails \<open>src/src/ws_expirer.cpp\<close> composes. What the C library and curl do
  (the formatted local time, for mails and for messages, the process id, the hash of a string, the delivery) are the fields of a
  parameter; a mail that was accepted for delivery is kept in the field \<open>outbox\<close> of the world with its
  recipients. Exceptions carry no text in this model; \<open>what_text\<close> stands for it.
\<close>

section \<open>mail.cpp\<close>

record mail_library =
  mail_date :: "int \<Rightarrow> string option"
  log_date :: "int \<Rightarrow> string"
  process_id :: nat
  hash_text :: "string \<Rightarrow> string"
  deliver :: "string \<Rightarrow> string \<Rightarrow> string list \<Rightarrow> string \<Rightarrow> bool"
  what_text :: "exn \<Rightarrow> string"

definition generateMailDateFormat :: "mail_library \<Rightarrow> int \<Rightarrow> string" where
  "generateMailDateFormat l t = (case mail_date l t of None \<Rightarrow> ''(date out of range)'' | Some s \<Rightarrow> s)"

definition generateMessageID :: "mail_library \<Rightarrow> string \<Rightarrow> string io" where
  "generateMessageID l domain =
     let_io time_now (\<lambda>now. let_io rand (\<lambda>r.
       let unique = show_int now @ show_nat (process_id l) @ show_nat r
       in ret (show_int now @ ''.'' @ show_nat (process_id l) @ ''.'' @ hash_text l unique @ ''@'' @ domain)))"

fun generateToHeader :: "string list \<Rightarrow> string" where
  "generateToHeader [] = []"
| "generateToHeader [m] = m"
| "generateToHeader (m # ms) = m @ '', '' @ generateToHeader ms"

definition sendCurl :: "mail_library \<Rightarrow> string \<Rightarrow> string \<Rightarrow> string list \<Rightarrow> string \<Rightarrow> bool io" where
  "sendCurl l url mail_from mail_to completeMail =
     (if deliver l url mail_from mail_to completeMail
      then seq_io (put_io (\<lambda>w. w\<lparr>outbox := (mail_to, completeMail) # outbox w\<rparr>)) (ret True)
      else ret False)"

section \<open>The mails of ws_expirer\<close>

definition CRLF :: string where
  "CRLF = [CHR 0x0D, CHR 0x0A]"

definition boundary :: string where
  "boundary = ''_NextPart_01234567.89ABCDEF''"

definition crlf_lines :: "string list \<Rightarrow> string" where
  "crlf_lines ls = concat (map (\<lambda>l. l @ CRLF) ls)"

text \<open>The seven header lines, and the frame of the single text part, which all four mails share.\<close>

definition header_lines :: "string \<Rightarrow> string \<Rightarrow> string \<Rightarrow> string \<Rightarrow> string \<Rightarrow> string list" where
  "header_lines mail_from to_header subject messageID createtime =
     [''From: '' @ mail_from, ''To: '' @ to_header, ''Subject: '' @ subject, ''Message-ID: <'' @ messageID @ ''>'',
      ''Date: '' @ createtime, ''MIME-Version: 1.0'', ''Content-Type: multipart/mixed; boundary='' @ boundary]"

definition mail_text :: "string list \<Rightarrow> string list \<Rightarrow> string" where
  "mail_text header body =
     crlf_lines (header @ [[], ''--'' @ boundary, ''Content-Type: text/plain; charset=UTF-8'',
       ''Content-Transfer-Encoding: 7bit'', []] @ body @ [[], [], ''--'' @ boundary @ ''--'', []])"

definition compose :: "mail_library \<Rightarrow> string \<Rightarrow> string list \<Rightarrow> string \<Rightarrow> string list \<Rightarrow> string io" where
  "compose l mail_from mail_to subject body =
     let_io (generateMessageID l ''ws_expirer'') (\<lambda>messageID.
     let_io time_now (\<lambda>now.
       ret (mail_text (header_lines mail_from (generateToHeader mail_to) subject messageID
              (generateMailDateFormat l now)) body)))"

definition generateReminderMail ::
  "mail_library \<Rightarrow> string \<Rightarrow> string list \<Rightarrow> int \<Rightarrow> string \<Rightarrow> string \<Rightarrow> string \<Rightarrow> string io" where
  "generateReminderMail l mail_from mail_to expirationtime wsname fsname clustername =
     (let expirationtimestr = generateMailDateFormat l expirationtime
      in compose l mail_from mail_to (''Workspace '' @ wsname @ '' will expire at '' @ expirationtimestr)
           [''Your workspace '' @ wsname @ '' on filesystem '' @ fsname @ '' at HPC System '' @ clustername @
            '' will expire at '' @ expirationtimestr])"

definition generateExpirationMail ::
  "mail_library \<Rightarrow> string \<Rightarrow> string list \<Rightarrow> int \<Rightarrow> string \<Rightarrow> string \<Rightarrow> string \<Rightarrow> int \<Rightarrow> string io" where
  "generateExpirationMail l mail_from mail_to expirationtime wsname fsname clustername keeptime =
     (let expirationtimestr = generateMailDateFormat l expirationtime
      in compose l mail_from mail_to (''Workspace '' @ wsname @ '' expired at '' @ expirationtimestr)
           [''Your workspace '' @ wsname @ '' on filesystem '' @ fsname @ '' at HPC System '' @ clustername @
            '' was expired at '' @ expirationtimestr,
            ''Your workspace can be restored for the next '' @ show_int keeptime @
            '' days using ws_restore, to view restorable workspaces use ws_restore -l or ws_list -e'',
            [],
            ''(you can disable this email by setting '' @ [CHR 0x27] @ ''expirationmail: false'' @ [CHR 0x27] @
            '' in your ~/.ws_user.conf)''])"

definition generateErrorMail :: "mail_library \<Rightarrow> string \<Rightarrow> string list \<Rightarrow> string \<Rightarrow> string io" where
  "generateErrorMail l mail_from mail_to subject =
     compose l mail_from mail_to subject
       [subject @ [CHR 0x0A] @ ''Skipping to avoid data loss. Please check Filesystem!'']"

definition generateSummaryMail :: "mail_library \<Rightarrow> string \<Rightarrow> string list \<Rightarrow> string \<Rightarrow> string \<Rightarrow> string io" where
  "generateSummaryMail l mail_from mail_to subject body =
     compose l mail_from mail_to subject [subject, [], body]"

section \<open>Frames\<close>

lemma compose_calls:
  "keeps same_files (compose l f t s b)" "keeps same_files (sendCurl l u f t m)" "keeps (only A) (compose l f t s b)"
  "keeps (only A) (sendCurl l u f t m)"
proof -
  have put: "keeps same_files (put_io (\<lambda>w. w\<lparr>outbox := (t, m) # outbox w\<rparr>))" "keeps (only A) (put_io (\<lambda>w. w\<lparr>outbox := (t, m) # outbox w\<rparr>))"
    for t m A by (simp_all add: keeps_def put_io_def same_files_def only_def)
  show "keeps same_files (compose l f t s b)" "keeps (only A) (compose l f t s b)"
    unfolding compose_def generateMessageID_def Let_def by (intro same.rules same_calls frame.rules only_quiet)+
  show "keeps same_files (sendCurl l u f t m)" "keeps (only A) (sendCurl l u f t m)"
    unfolding sendCurl_def by (intro same.rules frame.rules put)+
qed

lemma mail_frames:
  "keeps same_files (generateReminderMail l f t x n fs c)" "keeps (only A) (generateReminderMail l f t x n fs c)"
  "keeps same_files (generateExpirationMail l f t x n fs c k)" "keeps (only A) (generateExpirationMail l f t x n fs c k)"
  "keeps same_files (generateErrorMail l f t s)" "keeps (only A) (generateErrorMail l f t s)"
  "keeps same_files (sendCurl l u f t m)" "keeps (only A) (sendCurl l u f t m)"
  by (simp_all add: generateReminderMail_def generateExpirationMail_def generateErrorMail_def Let_def compose_calls)

section \<open>Reading a mail\<close>

text \<open>How a mail server takes a mail apart: lines end at CR LF, the header ends at the first empty line.\<close>

fun split_crlf :: "string \<Rightarrow> string list" where
  "split_crlf [] = [[]]"
| "split_crlf [c] = [[c]]"
| "split_crlf (c # d # s) =
     (if c = CHR 0x0D \<and> d = CHR 0x0A then [] # split_crlf s
      else (case split_crlf (d # s) of [] \<Rightarrow> [[c]] | l # ls \<Rightarrow> (c # l) # ls))"

definition mail_header :: "string \<Rightarrow> string list" where
  "mail_header m = takeWhile (\<lambda>l. l \<noteq> []) (split_crlf m)"

definition one_line :: "string \<Rightarrow> bool" where
  "one_line s = list_all (\<lambda>c. c \<noteq> CHR 0x0D \<and> c \<noteq> CHR 0x0A) s"

lemma one_line_append [simp]: "one_line (s @ t) = (one_line s \<and> one_line t)"
  by (simp add: one_line_def)

lemma split_crlf_line: "one_line l \<Longrightarrow> split_crlf (l @ CRLF @ s) = l # split_crlf s"
proof (induction l)
  case Nil
  show ?case by (simp add: CRLF_def)
next
  case (Cons c l)
  then have c: "c \<noteq> CHR 0x0D" and l: "split_crlf (l @ CRLF @ s) = l # split_crlf s" by (simp_all add: one_line_def)
  obtain d t where "l @ CRLF @ s = d # t" by (cases l) (auto simp: CRLF_def)
  with c l show ?case by simp
qed

lemma split_crlf_lines: "list_all one_line ls \<Longrightarrow> split_crlf (crlf_lines ls @ s) = ls @ split_crlf s"
  by (induction ls) (simp_all add: crlf_lines_def split_crlf_line)

lemma mail_header_text: "list_all (\<lambda>l. one_line l \<and> l \<noteq> []) hs \<Longrightarrow> mail_header (mail_text hs body) = hs"
proof -
  assume hs: "list_all (\<lambda>l. one_line l \<and> l \<noteq> []) hs"
  obtain t where "mail_text hs body = crlf_lines (hs @ [[]]) @ t" by (simp add: mail_text_def crlf_lines_def)
  moreover have "list_all one_line (hs @ [[]])" using hs by (simp add: list_all_iff one_line_def)
  ultimately show ?thesis using hs
    by (simp add: mail_header_def split_crlf_lines takeWhile_append2 list_all_iff)
qed

lemma valid_one_line: "isValidEmail m \<Longrightarrow> one_line m"
proof -
  assume "isValidEmail m"
  then have "lang email_regex m \<or> lang localemail_regex m" by (auto simp: isValidEmail_def regex_match_lang split: if_splits)
  then have "list_all mail_char m"
    by (auto dest: lang_chars [OF _ email_regex_chars(1)] lang_chars [OF _ email_regex_chars(2)])
  then show ?thesis by (auto simp: one_line_def mail_char_def list_all_iff)
qed

lemma one_line_to: "list_all one_line ms \<Longrightarrow> one_line (generateToHeader ms)"
  by (induction ms rule: generateToHeader.induct) (simp_all add: one_line_def)

section \<open>Properties\<close>


definition example_mail_library :: mail_library where
  "example_mail_library = \<lparr>mail_date = (\<lambda>t. if t < 0 then None else Some ''Thu, 01 Jan 1970''), log_date = show_int, process_id = 4711,
     hash_text = (\<lambda>s. ''77''), deliver = (\<lambda>u f t m. True), what_text = (\<lambda>x. ''no database'')\<rparr>"


end
