(* ===== verification/UserConfig.thy ===== *)
theory UserConfig
  imports Config Regex Text
begin

text \<open>
  \<open>src/src/UserConfig.cpp\<close>: the file \<open>.ws_user.conf\<close> in the home of a user, which its owner controls
  completely and privileged tools read.
\<close>

record user_config =
  uc_mailaddress :: string
  uc_groupname :: string
  uc_reminder :: int
  uc_duration :: int
  uc_expirationmail :: bool

definition user_config_initial :: user_config where
  "user_config_initial =
     \<lparr>uc_mailaddress = [], uc_groupname = [], uc_reminder = - 1, uc_duration = - 1, uc_expirationmail = True\<rparr>"

definition read_user_yaml :: "'n yaml_cpp \<Rightarrow> 'n \<Rightarrow> user_config \<Rightarrow> user_config option" where
  "read_user_yaml y c = in_order
     [take_key (Key y c ''mail'') (As_string y) (\<lambda>v u. u\<lparr>uc_mailaddress := v\<rparr>),
      take_key (Key y c ''groupname'') (As_string y) (\<lambda>v u. u\<lparr>uc_groupname := v\<rparr>),
      take_key (Key y c ''duration'') (As_int y) (\<lambda>v u. u\<lparr>uc_duration := v\<rparr>),
      take_key (Key y c ''reminder'') (As_int y) (\<lambda>v u. u\<lparr>uc_reminder := v\<rparr>),
      take_key (Key y c ''expirationmail'') (As_bool y) (\<lambda>v u. u\<lparr>uc_expirationmail := v\<rparr>)]"

definition looks_like_yaml :: "string \<Rightarrow> bool" where
  "looks_like_yaml userconf =
     (find_char (CHR '':'') userconf \<noteq> None \<or> (case userconf of [] \<Rightarrow> False | c # cs \<Rightarrow> c = CHR ''#''))"

definition UserConfig :: "'n yaml_cpp \<Rightarrow> string \<Rightarrow> user_config" where
  "UserConfig y userconf =
     (let u = (if looks_like_yaml userconf then
                 (case Load y userconf of
                    None \<Rightarrow> user_config_initial
                  | Some c \<Rightarrow>
                      (case read_user_yaml y c user_config_initial of
                         None \<Rightarrow> user_config_initial | Some u \<Rightarrow> u))
               else user_config_initial\<lparr>uc_mailaddress := getFirstLine userconf\<rparr>)
      in if uc_mailaddress u \<noteq> [] \<and> \<not> isValidEmail (uc_mailaddress u) then u\<lparr>uc_mailaddress := []\<rparr> else u)"

lemma UserConfig_mail: "uc_mailaddress (UserConfig y s) = [] \<or> isValidEmail (uc_mailaddress (UserConfig y s))"
  by (simp add: UserConfig_def Let_def)

end
