(* ===== verification/Site.thy ===== *)
theory Site
  imports Readers Mail UserConfig
begin

text \<open>
  A small site for examples: a configuration file as a parsed tree, one filesystem with one space, and a
  world whose files hold that configuration and the database.
\<close>

datatype yaml_node = Scalar string | Strings "string list" | Mapping "(string \<times> yaml_node) list"

definition site_tree :: yaml_node where
  "site_tree = Mapping
     [(''clustername'', Scalar ''c''), (''default_workspace'', Scalar ''ws''), (''dbuid'', Scalar ''7''), (''dbgid'', Scalar ''8''),
      (''mail_from'', Scalar ''hpc@site.org''), (''deldirtimeout'', Scalar ''5''),
      (''filesystems'', Mapping [(''ws'', Mapping
         [(''spaces'', Strings [''/ws'']), (''deleted'', Scalar ''.removed''), (''database'', Scalar ''/db''),
          (''keeptime'', Scalar ''1'')])])]"

definition site_yaml :: "yaml_node yaml_cpp" where
  "site_yaml = \<lparr>Load = (\<lambda>s. if s = [] then None else Some site_tree),
     Key = (\<lambda>n k. case n of
        Mapping kvs \<Rightarrow> (case map_of kvs k of None \<Rightarrow> Absent | Some v \<Rightarrow> Present v) | _ \<Rightarrow> Bad_node),
     Pairs = (\<lambda>n. case n of Mapping kvs \<Rightarrow> map (\<lambda>kv. (Scalar (fst kv), snd kv)) kvs | _ \<Rightarrow> []),
     As_string = (\<lambda>n. case n of Scalar s \<Rightarrow> Some s | _ \<Rightarrow> None),
     As_strings = (\<lambda>n. case n of Strings ss \<Rightarrow> Some ss | _ \<Rightarrow> None),
     As_int = (\<lambda>n. case n of Scalar s \<Rightarrow> int_of_string s | _ \<Rightarrow> None),
     As_long = (\<lambda>n. case n of Scalar s \<Rightarrow> int_of_string s | _ \<Rightarrow> None),
     As_bool = (\<lambda>n. case n of Scalar s \<Rightarrow> Some (s = ''true'') | _ \<Rightarrow> None),
     As_uid = (\<lambda>n. case n of Scalar s \<Rightarrow> map_option of_int (int_of_string s) | _ \<Rightarrow> None)\<rparr>"

definition site_config :: config where
  "site_config = config_initial\<lparr>isvalid := True,
     global := (file_defaults Global_initial)\<lparr>clustername := ''c'', defaultWorkspace := ''ws'', dbuid := 7, dbgid := 8,
       mail_from := ''hpc@site.org'', deldirtimeout := 5\<rparr>,
     filesystems := [(''ws'', (fs_initial ''ws'')\<lparr>fs_spaces := [''/ws''], fs_spaceselection := ''random'',
       fs_deletedPath := ''.removed'', fs_database := ''/db'', fs_keeptime := 1, fs_releasekeeptime := 1,
       fs_maxduration := 100, fs_maxextensions := 10, fs_allocatable := True, fs_extendable := True, fs_restorable := True\<rparr>)]\<rparr>"

definition site_entry :: "string \<Rightarrow> int \<Rightarrow> entry" where
  "site_entry name expires = (blank_entry \<lparr>db_config = site_config, db_fs = ''ws''\<rparr>)\<lparr>e_id := name, e_username := ''alice'',
     e_filesystem := ''ws'', e_workspace := ''/ws/'' @ name, e_creation := 1, e_expiration := expires, e_extensions := 3,
     e_dbfilepath := ''/db/'' @ name\<rparr>"

definition site_files :: files where
  "site_files =
     [([''etc''], example_inode Dir), ([''etc'', ''ws.conf''], example_inode (Reg ''site'')),
      ([''ws''], example_inode Dir), ([''ws'', ''.removed''], example_inode Dir),
      ([''ws'', ''alice-a''], example_inode Dir), ([''ws'', ''alice-a'', ''data''], example_inode (Reg ''results'')),
      ([''ws'', ''bob-old''], example_inode Dir), ([''ws'', ''bob-old'', ''junk''], example_inode (Reg ''junk'')),
      ([''db''], example_inode Dir), ([''db'', ''.ws_db_magic''], example_inode (Reg ''ws'')),
      ([''db'', ''.removed''], example_inode Dir),
      ([''db'', ''alice-a''], example_inode (Reg (entry_text simple_ryml (site_entry ''alice-a'' 99))))]"

definition site_world :: "int \<Rightarrow> world" where
  "site_world now = (example_world site_files)\<lparr>clock := (\<lambda>n. now), caps := user_caps\<lparr>isusermode := False\<rparr>\<rparr>"

end
