(* ===== verification/Tools.thy ===== *)
theory Tools
  imports Readers UserConfig
begin

text \<open>
  What the \<open>main\<close> functions of the tools share: the choice and check of the configuration, the check of a
  filesystem given on the command line, the user's configuration file, and the question of
  \<open>utils::new_ruh\<close>. The options are those left after \<open>boost::program_options\<close> has parsed the command line.
\<close>

section \<open>The configuration of the site\<close>

definition config_pathes :: "path \<Rightarrow> bool \<Rightarrow> path list" where
  "config_pathes configfile may_choose =
     (if configfile \<noteq> [] \<and> may_choose then [configfile] else [''/etc/ws.d'', ''/etc/ws.conf''])"

definition valid_config :: "'n yaml_cpp \<Rightarrow> path \<Rightarrow> config io" where
  "valid_config yc configfile =
     let_io (get_io (\<lambda>w. isRoot w \<or> isusermode (caps w))) (\<lambda>may_choose.
     let_io (Config_files yc (config_pathes configfile may_choose)) (\<lambda>c.
       if \<not> isvalid c then exit_with (- 2) else ret c))"

definition read_site :: "'n yaml_cpp \<Rightarrow> path \<Rightarrow> config io" where
  "read_site yc configfile =
     let_io (valid_config yc configfile) (\<lambda>c. seq_io (setDbIdentity (dbuid (global c)) (dbgid (global c))) (ret c))"

text \<open>A filesystem the caller names must be one the user may use; root may name any.\<close>

definition validateFs :: "config \<Rightarrow> string option \<Rightarrow> string \<Rightarrow> intent \<Rightarrow> bool io" where
  "validateFs c filesystem username intent =
     let_io (get_io getGrouplist) (\<lambda>groupnames.
       case filesystem of
         None \<Rightarrow> ret True
       | Some fs \<Rightarrow> let_io getuid (\<lambda>u.
           ret (\<not> (fs \<notin> set (validFilesystems c username groupnames intent) \<and> u \<noteq> 0))))"

text \<open>\<open>~/.ws_user.conf\<close> of the caller; a link ends the tool.\<close>

definition own_user_conf :: "string io" where
  "own_user_conf =
     let_io getUserhome (\<lambda>home.
       let user_conf_filename = home @ ''/.ws_user.conf''
       in let_io (fs_is_symlink user_conf_filename) (\<lambda>link.
            if link then exit_with (- 1)
            else let_io (fs_is_regular_file user_conf_filename) (\<lambda>reg.
              if reg then getFileContents user_conf_filename else ret [])))"

text \<open>The user whose workspaces are looked at: \<open>-u\<close> is for root and administrators, who see all without it.\<close>

definition user_pattern :: "config \<Rightarrow> string \<Rightarrow> string io" where
  "user_pattern c username =
     let_io (get_io isRoot) (\<lambda>root.
     let_io getUsername (\<lambda>caller.
       ret (if root \<or> isAdmin c caller then if username \<noteq> [] then username else ''*'' else caller)))"

text \<open>An operation of the database whose \<open>DatabaseException\<close> is caught; other exceptions are not.\<close>

definition try_database :: "'a io \<Rightarrow> 'a option io" where
  "try_database m = catch_io (let_io m (\<lambda>a. ret (Some a))) (\<lambda>x. case x of DatabaseException \<Rightarrow> ret None | _ \<Rightarrow> throw x)"

lemma try_database_Some: "try_database m w = (Done (Some a), v) \<Longrightarrow> m w = (Done a, v)"
  by (auto simp: try_database_def catch_io_def let_io_def ret_def throw_def split: prod.splits outcome.splits exn.splits)

section \<open>Numbers in names\<close>

text \<open>
  The number a text begins with: white space, a sign, digits, and whatever follows is ignored. For
  \<open>std::stol\<close> \<open>None\<close> is one of the two exceptions, which the code treats alike; \<open>atol\<close> stops at the bounds.
\<close>

definition is_space :: "char \<Rightarrow> bool" where
  "is_space c = (of_char c = (32 :: nat) \<or> 9 \<le> (of_char c :: nat) \<and> (of_char c :: nat) \<le> 13)"

definition leading_number :: "string \<Rightarrow> int option" where
  "leading_number s =
     (let t = dropWhile is_space s;
          neg = (case t of [] \<Rightarrow> False | c # cs \<Rightarrow> c = CHR ''-'');
          signed = (case t of [] \<Rightarrow> False | c # cs \<Rightarrow> c = CHR ''-'' \<or> c = CHR ''+'');
          ds = takeWhile is_digit (if signed then tl t else t);
          v = int (digits_value ds)
      in if ds = [] then None else Some (if neg then - v else v))"

definition stol :: "string \<Rightarrow> int option" where
  "stol s =
     (case leading_number s of
        None \<Rightarrow> None
      | Some v \<Rightarrow> if - LLONG_MAX - 1 \<le> v \<and> v \<le> LLONG_MAX then Some v else None)"

definition atol :: "string \<Rightarrow> int" where
  "atol s = (case leading_number s of None \<Rightarrow> 0 | Some v \<Rightarrow> max (- LLONG_MAX - 1) (min LLONG_MAX v))"

section \<open>Are you human\<close>

definition wordmap :: "string list list" where
  "wordmap =
    [[''Dog'', ''Cat'', ''Elephant'', ''Lion'', ''Tiger'', ''Cow'', ''Horse'', ''Monkey'', ''Snake'',
      ''Eagle'', ''Bear'', ''Wolf'', ''Fox'', ''Deer'', ''Rabbit'', ''Squirrel'', ''Pig'', ''Chicken'',
      ''Duck'', ''Fish'', ''Shark'', ''Whale'', ''Dolphin'', ''Frog'', ''Butterfly''],
     [''Apple'', ''Banana'', ''Orange'', ''Strawberry'', ''Blueberry'', ''Watermelon'', ''Mango'',
      ''Pineapple'', ''Grapes'', ''Avocado'', ''Tomato'', ''Potato'', ''Carrot'', ''Broccoli'',
      ''Spinach'', ''Onion'', ''Garlic'', ''Cucumber'', ''Bell pepper'', ''Lettuce'', ''Corn'',
      ''Green beans'', ''Peas'', ''Asparagus'', ''Zucchini''],
     [''Car'', ''House'', ''Tree'', ''Book'', ''Computer'', ''Phone'', ''Chair'', ''Table'', ''Shirt'',
      ''Pants'', ''Shoes'', ''Hat'', ''Door'', ''Window'', ''Wall'', ''Floor'', ''Ceiling'', ''Lightbulb'',
      ''Pen'', ''Paper'', ''Clock'', ''Television'', ''Radio'', ''Cloud'', ''Rock''],
     [''Albert Einstein'', ''Isaac Newton'', ''Leonardo da Vinci'', ''Mahatma Gandhi'',
      ''Nelson Mandela'', ''Martin Luther King Jr.'', ''Cleopatra'', ''Julius Caesar'',
      ''Alexander the Great'', ''Napoleon Bonaparte'', ''George Washington'',
      ''Abraham Lincoln'', ''Winston Churchill'', ''Marie Curie'', ''Rosalind Franklin'',
      ''Galileo Galilei'', ''Charles Darwin'', ''Sigmund Freud'', ''Siddhartha Gautama'',
      ''Confucius'', ''Socrates'', ''Plato'', ''Aristotle'', ''Homer'']]"

definition print :: "string \<Rightarrow> unit io" where
  "print s = put_io (\<lambda>w. w\<lparr>stdout := s # stdout w\<rparr>)"

definition read_line :: "string io" where
  "read_line =
     let_io (get_io stdin) (\<lambda>ls. case ls of [] \<Rightarrow> ret [] | l # rest \<Rightarrow> seq_io (put_io (\<lambda>w. w\<lparr>stdin := rest\<rparr>)) (ret l))"

definition ruh_question :: "string \<Rightarrow> string" where
  "ruh_question word =
     ''Is '' @ CHR 0x27 # word @ CHR 0x27 # '' an [0] Animal, [1] Fruit or Vegetable or [2] Object or [3] Person? <type 0/1/2/3 + enter> :''"

definition new_ruh :: "bool io" where
  "new_ruh =
     let_io time_now (\<lambda>seed.
     let_io rand (\<lambda>r. let cat_index = r mod 3
      in let_io rand (\<lambda>r. let obj_index = r mod 24
         in seq_io (print (ruh_question ((wordmap ! cat_index) ! obj_index)))
              (let_io read_line (\<lambda>line.
                 ret (line \<noteq> [] \<and> int (of_char (hd line)) - 48 = int cat_index))))))"

text \<open>The lookups in the lists of words are inside them.\<close>

lemma wordmap_bounds: "i < 4 \<Longrightarrow> j < 24 \<Longrightarrow> i < length wordmap \<and> j < length (wordmap ! i)"
  by (auto simp: wordmap_def numeral_eq_Suc less_Suc_eq)

section \<open>Frames\<close>

lemma output_calls:
  "keeps same_files (put_io (\<lambda>w. w\<lparr>stdout := x # stdout w\<rparr>))" "keeps (only A) (put_io (\<lambda>w. w\<lparr>stdout := x # stdout w\<rparr>))"
  "keeps same_setup (put_io (\<lambda>w. w\<lparr>stdout := x # stdout w\<rparr>))"
  "keeps same_files (put_io (\<lambda>w. w\<lparr>stdin := ls\<rparr>))" "keeps (only A) (put_io (\<lambda>w. w\<lparr>stdin := ls\<rparr>))"
  "keeps same_setup (put_io (\<lambda>w. w\<lparr>stdin := ls\<rparr>))"
  "keeps same_files (setDbIdentity u g)" "keeps (only A) (setDbIdentity u g)" "keeps same_setup (setDbIdentity u g)"
  by (simp_all add: setDbIdentity_def keeps_def put_io_def same_files_def only_def same_setup_def)

locale tool_relation = quiet_relation +
  assumes any_output: "keeps R (put_io (\<lambda>w. w\<lparr>stdout := x # stdout w\<rparr>))"
    and any_input: "keeps R (put_io (\<lambda>w. w\<lparr>stdin := ls\<rparr>))"
    and any_identity: "keeps R (setDbIdentity u g)"
begin

lemma try_step: "keeps R m \<Longrightarrow> keeps R (try_database m)"
  unfolding try_database_def by (intro readers; auto intro!: readers split: exn.split)

lemma tool_readers:
  "keeps R (read_site yc p)" "keeps R (validateFs c f u i)" "keeps R own_user_conf" "keeps R new_ruh"
  "keeps R getuid" "keeps R getUserhome" "keeps R (print s)" "keeps R read_line" "keeps R (valid_config yc p)"
  "keeps R (user_pattern c n)"
proof -
  show "keeps R (user_pattern c n)" unfolding user_pattern_def by (intro readers)
  show v: "keeps R (valid_config yc p)" unfolding valid_config_def by (intro readers)
  show u: "keeps R getuid" unfolding getuid_def by (intro readers)
  show h: "keeps R getUserhome" unfolding getUserhome_def by (intro readers)
  show p: "keeps R (print s)" for s unfolding print_def by (rule any_output)
  show l: "keeps R read_line" unfolding read_line_def by (intro readers any_input; auto intro!: readers any_input split: list.split)
  show "keeps R (read_site yc p)" unfolding read_site_def by (intro readers any_identity v)
  show "keeps R (validateFs c f u i)"
    unfolding validateFs_def by (intro let_step; auto intro!: readers u split: option.split)
  show "keeps R own_user_conf" unfolding own_user_conf_def Let_def by (intro readers h)
  show "keeps R new_ruh" unfolding new_ruh_def Let_def by (intro readers p l)
qed

lemmas tools = readers any_output any_input any_identity tool_readers try_step

end

interpretation same: tool_relation same_files
  by unfold_locales (rule output_calls)+

interpretation frame: tool_relation "only A" for A
  by unfold_locales (rule output_calls)+

interpretation settings: tool_relation same_setup
  by unfold_locales (rule output_calls)+

end
