(* ===== verification/Listing.thy ===== *)
theory Listing
  imports Tools
begin

text \<open>
  What a run that went through the entries of a directory returns: folds over a list with an invariant,
  the names \<open>dirEntries\<close> finds, and the pattern \<open>*-*\<close> of the names that look like a workspace.
\<close>

section \<open>Folds and listings\<close>

lemma fold_io_preserves:
  assumes "fold_io xs f s w = (Done s', w')" and "I s"
    and step: "\<And>y s w s' w'. y \<in> set xs \<Longrightarrow> f y s w = (Done s', w') \<Longrightarrow> I s \<Longrightarrow> I s'"
  shows "I s'"
proof -
  have "I s \<Longrightarrow> fold_io ys f s w = (Done s', w') \<Longrightarrow> set ys \<subseteq> set xs \<Longrightarrow> I s'" for ys s w s' w'
  proof (induction ys arbitrary: s w)
    case Nil
    then show ?case by (simp add: ret_Done)
  next
    case (Cons y ys)
    from Cons.prems(2) obtain s1 w1 where "f y s w = (Done s1, w1)" "fold_io ys f s1 w1 = (Done s', w')" by (auto simp: let_io_Done)
    with Cons.IH [of s1 w1] Cons.prems(1,3) step [of y s w s1 w1] show ?case by simp
  qed
  with assms(1,2) show ?thesis by blast
qed

lemma fold_io_reaches:
  assumes "fold_io xs f s w = (Done s', w')" and "x \<in> set xs"
    and step: "\<And>y s w s' w'. y \<in> set xs \<Longrightarrow> f y s w = (Done s', w') \<Longrightarrow> I s \<Longrightarrow> I s'"
    and here: "\<And>s w s' w'. f x s w = (Done s', w') \<Longrightarrow> I s'"
  shows "I s'"
proof -
  have "fold_io ys f s w = (Done s', w') \<Longrightarrow> set ys \<subseteq> set xs \<Longrightarrow> x \<in> set ys \<Longrightarrow> I s'" for ys s w
  proof (induction ys arbitrary: s w)
    case Nil
    then show ?case by simp
  next
    case (Cons y ys)
    from Cons.prems(1) obtain s1 w1 where y: "f y s w = (Done s1, w1)" and ys: "fold_io ys f s1 w1 = (Done s', w')" by (auto simp: let_io_Done)
    show ?case
    proof (cases "x = y")
      case True
      with y here have "I s1" by blast
      with ys show ?thesis by (rule fold_io_preserves) (use step Cons.prems(2) in auto)
    next
      case False
      with Cons.IH [OF ys] Cons.prems(2,3) show ?thesis by simp
    qed
  qed
  with assms(1,2) show ?thesis by blast
qed

lemma same_mapD: "keeps (only (\<lambda>k. False)) m \<Longrightarrow> m w = (r, w') \<Longrightarrow> map_of (files w') = map_of (files w)"
  by (drule (1) keepsD) (auto simp: only_def)

lemma fs_is_directory_Done:
  "fs_is_directory p w = (Done d, w') \<Longrightarrow>
   d = (case follow 40 (files w) (comps p) of None \<Rightarrow> False | Some (k, i) \<Rightarrow> is_dir i) \<and> files w' = files w"
  by (cases "fault w (steps w) Sys_stat (comps p)"; cases "follow 40 (files w) (comps p)")
     (auto simp: fs_is_directory_def fs_status_def sys_stat_def sys_call_def io_defs)

definition listing_step :: "path \<Rightarrow> string \<Rightarrow> bool \<Rightarrow> string \<times> inode \<Rightarrow> string list \<Rightarrow> string list io" where
  "listing_step p pat dirs e fl =
     let_io (entry_listed p dirs e) (\<lambda>b. ret (if b \<and> glob_match pat (fst e) then fl @ [fst e] else fl))"

lemma dirEntries_run:
  assumes "dirEntries p pat dirs w = (Done fl, w')"
  shows "(case follow 40 (files w) (comps p) of None \<Rightarrow> fl = []
    | Some (d, i) \<Rightarrow> if is_dir i then \<exists>w1 w2. files w1 = files w \<and> fold_io (list_dir (files w) d) (listing_step p pat dirs) [] w1 = (Done fl, w2)
        else fl = [])"
proof -
  from assms obtain d w1 where d: "fs_is_directory p w = (Done d, w1)"
    and rest: "(if \<not> d then ret [] else let_io (fs_directory_iterator p) (\<lambda>entries. fold_io entries (listing_step p pat dirs) [])) w1 = (Done fl, w')"
    unfolding dirEntries_def listing_step_def by (auto simp: let_io_Done)
  note dir = fs_is_directory_Done [OF d]
  show ?thesis
  proof (cases d)
    case True
    with rest obtain es w2 where "fs_directory_iterator p w1 = (Done es, w2)" and f: "fold_io es (listing_step p pat dirs) [] w2 = (Done fl, w')"
      by (auto simp: let_io_Done)
    then obtain k i where "follow 40 (files w) (comps p) = Some (k, i)" "is_dir i" "es = list_dir (files w) k" "files w2 = files w"
      by (auto simp: fs_directory_iterator_def let_io_Done get_io_Done sys_call_def dir split: option.splits if_splits)
    with f show ?thesis by auto
  next
    case False
    with rest dir show ?thesis by (auto simp: ret_Done split: option.splits)
  qed
qed

lemma dirEntries_lists:
  assumes run: "dirEntries p pat dirs w = (Done fl, w')" and d: "map_of (files w) (comps p) = Some d" "is_dir d"
    and e: "(comps p @ [n], i) \<in> set (files w)" "is_reg i" "glob_match pat n"
  shows "n \<in> set fl"
proof -
  have "follow 40 (files w) (comps p) = Some (comps p, d)" using d by (simp add: eval_nat_numeral is_dir_def)
  with dirEntries_run [OF run] d obtain w1 w2
    where f: "fold_io (list_dir (files w) (comps p)) (listing_step p pat dirs) [] w1 = (Done fl, w2)" by auto
  have m: "(n, i) \<in> set (list_dir (files w) (comps p))" using e(1) by (simp add: list_dir_iff)
  show ?thesis
    by (rule fold_io_reaches [OF f m])
       (use e(2,3) in \<open>auto simp: listing_step_def let_io_Done ret_Done entry_listed_def is_reg_def is_link_def split: if_splits kind.splits\<close>)
qed

lemma dirEntries_names:
  assumes "dirEntries p pat dirs w = (Done fl, w')" and "n \<in> set fl"
  shows "\<exists>d i. (d @ [n], i) \<in> set (files w)"
proof -
  from dirEntries_run [OF assms(1)] assms(2) obtain w1 w2 d where
    "fold_io (list_dir (files w) d) (listing_step p pat dirs) [] w1 = (Done fl, w2)"
    by (auto split: option.splits if_splits)
  then have "set fl \<subseteq> fst ` set (list_dir (files w) d)"
  proof (rule fold_io_preserves [where I = "\<lambda>s. set s \<subseteq> fst ` set (list_dir (files w) d)"])
    fix e s v s' v'
    assume "e \<in> set (list_dir (files w) d)" and "set s \<subseteq> fst ` set (list_dir (files w) d)" and "listing_step p pat dirs e s v = (Done s', v')"
    moreover from this(3) have "set s' \<subseteq> insert (fst e) (set s)" by (auto simp: listing_step_def let_io_Done ret_Done split: if_splits)
    ultimately show "set s' \<subseteq> fst ` set (list_dir (files w) d)" by blast
  qed simp
  with assms(2) show ?thesis by (force simp: list_dir_iff)
qed

lemma ends_fold:
  assumes "I s w" and "\<And>x s w. x \<in> set xs \<Longrightarrow> I s w \<Longrightarrow> ends (f x s) w I F"
  shows "ends (fold_io xs f s) w I F"
  using assms
proof (induction xs arbitrary: s w)
  case (Cons x xs)
  then have "ends (f x s) w I F" by simp
  then show ?case unfolding fold_io.simps ends_let by (rule ends_mono) (use Cons in auto)
qed (simp add: ends_simple)

lemma ends_dirEntries:
  assumes "names_ok (files w)"
    and "\<And>fl w'. files w' = files w \<Longrightarrow> list_all valid_comp fl \<Longrightarrow> Q fl w'" and "\<And>w'. F w'"
  shows "ends (dirEntries p pat dirs) w Q F"
proof -
  obtain r w' where run: "dirEntries p pat dirs w = (r, w')" by force
  have "Q fl w'" if r: "r = Done fl" for fl
  proof -
    have "list_all valid_comp fl"
      using dirEntries_names [OF run [unfolded r]] assms(1) by (force simp: list_all_iff names_ok_def)
    with assms(2) same_filesD [OF same.file_readers(4) run] show ?thesis by simp
  qed
  with run assms(3) show ?thesis by (simp add: ends_def split: outcome.split)
qed

lemma glob_dash: "glob_match ''*-*'' s \<longleftrightarrow> CHR ''-'' \<in> set s"
proof -
  have "glob_tokens ''*-*'' = [GStar, GLit (CHR ''-''), GStar]" by simp
  moreover have "tokens_match [GStar] t" for t by (subst tokens_match_Star) (auto intro: exI [of _ "[]"])
  ultimately have "glob_match ''*-*'' s \<longleftrightarrow> (\<exists>s'. suffix (CHR ''-'' # s') s)"
    by (auto simp: glob_match_tokens tokens_match_Star tokens_match_fixed fixed_token_def simp del: tokens_match.simps)
  then show ?thesis by (metis in_set_conv_decomp suffix_def)
qed

end
