(* ===== verification/Local.thy ===== *)
theory Local
  imports Listing
begin

text \<open>
  Changes that stay inside an area. A rename and a removal of a tree stay inside the paths they are given
  as long as nothing has to be copied to another device.
\<close>

section \<open>One device\<close>

text \<open>
  Spaces and their deleted areas are on one device. Then a move stays inside the two paths it is given.
\<close>

definition one_device :: "world \<Rightarrow> bool" where
  "one_device w \<longleftrightarrow> (\<forall>n k. fault w n Sys_rename k \<noteq> Some EXDEV)"

definition local_only :: "(key \<Rightarrow> bool) \<Rightarrow> world \<Rightarrow> world \<Rightarrow> bool" where
  "local_only A w w' \<longleftrightarrow>
     (names_ok (files w) \<and> one_device w \<longrightarrow> only A w w' \<and> names_ok (files w') \<and> one_device w')"

lemma local_quiet: "keeps same_files m \<Longrightarrow> keeps same_setup m \<Longrightarrow> keeps (local_only A) m"
  by (simp add: keeps_def local_only_def same_files_def only_def same_setup_def one_device_def)

interpretation local: tool_relation "local_only A" for A
proof
  show "local_only A w w" "local_only A u v \<Longrightarrow> local_only A v w \<Longrightarrow> local_only A u w" for u v w
    by (auto simp: local_only_def only_def)
qed (rule local_quiet [OF same.uid_call settings.uid_call] local_quiet [OF same.gid_call settings.gid_call]
     local_quiet [OF same.groups_call settings.groups_call] local_quiet [OF same.cap_call settings.cap_call]
     local_quiet [OF same.any_call settings.any_call] local_quiet [OF same.any_time settings.any_time]
     local_quiet [OF same.any_random settings.any_random] local_quiet [OF same.any_output settings.any_output]
     local_quiet [OF same.any_input settings.any_input] local_quiet [OF same.any_identity settings.any_identity])+

lemma fs_move_names: "names_ok fs \<Longrightarrow> list_all valid_comp b \<Longrightarrow> names_ok (fs_move a b fs)"
  unfolding names_ok_def fs_move_def list_all_iff by (auto, metis fst_conv in_set_dropD)

lemma rename_rule_names: "rename_rule a (comps b) fs = Inr fs' \<Longrightarrow> names_ok fs \<Longrightarrow> names_ok fs'"
  using fs_move_names [of fs "comps b" a]
  by (auto simp: rename_rule_def list_all_iff comps_are_valid split: option.splits if_splits)

lemma rename_rule_no_trouble: "rename_rule a b fs \<noteq> Inl (Trouble t)"
  by (auto simp: rename_rule_def split: option.splits if_splits)

lemma local_rename_then:
  assumes "\<And>k. under a k \<Longrightarrow> A k" and "\<And>k. under b k \<Longrightarrow> A k"
    and "\<And>x. x \<noteq> Filesystem_error (Trouble EXDEV) \<Longrightarrow> keeps (local_only A) (h x)"
  shows "keeps (local_only A) (catch_io (seq_io (fs_rename a b) (ret v)) h)"
proof (rule keepsI)
  fix w r w' assume run: "catch_io (seq_io (fs_rename a b) (ret v)) h w = (r, w')"
  show "local_only A w w'" unfolding local_only_def
  proof
    assume ok: "names_ok (files w) \<and> one_device w"
    obtain x w1 where x: "fs_rename a b w = (x, w1)" by force
    have "same_setup w (snd (fs_rename a b w))" using settings.path_calls(4) [OF TrueI, of a b] by (simp add: keeps_def)
    with x have f: "fault w1 = fault w" by (simp add: same_setup_def)
    have "keeps (only A) (fs_rename a b)" by (rule only_fs(1)) (use assms(1,2) in auto)
    then have o: "only A w w1" using x by (rule keepsD)
    have e: "e \<noteq> Trouble EXDEV" if "x = Throw (Filesystem_error e)" for e
      using x that ok rename_rule_no_trouble [of "comps a" "comps b" "files w" EXDEV]
      by (auto simp: fs_rename_def or_throw_def sys_rename_def change_files_run one_device_def sys_call_def io_defs
          split: option.splits sum.splits)
    from x have n: "names_ok (files w1)"
      by (cases rule: fs_rename_cases) (use ok in \<open>auto dest: rename_rule_names\<close>)
    have mid: "only A w w1 \<and> names_ok (files w1) \<and> one_device w1" using o n f ok by (simp add: one_device_def)
    show "only A w w' \<and> names_ok (files w') \<and> one_device w'"
    proof (cases x)
      case (Throw z)
      with e have "z \<noteq> Filesystem_error (Trouble EXDEV)" by blast
      with assms(3) have "keeps (local_only A) (h z)" by blast
      moreover have "h z w1 = (r, w')" using run x Throw by (simp add: catch_io_def seq_io_def let_io_def)
      ultimately have "local_only A w1 w'" by (rule keepsD)
      with mid show ?thesis by (auto simp: local_only_def only_def)
    qed (use run x mid in \<open>simp_all add: catch_io_def seq_io_def let_io_def ret_def\<close>)
  qed
qed

lemma seq_ret: "seq_io m (ret ()) = m"
  by (rule ext) (auto simp: seq_io_def let_io_def ret_def split: prod.split outcome.split)

lemmas local_rename_catch = local_rename_then [where v = "()", unfolded seq_ret]

lemma local_fs_rename:
  assumes "\<And>k. under a k \<Longrightarrow> A k" and "\<And>k. under b k \<Longrightarrow> A k"
  shows "keeps (local_only A) (fs_rename a b)"
proof -
  have "catch_io (fs_rename a b) throw = fs_rename a b"
    by (rule ext) (auto simp: catch_io_def throw_def split: prod.split outcome.split)
  moreover have "keeps (local_only A) (catch_io (fs_rename a b) throw)"
    by (rule local_rename_catch) (use assms in \<open>auto intro: local.rules\<close>)
  ultimately show ?thesis by simp
qed

lemma settings_rmtree: "keeps same_setup (open_and_delete p d b)"
proof -
  have "keeps same_setup (rmtree_fd n p d)" for n p
    by (induction n arbitrary: p) (auto simp: rmtree_dir_def rmtree_entry_def Let_def intro!: settings.all_calls)
  then show ?thesis unfolding open_and_delete_def by (intro settings.all_calls TrueI)
qed

lemma local_delete_tree:
  assumes "\<And>k. under p k \<Longrightarrow> A k"
  shows "keeps (local_only A) (open_and_delete p d b)"
  unfolding keeps_def local_only_def
proof (intro allI impI)
  fix w assume ok: "names_ok (files w) \<and> one_device w"
  let ?w = "snd (open_and_delete p d b w)"
  have r: "removes (under p) w ?w" using open_and_delete_frame [of p d b] ok by (simp add: keeps_def)
  have "fault ?w = fault w" using settings_rmtree [of p d b] by (simp add: keeps_def same_setup_def)
  moreover have "only A w ?w"
    using r assms by (auto simp: removes_def only_def map_of_filter_key [where P = "\<lambda>k. \<not> D k" for D])
  ultimately show "only A w ?w \<and> names_ok (files ?w) \<and> one_device ?w"
    using ok removes_names [OF r] by (simp add: one_device_def)
qed

lemma local_rmtree:
  assumes "\<And>k. under p k \<Longrightarrow> A k"
  shows "keeps (local_only A) (rmtree p d)" and "keeps (local_only A) (rmtree_below p)"
  unfolding rmtree_def rmtree_below_def by (rule local_delete_tree, erule assms)+

section \<open>Changes inside an area\<close>

lemma let_exit: "let_io (exit_with n) f = exit_with n"
  by (rule ext) (simp add: let_io_def exit_with_def)

text \<open>
  A relation that holds across a change of a file in the area \<open>A\<close>, and the database operations on an
  entry whose file lies there.
\<close>

locale area_relation = tool_relation +
  fixes A :: "key \<Rightarrow> bool"
  assumes changes: "A (comps p) \<Longrightarrow> keeps R (sys_open_trunc p m)" "A (comps p) \<Longrightarrow> keeps R (sys_write_all p s)"
      "A (comps p) \<Longrightarrow> keeps R (sys_fchmod p m)" "A (comps p) \<Longrightarrow> keeps R (sys_fchown p u g)"
      "A (comps p) \<Longrightarrow> keeps R (fs_remove p)"
    and moves: "(\<And>k. under a k \<Longrightarrow> A k) \<Longrightarrow> (\<And>k. under b k \<Longrightarrow> A k) \<Longrightarrow> keeps R (fs_rename a b)"
begin

lemma let_entry:
  "e_dbfilepath a = d \<Longrightarrow> (\<And>x. e_dbfilepath x = d \<Longrightarrow> keeps R (f x)) \<Longrightarrow> keeps R (let x = a in f x)"
  by simp

lemma writeEntry_in:
  assumes "A (comps (e_dbfilepath e))"
  shows "keeps R (writeEntry y b e)"
proof -
  have o: "keeps R (open_and_write (e_dbfilepath e) s m)" for s m
    unfolding open_and_write_def by (intro rules changes assms)
  have c: "keeps R (chown_entry (e_dbfilepath e) b b' u g)" for b b' u g
    unfolding chown_entry_def seqs_io.simps by (intro rules cap_calls changes assms)
  show ?thesis unfolding writeEntry_def Let_def seqs_io.simps
    by (intro rules cap_calls o c changes assms)
qed

lemma useExtension_in: "A (comps (e_dbfilepath e)) \<Longrightarrow> keeps R (useExtension y t m r c e)"
  unfolding useExtension_def
  by (intro let_step tool_readers(5) let_entry [where d = "e_dbfilepath e"] if_step seq_step pure writeEntry_in) simp_all

lemma remove_in: "A (comps (e_dbfilepath e)) \<Longrightarrow> keeps R (remove e)"
  unfolding remove_def by (intro tools changes; auto intro!: tools)

lemma deleteEntry_in:
  "A (comps (entry_path (db_config db) (db_fs db) i d)) \<Longrightarrow> keeps R (deleteEntry db i d)"
  unfolding deleteEntry_def by (intro tools changes; auto intro!: tools split: exn.split)

lemma release_in:
  assumes own: "\<And>k. under (e_dbfilepath e) k \<Longrightarrow> A k"
    and target: "\<And>f t k. getFsConfig (db_config (e_parent e)) (e_filesystem e) = Some f \<Longrightarrow> under (release_target e f t) k \<Longrightarrow> A k"
  shows "keeps R (release y t e)"
proof -
  have d: "A (comps (e_dbfilepath e))" by (rule own) (simp add: under_def)
  have a: "keeps R (release_as (e\<lparr>e_released := now\<rparr>) f t)"
    if "getFsConfig (db_config (e_parent e)) (e_filesystem e) = Some f" for f now
    unfolding release_as_def Let_def
    unfolding seqs_io.simps
    by (intro tools moves) (use own target [OF that] in \<open>auto intro!: tools split: exn.split simp: release_target_def\<close>)
  show ?thesis
  proof (cases "getFsConfig (db_config (e_parent e)) (e_filesystem e)")
    case None
    show ?thesis unfolding release_def fs_config_or_exit_def None option.case let_exit
      by (intro rules any_time writeEntry_in) (simp add: d)
  next
    case (Some f)
    show ?thesis unfolding release_def fs_config_or_exit_def Some option.case let_ret
      by (intro rules any_time writeEntry_in a Some) (simp add: d)
  qed
qed

end

interpretation frame: area_relation "only A" A for A
  by unfold_locales (intro only_tree only_write only_fs; assumption)+

lemma local_change:
  assumes "keeps (only A) (change_files op k rule)"
    and "\<And>w fs. rule w = Inr fs \<Longrightarrow> names_ok (files w) \<Longrightarrow> names_ok fs"
  shows "keeps (local_only A) (change_files op k rule)"
  unfolding keeps_def local_only_def
proof (intro allI impI)
  fix w assume ok: "names_ok (files w) \<and> one_device w"
  let ?w = "snd (change_files op k rule w)"
  have "only A w ?w" using assms(1) by (simp add: keeps_def)
  moreover have "names_ok (files ?w)"
    using ok assms(2) unfolding change_files_run
    by (auto simp: sys_call_def split: option.split sum.split)
  moreover have "fault ?w = fault w" by (auto simp: change_files_run sys_call_def split: option.split sum.split)
  ultimately show "only A w ?w \<and> names_ok (files ?w) \<and> one_device ?w" using ok by (simp add: one_device_def)
qed

lemma put_names: "names_ok fs \<Longrightarrow> names_ok (fs_put (comps p) i fs)"
  by (auto simp: names_ok_def fs_put_def fs_del_def list_all_iff comps_are_valid)

lemma update_names: "names_ok fs \<Longrightarrow> names_ok (update_inode (comps p) f fs)"
  by (simp add: update_inode_def put_names split: option.split)

interpretation local: area_relation "local_only A" A for A
proof
  fix p assume A: "A (comps p)"
  show "keeps (local_only A) (sys_open_trunc p m)" for m unfolding sys_open_trunc_def
    by (rule local_change, rule only_tree(5) [where A = A, OF A, unfolded sys_open_trunc_def])
       (auto simp: open_trunc_rule_def put_names split: option.splits kind.splits if_splits)
  show "keeps (local_only A) (sys_fchmod p m)" for m unfolding sys_fchmod_def
    by (rule local_change, rule only_tree(6) [where A = A, OF A, unfolded sys_fchmod_def]) (auto simp: update_names)
  show "keeps (local_only A) (sys_fchown p u g)" for u g unfolding sys_fchown_def
    by (rule local_change, rule only_tree(7) [where A = A, OF A, unfolded sys_fchown_def]) (auto simp: update_names)
  have "keeps (only A) (change_files Sys_unlink (comps p) (\<lambda>w. remove_rule (comps p) (files w)))"
    by (rule change_files_only)
       (use A in \<open>force simp: remove_rule_def unlink_rule_def rmdir_rule_def map_of_del split: option.splits if_splits\<close>)
  then have "keeps (local_only A) (change_files Sys_unlink (comps p) (\<lambda>w. remove_rule (comps p) (files w)))"
    by (rule local_change)
       (auto simp: remove_rule_def unlink_rule_def rmdir_rule_def names_ok_def fs_del_def split: option.splits if_splits)
  then show "keeps (local_only A) (fs_remove p)" unfolding fs_remove_def by (intro local.rules)
  have "keeps (local_only A) (put_io (\<lambda>w. w\<lparr>files := update_inode (comps p) f (files w)\<rparr>))" for f
    using A by (auto simp: keeps_def put_io_def local_only_def only_def update_names one_device_def update_inode_def map_of_put put_names split: option.split)
  then show "keeps (local_only A) (sys_write_all p s)" for s
    unfolding sys_write_all_def Let_def by (intro local.rules local.any_call)
next
  show "keeps (local_only A) (fs_rename a b)" if "\<And>k. under a k \<Longrightarrow> A k" "\<And>k. under b k \<Longrightarrow> A k" for a b
    using that by (rule local_fs_rename)
qed

section \<open>Runs\<close>

context step_relation
begin

lemma let_run_step:
  assumes "keeps R m" and "\<And>w a w'. m w = (Done a, w') \<Longrightarrow> keeps R (f a)"
  shows "keeps R (let_io m f)"
proof (rule keepsI)
  fix w r w' assume run: "let_io m f w = (r, w')"
  obtain x v where x: "m w = (x, v)" by force
  then have wv: "R w v" using assms(1) by (rule keepsD [rotated])
  show "R w w'"
  proof (cases x)
    case (Done a)
    with x run have "f a v = (r, w')" by (simp add: let_io_def)
    with assms(2) [of w a v] x Done have "R v w'" using keepsD by metis
    with wv show ?thesis by (rule trans)
  qed (use x run wv in \<open>simp_all add: let_io_def\<close>)
qed

end

text \<open>A world in which so far nothing was changed but the clock, the trace and the identity.\<close>

definition untouched :: "world \<Rightarrow> world \<Rightarrow> bool" where
  "untouched w v \<longleftrightarrow> files v = files w \<and> same_setup w v"

lemma untouched_refl: "untouched w w"
  by (simp add: untouched_def same_setup_def)

lemma ends_untouched:
  assumes "keeps same_files m" and "keeps same_setup m" and "untouched w v"
    and "\<And>a v'. m v = (Done a, v') \<Longrightarrow> untouched w v' \<Longrightarrow> Q a v'" and "\<And>v'. untouched w v' \<Longrightarrow> F v'"
  shows "ends m v Q F"
proof -
  obtain r v' where run: "m v = (r, v')" by force
  from same_filesD [OF assms(1) run] keepsD [OF assms(2) run] assms(3) have "untouched w v'"
    by (auto simp: untouched_def same_setup_def)
  with run assms(4,5) show ?thesis by (simp add: ends_def split: outcome.split)
qed

lemma ends_reader:
  assumes "keeps same_files m" and "keeps same_setup m"
    and "\<And>a w'. m w = (Done a, w') \<Longrightarrow> files w' = files w \<Longrightarrow> fault w' = fault w \<Longrightarrow> Q a w'"
    and "\<And>w'. files w' = files w \<Longrightarrow> fault w' = fault w \<Longrightarrow> F w'"
  shows "ends m w Q F"
proof -
  obtain r w' where run: "m w = (r, w')" by force
  from same_filesD [OF assms(1) run] keepsD [OF assms(2) run] have "files w' = files w" "fault w' = fault w"
    by (simp_all add: same_setup_def)
  with run assms(3,4) show ?thesis by (simp add: ends_def split: outcome.split)
qed

lemma ends_time: "ends time_now w Q F = Q (clock w (steps w)) (w\<lparr>steps := Suc (steps w)\<rparr>)"
  by (simp add: ends_def time_now_def)

lemma ends_only:
  assumes "keeps (only A) m" and "only A w v" and "\<And>a v'. only A w v' \<Longrightarrow> Q a v'" and "\<And>v'. only A w v' \<Longrightarrow> F v'"
  shows "ends m v Q F"
  by (rule ends_keeps [OF assms(1)]) (use assms(2-4) frame.trans in blast)+

definition kept_local :: "(key \<Rightarrow> bool) \<Rightarrow> world \<Rightarrow> world \<Rightarrow> bool" where
  "kept_local A w v \<longleftrightarrow> only A w v \<and> names_ok (files v) \<and> one_device v"

lemma kept_local_quiet: "kept_local A w v \<Longrightarrow> files v' = files v \<Longrightarrow> fault v' = fault v \<Longrightarrow> kept_local A w v'"
  by (simp add: kept_local_def only_def one_device_def)

lemma ends_local:
  assumes "keeps (local_only A) m" and "kept_local A w v"
  shows "ends m v (\<lambda>a v'. kept_local A w v') (kept_local A w)"
  using assms by (auto simp: ends_def keeps_def local_only_def kept_local_def only_def split: prod.split outcome.split)

lemma ends_if: "ends (if b then m else m') w Q F = (if b then ends m w Q F else ends m' w Q F)"
  by simp

lemma if_both: "P \<Longrightarrow> Q \<Longrightarrow> if b then P else Q"
  by simp

lemma ends_identity:
  assumes "untouched w v"
  shows "ends getuid v Q F = Q (ruid (cred w)) v"
    and "getpwuid (accounts w) (ruid (cred w)) = Some pw \<Longrightarrow> ends getUsername v Q' F = Q' (pw_name pw) v"
  using assms by (auto simp: getuid_def ends_simple ends_def get_io_def getUsername_run untouched_def same_setup_def)

section \<open>Paths beside each other\<close>

lemma apart_siblings: "m \<noteq> n \<Longrightarrow> apart (d @ [m]) (d @ [n])"
  by (simp add: apart_def)

lemma apart_extend: "apart a b \<Longrightarrow> apart (a @ r) (b @ s)"
  using apart_append(1) [of a b r s] apart_append(2) [of a b s r] by (simp add: apart_def [of "a @ r"])

lemma apart_not_prefix: "apart a p \<Longrightarrow> prefix (a @ r) k \<Longrightarrow> \<not> prefix p k"
  unfolding apart_def by (metis append_prefixD prefix_same_cases)

lemma stamped_valid: "valid_comp d \<Longrightarrow> valid_comp (stamped d now)"
  by (cases d) (auto simp: stamped_def valid_comp_def real_comp_def num_simps)

end
