(* ===== verification/Expirer.thy ===== *)
theory Expirer
  imports Site Local
begin

text \<open>
  \<open>src/src/ws_expirer.cpp\<close>: the program that is run from cron as root. It moves directories without
  database entry to the deleted area (\<open>clean_stray_directories\<close>), expires workspaces, and deletes
  expired and released ones after their keep time (\<open>expire_workspaces\<close>). Log lines and the text of
  the summary are left out; times read only for log lines are not read here.
\<close>

section \<open>Statistics\<close>

record expire_result =
  active_seen :: int
  active_keep :: int
  active_expired :: int
  active_mails :: int
  inactive_seen :: int
  inactive_keep :: int
  inactive_deleted :: int

definition expire_result_zero :: expire_result where
  "expire_result_zero = \<lparr>active_seen = 0, active_keep = 0, active_expired = 0, active_mails = 0,
     inactive_seen = 0, inactive_keep = 0, inactive_deleted = 0\<rparr>"

definition expire_result_add :: "expire_result \<Rightarrow> expire_result \<Rightarrow> expire_result" where
  "expire_result_add a b =
     \<lparr>active_seen = active_seen a + active_seen b, active_keep = active_keep a + active_keep b,
      active_expired = active_expired a + active_expired b, active_mails = active_mails a + active_mails b,
      inactive_seen = inactive_seen a + inactive_seen b, inactive_keep = inactive_keep a + inactive_keep b,
      inactive_deleted = inactive_deleted a + inactive_deleted b\<rparr>"

record clean_stray_result =
  valid_ws :: int
  invalid_ws :: int
  valid_deleted :: int
  invalid_deleted :: int

definition clean_stray_zero :: clean_stray_result where
  "clean_stray_zero = \<lparr>valid_ws = 0, invalid_ws = 0, valid_deleted = 0, invalid_deleted = 0\<rparr>"

definition clean_stray_add :: "clean_stray_result \<Rightarrow> clean_stray_result \<Rightarrow> clean_stray_result" where
  "clean_stray_add a b =
     \<lparr>valid_ws = valid_ws a + valid_ws b, invalid_ws = invalid_ws a + invalid_ws b,
      valid_deleted = valid_deleted a + valid_deleted b, invalid_deleted = invalid_deleted a + invalid_deleted b\<rparr>"

text \<open>The database files that could not be used, with the reason.\<close>

type_synonym morbid_db_files = "(string \<times> string) list"

definition formatTimedelta :: "int \<Rightarrow> string" where
  "formatTimedelta seconds =
     (let s = (if seconds < 0 then 0 else seconds);
          days = s div 86400; hours = (s mod 86400) div 3600; minutes = (s mod 3600) div 60;
          width3 = (\<lambda>n. let t = show_int n in replicate (3 - length t) (CHR '' '') @ t)
      in if days > 0 then width3 days @ '' days   ''
         else if hours > 0 then width3 hours @ '' hours  ''
         else width3 (if minutes > 0 then minutes else 1) @ '' minutes'')"

section \<open>Moving directories\<close>

definition robust_rename :: "path \<Rightarrow> path \<Rightarrow> unit io" where
  "robust_rename src dest =
     catch_io (fs_rename src dest)
       (\<lambda>x. case x of
          Filesystem_error e \<Rightarrow>
            if e = Trouble EXDEV then
              let_io (mv src dest) (\<lambda>r. if r \<noteq> 0 then throw (Filesystem_error (Trouble EIO)) else ret ())
            else throw x
        | _ \<Rightarrow> throw x)"

definition catch_filesystem_error :: "unit io \<Rightarrow> unit io" where
  "catch_filesystem_error m = catch_io m (\<lambda>x. case x of Filesystem_error e \<Rightarrow> ret () | _ \<Rightarrow> throw x)"

definition trailing_timestamp :: "string \<Rightarrow> int option" where
  "trailing_timestamp name =
     (case rfind_char (CHR ''-'') name of
        None \<Rightarrow> None
      | Some dash \<Rightarrow>
          if dash = 0 \<or> dash + 1 \<ge> length name then None
          else (let suffix = drop (dash + 1) name
                in if \<not> list_all is_digit suffix then None
                   else (case stoll_digits suffix of
                           None \<Rightarrow> None
                         | Some v \<Rightarrow> if v \<le> 0 \<or> v > 4102444800 then None else Some v)))"

definition STRAY_GRACETIME :: int where
  "STRAY_GRACETIME = 3600"

section \<open>Opening the database of a filesystem\<close>

text \<open>A database that cannot be opened is reported to the administrators and skipped.\<close>

definition report_bad_db :: "mail_library \<Rightarrow> config \<Rightarrow> exn \<Rightarrow> unit io" where
  "report_bad_db l c x =
     (let g = global c; mails = adminmail g
      in if mail_from g = [] \<or> mails = [] then ret ()
         else let_io (generateErrorMail l (mail_from g) mails (what_text l x)) (\<lambda>m.
              let_io (sendCurl l (''smtp://'' @ smtphost g) (mail_from g) mails m) (\<lambda>sent. ret ())))"

definition open_or_report :: "mail_library \<Rightarrow> config \<Rightarrow> string \<Rightarrow> database_handle option io" where
  "open_or_report l c fs =
     catch_io (let_io (openDB c fs) (\<lambda>db. ret (Some db)))
       (\<lambda>x. case x of
          DatabaseException \<Rightarrow> seq_io (report_bad_db l c x) (ret None)
        | _ \<Rightarrow> throw x)"

section \<open>clean_stray_directories\<close>

text \<open>The directories of the spaces that look like a workspace, each with its space.\<close>

definition space_dirs :: "path list \<Rightarrow> (string \<times> string) list io" where
  "space_dirs spaces =
     fold_io spaces (\<lambda>space dirs.
       let_io (dirEntries space ''*'' True) (\<lambda>entries.
         fold_io entries (\<lambda>entry dirs.
           let_io (fs_is_directory (path_append space entry)) (\<lambda>d.
             ret (if d \<and> find_char (CHR ''-'') entry \<noteq> None then dirs @ [(space, entry)] else dirs))) dirs)) []"

definition deleted_dirs :: "string \<Rightarrow> path list \<Rightarrow> (string \<times> string) list io" where
  "deleted_dirs deletedp spaces =
     fold_io spaces (\<lambda>space dirs.
       let_io (dirEntries (path_append space deletedp) ''*-*'' True) (\<lambda>entries.
         fold_io entries (\<lambda>entry dirs.
           let_io (fs_is_directory (path_append (path_append space deletedp) entry)) (\<lambda>d.
             ret (if d then dirs @ [(space, entry)] else dirs))) dirs)) []"

text \<open>The ids with the workspace paths of their entries, empty for entries that cannot be read.\<close>

definition known_workspaces :: "ryml \<Rightarrow> database_handle \<Rightarrow> string list \<Rightarrow> (string \<times> path) list io" where
  "known_workspaces y db ids =
     fold_io ids (\<lambda>wsid known.
       let_io (catch_io (let_io (readEntry y db wsid False) (\<lambda>e. ret (e_workspace e))) (\<lambda>x. ret []))
         (\<lambda>wspath. ret (known @ [(wsid, wspath)]))) []"

definition is_known :: "(string \<times> path) list \<Rightarrow> string \<Rightarrow> string \<Rightarrow> bool" where
  "is_known known space dir = list_ex (\<lambda>item. snd item = path_append space dir \<or> fst item = dir) known"

definition stray_dir ::
  "bool \<Rightarrow> string \<Rightarrow> (string \<times> path) list \<Rightarrow> string \<times> string \<Rightarrow> clean_stray_result \<Rightarrow> clean_stray_result io" where
  "stray_dir dryrun deletedp known founddir r =
     (let space = fst founddir; dir = snd founddir; src = path_append space dir
      in if is_known known space dir then ret (r\<lparr>valid_ws := valid_ws r + 1\<rparr>)
         else let_io (sys_lstat src) (\<lambda>st.
           case st of
             Inl e \<Rightarrow> ret r
           | Inr i \<Rightarrow> let_io time_now (\<lambda>t.
               if mtime i > t - STRAY_GRACETIME then ret r
               else let_io time_now (\<lambda>now.
                 seq_io (when_io (\<not> dryrun) (catch_filesystem_error
                           (robust_rename src (path_append (path_append space deletedp) (stamped (filename dir) now)))))
                   (ret (r\<lparr>invalid_ws := invalid_ws r + 1\<rparr>))))))"

definition removed_stray_dir ::
  "bool \<Rightarrow> config \<Rightarrow> string \<Rightarrow> int \<Rightarrow> string list \<Rightarrow> string \<times> string \<Rightarrow> clean_stray_result \<Rightarrow> clean_stray_result io" where
  "removed_stray_dir dryrun c deletedp run_start ids founddir r =
     (let space = fst founddir; dir = snd founddir
      in if dir \<in> set ids then ret (r\<lparr>valid_deleted := valid_deleted r + 1\<rparr>)
         else if (case trailing_timestamp dir of None \<Rightarrow> False | Some movets \<Rightarrow> movets \<ge> run_start) then ret r
         else seq_io (when_io (\<not> dryrun)
                (let_io time_now (\<lambda>t.
                 let_io (rmtree (path_append (path_append space deletedp) dir) (t + deldirtimeout (global c))) (\<lambda>n. ret ()))))
              (ret (r\<lparr>invalid_deleted := invalid_deleted r + 1\<rparr>)))"

definition clean_against_db ::
  "ryml \<Rightarrow> config \<Rightarrow> string \<Rightarrow> string list \<Rightarrow> bool \<Rightarrow> int \<Rightarrow> (string \<times> string) list \<Rightarrow> database_handle \<Rightarrow> clean_stray_result io" where
  "clean_against_db y c deletedp spaces dryrun run_start dirs db =
     let_io (matchPattern y db ''*'' ''*'' [] False False) (\<lambda>ids.
     let_io (known_workspaces y db ids) (\<lambda>known.
     let_io (fold_io dirs (stray_dir dryrun deletedp known) clean_stray_zero) (\<lambda>r.
     let_io (deleted_dirs deletedp spaces) (\<lambda>dirs2.
     let_io (matchPattern y db ''*'' ''*'' [] True False) (\<lambda>ids2.
       fold_io dirs2 (removed_stray_dir dryrun c deletedp run_start ids2) r)))))"

definition clean_stray_directories ::
  "ryml \<Rightarrow> mail_library \<Rightarrow> config \<Rightarrow> string \<Rightarrow> string \<Rightarrow> bool \<Rightarrow> clean_stray_result io" where
  "clean_stray_directories y l c fs single_space dryrun =
     let_io time_now (\<lambda>run_start.
     let_io (fs_config_or_exit c fs) (\<lambda>f.
       let spaces = (if single_space \<noteq> [] then [single_space] else fs_spaces f)
       in if single_space \<noteq> [] \<and> single_space \<notin> set (fs_spaces f) then ret clean_stray_zero
          else let_io (space_dirs spaces) (\<lambda>dirs.
               let_io (open_or_report l c fs) (\<lambda>opened.
                 case opened of
                   None \<Rightarrow> ret clean_stray_zero
                 | Some db \<Rightarrow> clean_against_db y c (deletedPath c fs) spaces dryrun run_start dirs db))))"

section \<open>Expiring\<close>

text \<open>Reading an entry; a \<open>DatabaseException\<close> is answered with \<open>None\<close>, anything else is not caught.\<close>

definition read_or_morbid :: "ryml \<Rightarrow> database_handle \<Rightarrow> string \<Rightarrow> bool \<Rightarrow> entry option io" where
  "read_or_morbid y db i deleted = try_database (readEntry y db i deleted)"

definition user_conf_text :: "path \<Rightarrow> string io" where
  "user_conf_text home =
     (if home = [] then ret []
      else let_io (fs_is_symlink (home @ ''/.ws_user.conf'')) (\<lambda>link.
        if link then ret []
        else let_io (fs_is_regular_file (home @ ''/.ws_user.conf'')) (\<lambda>reg.
          if reg then readFileNoFollow (home @ ''/.ws_user.conf'') 1048576 else ret [])))"

definition send_expiration_mail ::
  "'n yaml_cpp \<Rightarrow> mail_library \<Rightarrow> config \<Rightarrow> Filesystem_config \<Rightarrow> string \<Rightarrow> string \<Rightarrow> entry \<Rightarrow> unit io" where
  "send_expiration_mail yc l c f fs i e =
     catch_io
       (let_io (get_io (\<lambda>w. getUserhome_of w (entry_getUsername w e))) (\<lambda>home.
        let_io (user_conf_text home) (\<lambda>conf.
          let u = UserConfig yc conf; g = global c
          in if uc_expirationmail u \<and> e_mailaddress e \<noteq> [] \<or> e_reminder e > 0 then
               let_io (generateExpirationMail l (mail_from g) [e_mailaddress e] (e_expiration e) i fs (clustername g) (fs_keeptime f)) (\<lambda>m.
               let_io (sendCurl l (''smtp://'' @ smtphost g) (mail_from g) [e_mailaddress e] m) (\<lambda>sent. ret ()))
             else ret ())))
       (\<lambda>x. ret ())"

text \<open>The workspace of an entry that was just expired moves after it, under the same timestamp.\<close>

definition retire_workspace :: "config \<Rightarrow> string \<Rightarrow> entry \<Rightarrow> string \<Rightarrow> unit io" where
  "retire_workspace c fs e timestamp =
     catch_filesystem_error
       (robust_rename (e_workspace e)
          (path_append (path_append (remove_filename (e_workspace e)) (deletedPath c fs))
             (filename (e_workspace e) @ CHR ''-'' # timestamp)))"

definition expire_one ::
  "ryml \<Rightarrow> 'n yaml_cpp \<Rightarrow> mail_library \<Rightarrow> config \<Rightarrow> string \<Rightarrow> string \<Rightarrow> entry \<Rightarrow> unit io" where
  "expire_one y yc l c fs i e =
     let_io time_now (\<lambda>t.
     let_io (catch_io (let_io (expire y (show_int t) e) (\<lambda>r. ret (Some r))) (\<lambda>x. ret None)) (\<lambda>r.
       case r of
         None \<Rightarrow> ret ()
       | Some (timestamp, e') \<Rightarrow>
           seq_io (retire_workspace c fs e' timestamp)
             (let_io (fs_config_or_exit c fs) (\<lambda>f.
               when_io (fs_expirationmail f) (send_expiration_mail yc l c f fs i e')))))"

definition remind ::
  "mail_library \<Rightarrow> config \<Rightarrow> string \<Rightarrow> bool \<Rightarrow> string \<Rightarrow> entry \<Rightarrow> expire_result \<Rightarrow> expire_result io" where
  "remind l c fs dryrun i e r =
     (let g = global c
      in let_io time_now (\<lambda>t.
           if \<not> t > e_expiration e - e_reminder e * (24 * 3600) then ret r
           else if mail_from g = [] then ret r
           else seq_io (when_io (\<not> dryrun)
                  (let_io (generateReminderMail l (mail_from g) [e_mailaddress e] (e_expiration e) i fs (clustername g)) (\<lambda>m.
                   let_io (sendCurl l (''smtp://'' @ smtphost g) (mail_from g) [e_mailaddress e] m) (\<lambda>sent. ret ()))))
                (ret (r\<lparr>active_mails := active_mails r + 1\<rparr>))))"

definition check_active ::
  "ryml \<Rightarrow> 'n yaml_cpp \<Rightarrow> mail_library \<Rightarrow> config \<Rightarrow> string \<Rightarrow> bool \<Rightarrow> database_handle \<Rightarrow> string \<Rightarrow>
   expire_result \<times> morbid_db_files \<Rightarrow> (expire_result \<times> morbid_db_files) io" where
  "check_active y yc l c fs dryrun db i rm =
     (let r = (fst rm)\<lparr>active_seen := active_seen (fst rm) + 1\<rparr>; morbid = snd rm
      in let_io (read_or_morbid y db i False) (\<lambda>found.
           case found of
             None \<Rightarrow> ret (r, morbid @ [(i, ''database exeption, filesystem: '' @ fs)])
           | Some e \<Rightarrow>
               if e_expiration e \<le> 0 then ret (r, morbid @ [(i, ''bad expiration, filesystem: '' @ fs)])
               else let_io time_now (\<lambda>t.
                 if t > e_expiration e then
                   seq_io (when_io (\<not> dryrun) (expire_one y yc l c fs i e))
                     (ret (r\<lparr>active_expired := active_expired r + 1\<rparr>, morbid))
                 else let_io (remind l c fs dryrun i e (r\<lparr>active_keep := active_keep r + 1\<rparr>)) (\<lambda>r. ret (r, morbid)))))"

section \<open>Deleting\<close>

definition time_from_name :: "string \<Rightarrow> int option" where
  "time_from_name i =
     (let parts = splitString i (CHR ''-''); n = length (filter (\<lambda>c. c = CHR ''-'') i)
      in if n < length parts then stol (parts ! n) else None)"

text \<open>
  The decision: released entries by the time of their release and \<open>releasekeeptime\<close>, the others by
  the later of expiration and the time they were expired, for old entries also the time in the name,
  and \<open>keeptime\<close>.
\<close>

definition should_delete :: "bool \<Rightarrow> Filesystem_config \<Rightarrow> entry \<Rightarrow> int \<Rightarrow> int \<Rightarrow> bool" where
  "should_delete forcedeletereleased f e nametime now =
     (let expiration = max (e_expiration e) (e_expired e);
          releasekeeptime = (if forcedeletereleased then 0 else fs_releasekeeptime f)
      in if e_released e > 1000000000 then now \<ge> e_released e + releasekeeptime * 24 * 3600
         else (let releasetime = (if e_released e \<noteq> 0 then 3000000000 else nametime);
                   expiration = (if e_expired e = 0 then max expiration releasetime else expiration)
               in now > expiration + fs_keeptime f * 24 * 3600))"

definition delete_deleted :: "config \<Rightarrow> Filesystem_config \<Rightarrow> database_handle \<Rightarrow> string \<Rightarrow> entry \<Rightarrow> unit io" where
  "delete_deleted c f db i e =
     seq_io (deleteEntry db i True)
       (let_io time_now (\<lambda>t.
        let_io (rmtree (path_append (path_append (remove_filename (e_workspace e)) (fs_deletedPath f)) i)
                  (t + deldirtimeout (global c))) (\<lambda>n. ret ())))"

definition check_deleted ::
  "ryml \<Rightarrow> config \<Rightarrow> string \<Rightarrow> bool \<Rightarrow> bool \<Rightarrow> database_handle \<Rightarrow> string \<Rightarrow>
   expire_result \<times> morbid_db_files \<Rightarrow> (expire_result \<times> morbid_db_files) io" where
  "check_deleted y c fs cleanermode forcedeletereleased db i rm =
     (let r = (fst rm)\<lparr>inactive_seen := inactive_seen (fst rm) + 1\<rparr>; morbid = snd rm
      in let_io (read_or_morbid y db i True) (\<lambda>found.
           case found of
             None \<Rightarrow> ret (r, morbid @ [(i, ''database exeption, filesystem: '' @ fs)])
           | Some e \<Rightarrow>
               let_io (fs_config_or_exit c fs) (\<lambda>f.
                 case time_from_name i of
                   None \<Rightarrow> ret (r, morbid @ [(i, ''unparsable name, filesystem: '' @ fs)])
                 | Some nametime \<Rightarrow>
                     let_io time_now (\<lambda>t.
                       if should_delete forcedeletereleased f e nametime t then
                         seq_io (when_io cleanermode (delete_deleted c f db i e))
                           (ret (r\<lparr>inactive_deleted := inactive_deleted r + 1\<rparr>, morbid))
                       else ret (r\<lparr>inactive_keep := inactive_keep r + 1\<rparr>, morbid)))))"

definition expire_workspaces ::
  "ryml \<Rightarrow> 'n yaml_cpp \<Rightarrow> mail_library \<Rightarrow> config \<Rightarrow> bool \<Rightarrow> bool \<Rightarrow> string \<Rightarrow> bool \<Rightarrow> morbid_db_files \<Rightarrow>
   (expire_result \<times> morbid_db_files) io" where
  "expire_workspaces y yc l c cleanermode forcedeletereleased fs dryrun morbid =
     let_io (open_or_report l c fs) (\<lambda>opened.
       case opened of
         None \<Rightarrow> ret (expire_result_zero, morbid)
       | Some db \<Rightarrow>
           let_io (matchPattern y db ''*'' ''*'' [] False False) (\<lambda>ids.
           let_io (fold_io ids (check_active y yc l c fs dryrun db) (expire_result_zero, morbid)) (\<lambda>rm.
           let_io (matchPattern y db ''*'' ''*'' [] True False) (\<lambda>ids2.
             fold_io ids2 (check_deleted y c fs cleanermode forcedeletereleased db) rm))))"

section \<open>The program\<close>

record expirer_options =
  opt_filesystems :: "string option"
  opt_space :: string
  opt_config :: path
  opt_cleaner :: bool
  opt_forcedeletereleased :: bool
  opt_summarymail :: bool

definition chosen_filesystems :: "config \<Rightarrow> string option \<Rightarrow> string list" where
  "chosen_filesystems c given =
     (case given of
        None \<Rightarrow> Filesystems c
      | Some s \<Rightarrow> filter (\<lambda>fs. fs \<in> set (Filesystems c)) (splitString s (CHR '','')))"

text \<open>The rows of the two tables of the summary, with the filesystem's name or \<open>total\<close>.\<close>

definition stray_row :: "string \<times> clean_stray_result \<Rightarrow> string" where
  "stray_row x =
     (case x of (fs, r) \<Rightarrow>
        ''  '' @ pad 15 (CHR '' '') fs @ '' '' @ pad_left 7 [] @ '' '' @ pad_left 5 (show_int (valid_ws r)) @ '' '' @
        pad_left 7 (show_int (invalid_ws r)) @ '' '' @ pad_left 27 [] @ '' '' @ pad_left 5 (show_int (valid_deleted r)) @ '' '' @
        pad_left 7 (show_int (invalid_deleted r)))"

definition expire_row :: "string \<times> expire_result \<Rightarrow> string" where
  "expire_row x =
     (case x of (fs, r) \<Rightarrow>
        ''  '' @ pad 15 (CHR '' '') fs @ '' '' @ pad_left 7 [] @ '' '' @ pad_left 4 (show_int (active_seen r)) @ '' '' @
        pad_left 4 (show_int (active_keep r)) @ '' '' @ pad_left 7 (show_int (active_expired r)) @ '' '' @
        pad_left 5 (show_int (active_mails r)) @ '' '' @ pad_left 17 [] @ '' '' @ pad_left 4 (show_int (inactive_seen r)) @ '' '' @
        pad_left 4 (show_int (inactive_keep r)) @ '' '' @ pad_left 7 (show_int (inactive_deleted r)))"

definition summary_lines :: "bool \<Rightarrow> (string \<times> clean_stray_result) list \<Rightarrow> clean_stray_result \<Rightarrow> (string \<times> expire_result) list \<Rightarrow>
    expire_result \<Rightarrow> morbid_db_files \<Rightarrow> string list" where
  "summary_lines dryrun stray_stats total_stray expire_stats total_expire morbid =
     (let rule = ''  '' @ pad 84 (CHR ''-'') [] in
      [''Dryrun: '' @ show_bool dryrun, [], ''Stray Summary'', [],
       ''  '' @ pad 15 (CHR '' '') ''Filesystem'' @ '' '' @ pad_left 22 ''Active [Valid Invalid]'' @ '' '' @ pad_left 16 [] @ '' '' @
         pad_left 24 ''Inactive [Valid Invalid]'', rule] @
      map stray_row stray_stats @ [rule, stray_row (''total'', total_stray), [], ''Expiration Summary'', [],
       ''  '' @ pad 15 (CHR '' '') ''Filesystem'' @ '' '' @ pad_left 30 ''Active [Seen Keep Expired Mails]'' @ '' '' @ pad_left 4 [] @ '' '' @
         pad_left 30 ''Inactive [Seen Keep Removed]'', rule] @
      map expire_row expire_stats @ [rule, expire_row (''total'', total_expire)] @
      (if morbid = [] then []
       else [[], '' Morbid DB Files''] @ map (\<lambda>(i, reason). ''   ID: '' @ i @ '', reason: '' @ reason) morbid @ [[]]))"

text \<open>The lines are kept with a newline each; an exception of the delivery is only logged.\<close>

definition unlines :: "string list \<Rightarrow> string" where
  "unlines ls = concat (map (\<lambda>l. l @ [CHR 0x0A]) ls)"

definition send_summary :: "mail_library \<Rightarrow> config \<Rightarrow> string \<Rightarrow> string \<Rightarrow> unit io" where
  "send_summary l c runinfo summary =
     (let g = global c in
      let_io (generateSummaryMail l (mail_from g) (adminmail g) runinfo summary) (\<lambda>completeMail.
        let_io (sendCurl l (''smtp://'' @ smtphost g) (mail_from g) (adminmail g) completeMail) (\<lambda>sent. ret ())))"

definition ws_expirer :: "ryml \<Rightarrow> 'n yaml_cpp \<Rightarrow> mail_library \<Rightarrow> expirer_options \<Rightarrow> (clean_stray_result \<times> expire_result \<times> morbid_db_files) io" where
  "ws_expirer y yc l opts =
     let_io (read_site yc (opt_config opts)) (\<lambda>c.
       let fslist = chosen_filesystems c (opt_filesystems opts); dryrun = (\<not> opt_cleaner opts)
       in let_io (fold_io fslist (\<lambda>fs (total, stats).
            let_io (clean_stray_directories y l c fs (opt_space opts) dryrun) (\<lambda>r. ret (clean_stray_add total r, stats @ [(fs, r)])))
            (clean_stray_zero, [])) (\<lambda>(stray, stray_stats).
          let_io (fold_io fslist (\<lambda>fs (total, stats, morbid).
            let_io (expire_workspaces y yc l c (opt_cleaner opts) (opt_forcedeletereleased opts) fs dryrun morbid) (\<lambda>(r, morbid).
              ret (expire_result_add total r, stats @ [(fs, r)], morbid)))
            (expire_result_zero, [], [])) (\<lambda>(total, expire_stats, morbid).
          let_io time_now (\<lambda>now.
            let runinfo = ''==== WS_EXPIRER '' @ (if dryrun then ''DRY'' else []) @ ''RUN END '' @ log_date l now @ '' ====='';
                summary = unlines (summary_lines dryrun stray_stats stray expire_stats total morbid @ [runinfo])
            in seq_io (when_io (opt_summarymail opts) (send_summary l c runinfo summary)) (ret (stray, total, morbid))))))"

section \<open>Frames\<close>

context tool_relation
begin

lemma expirer_listings:
  "keeps R (space_dirs ps)" "keeps R (deleted_dirs d ps)" "keeps R (known_workspaces y db ids)"
  "keeps R (read_or_morbid y db i b)" "keeps R (user_conf_text h)"
  unfolding space_dirs_def deleted_dirs_def known_workspaces_def read_or_morbid_def user_conf_text_def
  by (intro readers try_step; auto intro!: readers split: exn.split)+

lemma expirer_mails:
  assumes "\<And>t m. keeps R (put_io (\<lambda>w. w\<lparr>outbox := (t, m) # outbox w\<rparr>))"
  shows "keeps R (compose l f ts s b)" "keeps R (sendCurl l u f ts m)"
    and "keeps R (open_or_report l c fs)" and "keeps R (send_expiration_mail yc l c g fs i e)"
    and "keeps R (remind l c fs dry i e r)" and "keeps R (send_summary l c ri su)"
proof -
  show c: "keeps R (compose l f ts s b)" for f ts s b
    unfolding compose_def generateMessageID_def Let_def by (intro readers)
  show s: "keeps R (sendCurl l u f ts m)" for u f ts m
    unfolding sendCurl_def by (intro readers assms)
  have o: "keeps R (report_bad_db l c x)" for x
    unfolding report_bad_db_def generateErrorMail_def Let_def by (intro readers c s)
  show "keeps R (open_or_report l c fs)"
    unfolding open_or_report_def by (intro readers o) (auto intro!: readers o split: exn.split)
  show "keeps R (send_expiration_mail yc l c g fs i e)" "keeps R (remind l c fs dry i e r)"
    unfolding send_expiration_mail_def remind_def generateExpirationMail_def generateReminderMail_def Let_def
    by (intro readers expirer_listings c s)+
  show "keeps R (send_summary l c ri su)" unfolding send_summary_def generateSummaryMail_def Let_def by (intro readers c s)
qed

end

lemma outbox_calls:
  "keeps same_files (put_io (\<lambda>w. w\<lparr>outbox := x # outbox w\<rparr>))" "keeps (only A) (put_io (\<lambda>w. w\<lparr>outbox := x # outbox w\<rparr>))"
  "keeps same_setup (put_io (\<lambda>w. w\<lparr>outbox := x # outbox w\<rparr>))"
  by (simp_all add: keeps_def put_io_def same_files_def only_def same_setup_def)

lemmas only_expirer = frame.tools frame.expirer_listings frame.expirer_mails [OF outbox_calls(2)]
lemmas same_expirer = same.readers same.expirer_listings same.expirer_mails [OF outbox_calls(1)]
lemmas setup_expirer = settings.readers settings.expirer_listings settings.expirer_mails [OF outbox_calls(3)]

lemma dry_steps:
  "keeps (only A) (stray_dir True d known x r)" "keeps (only A) (removed_stray_dir True c d t ids x r')"
  "keeps (only A) (check_active y yc l c fs True db i rm)" "keeps (only A) (check_deleted y c fs False force db i rm)"
  unfolding stray_dir_def removed_stray_dir_def check_active_def check_deleted_def when_io_def Let_def
  by (intro only_expirer; simp add: frame.rules)+

lemma dry_filesystem:
  "keeps (only A) (clean_stray_directories y l c fs sp True)" "keeps (only A) (expire_workspaces y yc l c False force fs True m)"
  unfolding clean_stray_directories_def clean_against_db_def expire_workspaces_def Let_def
  by (intro only_expirer dry_steps)+

section \<open>The stray cleanup\<close>

lemma local_rename:
  assumes "\<And>k. under a k \<Longrightarrow> A k" and "\<And>k. under b k \<Longrightarrow> A k"
  shows "keeps (local_only A) (robust_rename a b)"
  unfolding robust_rename_def
  by (rule local_rename_catch [OF assms]) (auto intro!: local.rules split: exn.splits)

lemma local_catch: "keeps (local_only A) m \<Longrightarrow> keeps (local_only A) (catch_filesystem_error m)"
  unfolding catch_filesystem_error_def by (rule local.catch_step) (auto intro: local.rules split: exn.split)

lemma stray_dir_keeps:
  assumes "is_known known space dir" and "valid_comp d" and "one_comp deletedp" and "deletedp \<noteq> dir"
    and "s = space \<or> apart (comps s) (comps space)"
  shows "keeps (local_only (\<lambda>k. \<not> prefix (comps space @ [dir]) k)) (stray_dir dryrun deletedp known (s, d) r)"
proof (cases "is_known known s d")
  case True
  then show ?thesis by (simp add: stray_dir_def local.pure)
next
  case False
  with assms(1) have "s = space \<Longrightarrow> d \<noteq> dir" by auto
  with assms(5) have a: "apart (comps s @ [d]) (comps space @ [dir])" "apart (comps s @ [deletedp]) (comps space @ [dir])"
    using assms(4) by (auto intro: apart_siblings apart_extend)
  have fn: "filename d = d"
    using assms(2) rfind_char_None [of "CHR ''/''" d] by (auto simp: filename_def valid_comp_def)
  have c: "comps (path_append s d) = comps s @ [d]"
      "comps (path_append (path_append s deletedp) (stamped d now)) = (comps s @ [deletedp]) @ [stamped d now]" for now
    using assms(2,3) by (simp_all add: comps_append_one comps_valid_comp stamped_valid)
  have m: "keeps (local_only (\<lambda>k. \<not> prefix (comps space @ [dir]) k)) (robust_rename (path_append s d) (path_append (path_append s deletedp) (stamped (filename d) now)))" for now
    by (rule local_rename)
       (use apart_not_prefix [OF a(1), of "[]"] apart_not_prefix [OF a(2)] in \<open>auto simp: under_def c fn\<close>)
  show ?thesis unfolding stray_dir_def Let_def fst_conv snd_conv
    by (intro local.rules local_quiet [OF same.queries(1) settings.queries(1)] local_quiet [OF same.any_time settings.any_time] local_catch m)
qed

lemma removed_stray_keeps:
  assumes "valid_comp d" and "one_comp deletedp" and "deletedp \<noteq> dir"
    and "s = space \<or> apart (comps s) (comps space)"
  shows "keeps (local_only (\<lambda>k. \<not> prefix (comps space @ [dir]) k)) (removed_stray_dir dryrun c deletedp t ids (s, d) r)"
proof -
  from assms(4) have a: "apart (comps s @ [deletedp]) (comps space @ [dir])"
    using assms(3) by (auto intro: apart_siblings apart_extend)
  have c: "comps (path_append (path_append s deletedp) d) = (comps s @ [deletedp]) @ [d]"
    using assms(1,2) by (simp add: comps_append_one comps_valid_comp)
  show ?thesis unfolding removed_stray_dir_def Let_def fst_conv snd_conv
    by (intro local.rules local_quiet [OF same.any_time settings.any_time] local_rmtree)
       (use apart_not_prefix [OF a] in \<open>auto simp: under_def c\<close>)
qed

text \<open>Which pairs the two listings return.\<close>

lemma listing_dirs:
  fixes w :: world and at :: "string \<Rightarrow> path" and check :: "string \<Rightarrow> string \<Rightarrow> bool io"
  assumes n: "names_ok (files w)" and c: "\<And>space entry. keeps same_files (check space entry)"
  shows "ends (fold_io spaces (\<lambda>space dirs. let_io (dirEntries (at space) pat True) (\<lambda>entries.
      fold_io entries (\<lambda>entry dirs. let_io (check space entry) (\<lambda>d.
        ret (if d \<and> P entry then dirs @ [(space, entry)] else dirs))) dirs)) []) w
    (\<lambda>dirs w'. files w' = files w \<and> (\<forall>x \<in> set dirs. fst x \<in> set spaces \<and> valid_comp (snd x))) (\<lambda>w'. True)"
    (is "ends _ _ ?I ?F")
proof (rule ends_fold)
  fix space and ds :: "(string \<times> string) list" and v assume s: "space \<in> set spaces" and I: "?I ds v"
  show "ends (let_io (dirEntries (at space) pat True) (\<lambda>entries.
      fold_io entries (\<lambda>entry dirs. let_io (check space entry) (\<lambda>d.
        ret (if d \<and> P entry then dirs @ [(space, entry)] else dirs))) ds)) v ?I ?F"
    unfolding ends_let
  proof (rule ends_dirEntries)
    fix fl and v' :: world assume "files v' = files v" and fl: "list_all valid_comp fl"
    with I have "?I ds v'" by simp
    then show "ends (fold_io fl (\<lambda>entry dirs. let_io (check space entry) (\<lambda>d.
        ret (if d \<and> P entry then dirs @ [(space, entry)] else dirs))) ds) v' ?I ?F"
    proof (rule ends_fold)
      fix entry ds v assume "entry \<in> set fl" "?I ds v"
      with s fl show "ends (let_io (check space entry) (\<lambda>d.
        ret (if d \<and> P entry then ds @ [(space, entry)] else ds))) v ?I ?F"
        unfolding ends_let by (intro ends_quiet [OF c]) (auto simp: ends_simple list_all_iff)
    qed
  qed (use I n in auto)
qed simp

lemma space_dirs_ends:
  "names_ok (files w) \<Longrightarrow> ends (space_dirs spaces) w
     (\<lambda>dirs w'. files w' = files w \<and> (\<forall>x \<in> set dirs. fst x \<in> set spaces \<and> valid_comp (snd x))) (\<lambda>w'. True)"
  unfolding space_dirs_def by (rule listing_dirs [OF _ same.queries(4)])

lemma deleted_dirs_ends:
  "names_ok (files w) \<Longrightarrow> ends (deleted_dirs d spaces) w
     (\<lambda>dirs w'. files w' = files w \<and> (\<forall>x \<in> set dirs. fst x \<in> set spaces \<and> valid_comp (snd x))) (\<lambda>w'. True)"
  unfolding deleted_dirs_def
  using listing_dirs [OF _ same.queries(4), where P = "\<lambda>e. True" and at = "\<lambda>s. path_append s d"]
  by simp

text \<open>Every id that was listed is known, whether or not its entry can be read.\<close>

lemma known_workspaces_ids:
  assumes "known_workspaces y db ids w = (Done known, w')" and "i \<in> set ids"
  shows "is_known known space i"
  unfolding is_known_def
  by (rule fold_io_reaches [OF assms(1) [unfolded known_workspaces_def] assms(2)])
     (auto simp: let_io_Done ret_Done list_ex_iff)

end
