(* ===== verification/Retention.thy ===== *)
theory Retention
  imports Expirer
begin

text \<open>
  What \<open>ws_expirer\<close> must not destroy: the files of a workspace that has an entry, whatever becomes
  of that entry's contents, and deleted workspaces before their keep time is over.
\<close>

section \<open>The stray cleanup as a whole\<close>

lemma removed_stray_phase:
  assumes k: "kept_local A w v" and n: "\<And>s d r ids2. s \<in> set spaces \<Longrightarrow> valid_comp d \<Longrightarrow>
      keeps (local_only A) (removed_stray_dir dryrun c deletedp t ids2 (s, d) r)"
  shows "ends (let_io (deleted_dirs deletedp spaces) (\<lambda>dirs2.
      let_io (matchPattern y db ''*'' ''*'' [] True False) (\<lambda>ids2.
        fold_io dirs2 (removed_stray_dir dryrun c deletedp t ids2) r))) v (\<lambda>a. kept_local A w) (kept_local A w)"
  unfolding ends_let
proof (rule ends_reader [OF same.expirer_listings(2) settings.expirer_listings(2)])
  fix dirs2 v1 assume run: "deleted_dirs deletedp spaces v = (Done dirs2, v1)" and v1: "files v1 = files v" "fault v1 = fault v"
  have d: "\<forall>x \<in> set dirs2. fst x \<in> set spaces \<and> valid_comp (snd x)"
    using endsD [OF deleted_dirs_ends run] k by (simp add: kept_local_def)
  show "ends (matchPattern y db ''*'' ''*'' [] True False) v1
      (\<lambda>ids2 v2. ends (fold_io dirs2 (removed_stray_dir dryrun c deletedp t ids2) r) v2 (\<lambda>a. kept_local A w) (kept_local A w)) (kept_local A w)"
  proof (rule ends_reader [OF same.database_readers(5) settings.database_readers(5)])
    fix ids2 and v2 :: world assume "files v2 = files v1" "fault v2 = fault v1"
    with v1 k have v2: "kept_local A w v2" by (auto intro: kept_local_quiet)
    show "ends (fold_io dirs2 (removed_stray_dir dryrun c deletedp t ids2) r) v2 (\<lambda>a. kept_local A w) (kept_local A w)"
      by (rule ends_local [OF local.fold_step v2]) (use d n in auto)
  qed (use v1 k in \<open>auto intro: kept_local_quiet\<close>)
qed (use k in \<open>auto intro: kept_local_quiet\<close>)

text \<open>
  A workspace \<open>dir\<close> of one of the spaces of a filesystem, with a file of that name in its database. The
  spaces do not lie inside each other, and the deleted area has a name of its own.
\<close>

definition registered :: "Filesystem_config \<Rightarrow> string \<Rightarrow> string \<Rightarrow> files \<Rightarrow> bool" where
  "registered f space dir fs \<longleftrightarrow>
     (\<forall>s \<in> set (fs_spaces f). s = space \<or> apart (comps s) (comps space)) \<and>
     one_comp (fs_deletedPath f) \<and> fs_deletedPath f \<noteq> dir \<and> CHR ''-'' \<in> set dir \<and>
     (\<exists>d. map_of fs (comps (fs_database f)) = Some d \<and> is_dir d) \<and>
     (\<exists>i. (comps (fs_database f) @ [dir], i) \<in> set fs \<and> is_reg i)"

lemma local_against_db:
  assumes r: "registered f space dir (files v)" and f: "getFsConfig (db_config h) (db_fs h) = Some f"
    and spaces: "set spaces \<subseteq> set (fs_spaces f)" and dirs: "\<forall>x \<in> set dirs. fst x \<in> set spaces \<and> valid_comp (snd x)"
    and k: "kept_local (\<lambda>k. \<not> prefix (comps space @ [dir]) k) w v"
  shows "ends (clean_against_db y c (fs_deletedPath f) spaces dryrun t dirs h) v
    (\<lambda>a. kept_local (\<lambda>k. \<not> prefix (comps space @ [dir]) k) w) (kept_local (\<lambda>k. \<not> prefix (comps space @ [dir]) k) w)"
  unfolding clean_against_db_def ends_let [where f = "\<lambda>ids. let_io (known_workspaces y h ids) g" for g]
proof (rule ends_reader [OF same.database_readers(5) settings.database_readers(5)])
  let ?K = "kept_local (\<lambda>k. \<not> prefix (comps space @ [dir]) k) w"
  fix ids v1 assume ids: "matchPattern y h ''*'' ''*'' [] False False v = (Done ids, v1)" and v1: "files v1 = files v" "fault v1 = fault v"
  obtain d i where db: "map_of (files v) (comps (fs_database f)) = Some d" "is_dir d"
    and entry: "(comps (fs_database f) @ [dir], i) \<in> set (files v)" "is_reg i" using r by (auto simp: registered_def)
  have "dirEntries (fs_database f) ''*-*'' False v = (Done ids, v1)"
    using ids f by (auto simp: matchPattern_def Let_def database_def getFsConfig_def catch_io_def throw_def split: prod.splits outcome.splits exn.splits)
  then have listed: "dir \<in> set ids"
    using db entry by (rule dirEntries_lists) (use r in \<open>simp add: glob_dash registered_def\<close>)
  have s: "s = space \<or> apart (comps s) (comps space)" if "s \<in> set spaces" for s
    using r spaces that by (auto simp: registered_def)
  have dp: "one_comp (fs_deletedPath f)" "fs_deletedPath f \<noteq> dir" using r by (simp_all add: registered_def)
  show "ends (let_io (known_workspaces y h ids) (\<lambda>known.
      let_io (fold_io dirs (stray_dir dryrun (fs_deletedPath f) known) clean_stray_zero) (\<lambda>r.
      let_io (deleted_dirs (fs_deletedPath f) spaces) (\<lambda>dirs2.
      let_io (matchPattern y h ''*'' ''*'' [] True False) (\<lambda>ids2.
        fold_io dirs2 (removed_stray_dir dryrun c (fs_deletedPath f) t ids2) r))))) v1 (\<lambda>a. ?K) ?K"
    unfolding ends_let [where m = "known_workspaces y h ids"]
  proof (rule ends_reader [OF same.expirer_listings(3) settings.expirer_listings(3)])
    fix known v2 assume run: "known_workspaces y h ids v1 = (Done known, v2)" and v2: "files v2 = files v1" "fault v2 = fault v1"
    have "is_known known space dir" by (rule known_workspaces_ids [OF run listed])
    then have "keeps (local_only (\<lambda>k. \<not> prefix (comps space @ [dir]) k)) (fold_io dirs (stray_dir dryrun (fs_deletedPath f) known) clean_stray_zero)"
      using dirs dp by (intro local.fold_step) (use s in \<open>force intro!: stray_dir_keeps\<close>)
    then have "ends (fold_io dirs (stray_dir dryrun (fs_deletedPath f) known) clean_stray_zero) v2 (\<lambda>a. ?K) ?K"
      by (rule ends_local) (use k v1 v2 in \<open>simp add: kept_local_quiet\<close>)
    then show "ends (let_io (fold_io dirs (stray_dir dryrun (fs_deletedPath f) known) clean_stray_zero) (\<lambda>r.
      let_io (deleted_dirs (fs_deletedPath f) spaces) (\<lambda>dirs2.
      let_io (matchPattern y h ''*'' ''*'' [] True False) (\<lambda>ids2.
        fold_io dirs2 (removed_stray_dir dryrun c (fs_deletedPath f) t ids2) r)))) v2 (\<lambda>a. ?K) ?K"
      unfolding ends_let [where m = "fold_io dirs g z" for g z]
      by (rule ends_mono) (use dp s in \<open>auto intro!: removed_stray_phase removed_stray_keeps\<close>)
  qed (use k v1 in \<open>auto intro: kept_local_quiet\<close>)
qed (use k in \<open>auto intro: kept_local_quiet\<close>)

lemmas same_expirer_opens =
  same.expirer_mails(3) [OF outbox_calls(1)] settings.expirer_mails(3) [OF outbox_calls(3)]

lemma open_or_report_Done:
  assumes "open_or_report l c fs w = (Done (Some h), w')"
  shows "db_config h = c" and "db_fs h = fs"
proof -
  from assms have "\<exists>v v'. openDB c fs v = (Done h, v')"
    by (auto simp: open_or_report_def catch_io_def let_io_def seq_io_def ret_def throw_def split: prod.splits outcome.splits exn.splits)
  then show "db_config h = c" "db_fs h = fs" by (auto simp: openDB_def Done_iffs throw_def split: if_splits)
qed

lemma local_clean_stray:
  assumes ok: "names_ok (files w)" "one_device w" and f: "getFsConfig c fs = Some f" and r: "registered f space dir (files w)"
  shows "ends (clean_stray_directories y l c fs single dryrun) w
    (\<lambda>a. kept_local (\<lambda>k. \<not> prefix (comps space @ [dir]) k) w) (kept_local (\<lambda>k. \<not> prefix (comps space @ [dir]) k) w)"
    (is "ends _ _ (\<lambda>a. ?K) _")
proof -
  have start: "?K v" if "files v = files w" "fault v = fault w" for v
    using that ok by (simp add: kept_local_def only_def one_device_def)
  have c: "deletedPath c fs = fs_deletedPath f" "fs_config_or_exit c fs = ret f"
    using f by (simp_all add: deletedPath_def getFsConfig_def fs_config_or_exit_def)
  have from_db: "ends (let_io (open_or_report l c fs) (\<lambda>opened. case opened of None \<Rightarrow> ret clean_stray_zero
       | Some h \<Rightarrow> clean_against_db y c (fs_deletedPath f) spaces dryrun t dirs h)) v (\<lambda>a. ?K) ?K"
    if v: "files v = files w" "fault v = fault w" and "set spaces \<subseteq> set (fs_spaces f)"
      and "\<forall>x \<in> set dirs. fst x \<in> set spaces \<and> valid_comp (snd x)" for v spaces dirs t
    unfolding ends_let
  proof (rule ends_reader [OF same_expirer_opens])
    fix opened v1 assume run: "open_or_report l c fs v = (Done opened, v1)" and "files v1 = files v" "fault v1 = fault v"
    with v have v1: "files v1 = files w" "fault v1 = fault w" by simp_all
    show "ends (case opened of None \<Rightarrow> ret clean_stray_zero | Some h \<Rightarrow> clean_against_db y c (fs_deletedPath f) spaces dryrun t dirs h) v1 (\<lambda>a. ?K) ?K"
    proof (cases opened)
      case None
      with v1 start show ?thesis by (simp add: ends_simple)
    next
      case (Some h)
      with open_or_report_Done run f have "getFsConfig (db_config h) (db_fs h) = Some f" by blast
      with Some that(3,4) r start v1 show ?thesis by (simp add: local_against_db)
    qed
  qed (use v start in auto)
  show ?thesis
    unfolding clean_stray_directories_def c let_ret
  proof (subst ends_let, rule ends_reader [OF same.any_time settings.any_time])
    fix t and v :: world assume v: "files v = files w" "fault v = fault w"
    show "ends (let spaces = if single \<noteq> [] then [single] else fs_spaces f
        in if single \<noteq> [] \<and> single \<notin> set (fs_spaces f) then ret clean_stray_zero
           else let_io (space_dirs spaces) (\<lambda>dirs. let_io (open_or_report l c fs) (\<lambda>opened.
             case opened of None \<Rightarrow> ret clean_stray_zero
             | Some h \<Rightarrow> clean_against_db y c (fs_deletedPath f) spaces dryrun t dirs h))) v (\<lambda>a. ?K) ?K"
    proof (cases "single \<noteq> [] \<and> single \<notin> set (fs_spaces f)")
      case True
      with v start show ?thesis by (simp add: ends_simple)
    next
      case False
      define spaces where "spaces = (if single \<noteq> [] then [single] else fs_spaces f)"
      have sub: "set spaces \<subseteq> set (fs_spaces f)" using False by (auto simp: spaces_def)
      have "ends (space_dirs spaces) v (\<lambda>dirs v'. ends (let_io (open_or_report l c fs) (\<lambda>opened. case opened of None \<Rightarrow> ret clean_stray_zero
          | Some h \<Rightarrow> clean_against_db y c (fs_deletedPath f) spaces dryrun t dirs h)) v' (\<lambda>a. ?K) ?K) ?K"
      proof (rule ends_reader [OF same.expirer_listings(1) settings.expirer_listings(1)])
        fix dirs v1 assume run: "space_dirs spaces v = (Done dirs, v1)" and v1: "files v1 = files v" "fault v1 = fault v"
        have "\<forall>x \<in> set dirs. fst x \<in> set spaces \<and> valid_comp (snd x)"
          using endsD [OF space_dirs_ends run] ok v by simp
        with from_db sub v v1 show "ends (let_io (open_or_report l c fs) (\<lambda>opened. case opened of None \<Rightarrow> ret clean_stray_zero
          | Some h \<Rightarrow> clean_against_db y c (fs_deletedPath f) spaces dryrun t dirs h)) v1 (\<lambda>a. ?K) ?K" by simp
      qed (use v start in auto)
      with False show ?thesis unfolding Let_def spaces_def [symmetric]
        by - (subst if_not_P, assumption, subst ends_let, assumption)
    qed
  qed (use start in auto)
qed

section \<open>Deleting\<close>

definition deletion_area :: "config \<Rightarrow> Filesystem_config \<Rightarrow> database_handle \<Rightarrow> string \<Rightarrow> entry \<Rightarrow> key \<Rightarrow> bool" where
  "deletion_area c f db i e k \<longleftrightarrow>
     k = comps (entry_path (db_config db) (db_fs db) i True) \<or>
     under (path_append (path_append (remove_filename (e_workspace e)) (fs_deletedPath f)) i) k"

lemma delete_deleted_frame:
  "keeps (\<lambda>w w'. names_ok (files w) \<longrightarrow> removes (deletion_area c f db i e) w w') (delete_deleted c f db i e)"
proof -
  let ?A = "deletion_area c f db i e"
  let ?R = "\<lambda>w w'. names_ok (files w) \<longrightarrow> removes ?A w w'"
  have s: "step_relation ?R"
    by unfold_locales (auto intro: removal.refl removal.trans dest: removes_names)
  have lift: "keeps (removes ?A) m \<Longrightarrow> keeps ?R m" for m by (auto simp: keeps_def)
  have "keeps (removes ?A) (fs_remove (entry_path (db_config db) (db_fs db) i True))"
    unfolding fs_remove_def
    by (intro removal.rules removes_change)
       (auto simp: deletion_area_def remove_rule_def unlink_rule_def rmdir_rule_def split: option.splits if_splits)
  then have d: "keeps (removes ?A) (deleteEntry db i True)"
    unfolding deleteEntry_def checkID_def fs_config_or_exit_def
    by (intro removal.rules) (auto intro!: removal.rules split: exn.split)
  have r: "keeps ?R (rmtree (path_append (path_append (remove_filename (e_workspace e)) (fs_deletedPath f)) i) t)" for t
    using open_and_delete_frame [of "path_append (path_append (remove_filename (e_workspace e)) (fs_deletedPath f)) i" t True]
    by (auto simp: keeps_def rmtree_def deletion_area_def elim!: removes_mono)
  show ?thesis
    unfolding delete_deleted_def
    by (intro step_relation.rules [OF s] lift [OF d] lift [OF removes_quiet(2)] r)
qed

text \<open>The times the policy grants an entry, in seconds.\<close>

definition keep_until :: "bool \<Rightarrow> Filesystem_config \<Rightarrow> entry \<Rightarrow> int" where
  "keep_until force f e =
     (if e_released e > 1000000000 then e_released e + (if force then 0 else fs_releasekeeptime f * 86400)
      else max (e_expiration e) (e_expired e) + fs_keeptime f * 86400)"

lemma should_delete_late: "should_delete force f e nametime now \<Longrightarrow> keep_until force f e \<le> now"
  by (auto simp: should_delete_def keep_until_def Let_def max_def split: if_splits)

lemma read_or_morbid_Some: "read_or_morbid y db i b w = (Done (Some e), v) \<Longrightarrow> readEntry y db i b w = (Done e, v)"
  unfolding read_or_morbid_def by (rule try_database_Some)

lemma check_deleted_run:
  assumes "check_deleted y c fs cleanermode force db i rm w = (r, w')"
  shows "files w' = files w \<or> cleanermode \<and> (\<exists>e f n w1 v r'. readEntry y db i True w = (Done e, w1) \<and>
    getFsConfig c fs = Some f \<and> keep_until force f e \<le> clock w n \<and> files v = files w \<and> delete_deleted c f db i e v = (r', w'))"
proof -
  let ?C = "\<lambda>v'. files v' = files w \<or> cleanermode \<and> (\<exists>e f n w1 v r'. readEntry y db i True w = (Done e, w1) \<and>
    getFsConfig c fs = Some f \<and> keep_until force f e \<le> clock w n \<and> files v = files w \<and> delete_deleted c f db i e v = (r', v'))"
  have "ends (check_deleted y c fs cleanermode force db i rm) w (\<lambda>a. ?C) ?C"
    unfolding check_deleted_def Let_def
  proof (subst ends_let, rule ends_reader [OF same.expirer_listings(4) settings.expirer_listings(4)], goal_cases)
    case (1 found v)
    then have v: "files v = files w" and clk: "clock v = clock w"
      using keepsD [OF settings.expirer_listings(4) 1(1)] by (simp_all add: same_setup_def)
    have del: "ends (delete_deleted c f db i e) v2 (\<lambda>a. ?C) ?C"
      if "found = Some e" "getFsConfig c fs = Some f" "should_delete force f e nametime (clock v n)" cleanermode "files v2 = files w"
      for e f nametime n v2
    proof -
      obtain r' v' where "delete_deleted c f db i e v2 = (r', v')" by force
      moreover from this have "?C v'"
        using that should_delete_late [OF that(3)] read_or_morbid_Some 1(1) clk by metis
      ultimately show ?thesis by (simp add: ends_def split: outcome.split)
    qed
    show ?case
    proof (cases "found = None \<or> getFsConfig c fs = None \<or> time_from_name i = None")
      case True
      with v show ?thesis by (auto simp: fs_config_or_exit_def ends_sequence split: option.split)
    next
      case False
      then obtain e f nt where s: "found = Some e" "getFsConfig c fs = Some f" "time_from_name i = Some nt" by auto
      show ?thesis using v del [OF s(1,2), of nt "steps v"]
        by (simp add: s fs_config_or_exit_def ends_sequence ends_time)
    qed
  qed auto
  from endsD [OF this assms] show ?thesis by blast
qed

section \<open>Properties\<close>

text \<open>C35. The stray cleanup leaves every file of a workspace alone for which the database has a file of
  that name, also when the entry in it cannot be read, points elsewhere, or calls fail on the way.\<close>

theorem clean_stray_protects:
  assumes "names_ok (files w)" and "one_device w" and "getFsConfig c fs = Some f"
    and "registered f space dir (files w)" and "prefix (comps space @ [dir]) k"
  shows "map_of (files (snd (clean_stray_directories y l c fs single dryrun w))) k = map_of (files w) k"
  using local_clean_stray [OF assms(1-4), of y l single dryrun] assms(5)
  by (auto simp: ends_def kept_local_def only_def split: prod.splits outcome.splits)

lemma clean_stray_protects_witness:
  "map_of (files (snd (clean_stray_directories simple_ryml example_mail_library site_config ''ws'' [] False (site_world 3700))))
     [''ws'', ''alice-a'', ''data''] = Some (example_inode (Reg ''results''))"
proof -
  have "files (site_world t) = site_files" "one_device (site_world t)" for t
    by (simp_all add: site_world_def example_world_def one_device_def)
  moreover have "names_ok site_files" by code_simp
  moreover have "map_of site_files [''ws'', ''alice-a'', ''data''] = Some (example_inode (Reg ''results''))" by code_simp
  moreover have "getFsConfig site_config ''ws'' = Some (snd (hd (filesystems site_config)))" by code_simp
  moreover have "registered (snd (hd (filesystems site_config))) ''/ws'' ''alice-a'' site_files"
  proof -
    have "\<forall>s \<in> set (fs_spaces (snd (hd (filesystems site_config)))). s = ''/ws'' \<or> apart (comps s) (comps ''/ws'')"
      "one_comp (fs_deletedPath (snd (hd (filesystems site_config))))" "fs_deletedPath (snd (hd (filesystems site_config))) \<noteq> ''alice-a''"
      "CHR ''-'' \<in> set ''alice-a''"
      "map_of site_files (comps (fs_database (snd (hd (filesystems site_config))))) = Some (example_inode Dir)"
      "(comps (fs_database (snd (hd (filesystems site_config)))) @ [''alice-a''], snd (last site_files)) \<in> set site_files"
      "is_reg (snd (last site_files))" "is_dir (example_inode Dir)" by code_simp+
    then show ?thesis unfolding registered_def by blast
  qed
  moreover have "prefix (comps ''/ws'' @ [''alice-a'']) [''ws'', ''alice-a'', ''data'']" by code_simp
  ultimately show ?thesis using clean_stray_protects [of "site_world 3700" site_config "''ws''"] by metis
qed

text \<open>C36. A deleted workspace loses a file only when cleaning was asked for and the time of the policy has
  passed: the later of its expiration and the time it was expired plus the keep time, for a released one
  the time of its release plus the keep time for those. Then files are only removed, and only its
  database file and what is at or below its directory in the deleted area.\<close>

theorem deletes_only_after_keeptime:
  assumes "names_ok (files w)" and "check_deleted y c fs cleanermode force db i rm w = (r, w')"
    and "map_of (files w') k \<noteq> map_of (files w) k"
  shows "cleanermode \<and> map_of (files w') k = None \<and>
    (\<exists>e f n w1. readEntry y db i True w = (Done e, w1) \<and> getFsConfig c fs = Some f \<and>
       keep_until force f e \<le> clock w n \<and> deletion_area c f db i e k)"
proof -
  from check_deleted_run [OF assms(2)] assms(3) obtain e f n w1 v r' where e: "readEntry y db i True w = (Done e, w1)"
    and f: "getFsConfig c fs = Some f" "keep_until force f e \<le> clock w n" and m: cleanermode
    and v: "files v = files w" and del: "delete_deleted c f db i e v = (r', w')" by auto
  from keepsD [OF delete_deleted_frame del] assms(1) v obtain D
    where D: "files w' = filter (\<lambda>e. \<not> D (fst e)) (files w)" "\<forall>k. D k \<longrightarrow> deletion_area c f db i e k"
    by (auto simp: removes_def)
  note l = map_of_filter_key [where P = "\<lambda>k. \<not> D k"]
  from D assms(3) have "D k" by (auto simp: l split: if_splits)
  with D e f m show ?thesis by (auto simp: l)
qed

definition deleted_files :: files where
  "deleted_files =
     [([''ws''], example_inode Dir), ([''ws'', ''.removed''], example_inode Dir),
      ([''ws'', ''.removed'', ''alice-a-17''], example_inode Dir), ([''ws'', ''.removed'', ''alice-a-17'', ''data''], example_inode (Reg ''results'')),
      ([''db''], example_inode Dir), ([''db'', ''.removed''], example_inode Dir),
      ([''db'', ''.removed'', ''alice-a-17''], example_inode (Reg (entry_text simple_ryml ((site_entry ''alice-a'' 9)\<lparr>e_expired := 17\<rparr>))))]"

definition late_world :: world where
  "late_world = (site_world 86418)\<lparr>files := deleted_files\<rparr>"

definition late_run :: "(expire_result \<times> morbid_db_files) outcome \<times> world" where
  "late_run = check_deleted simple_ryml site_config ''ws'' True False \<lparr>db_config = site_config, db_fs = ''ws''\<rparr> ''alice-a-17''
     (expire_result_zero, []) late_world"

lemma deletes_only_after_keeptime_witness:
  "map_of (files (snd late_run)) [''ws'', ''.removed'', ''alice-a-17'', ''data''] = None \<and>
   (\<exists>e f. getFsConfig site_config ''ws'' = Some f \<and> keep_until False f e \<le> 86418)"
proof -
  let ?k = "[''ws'', ''.removed'', ''alice-a-17'', ''data'']"
  have "map_of (files (snd late_run)) ?k = None" by code_simp
  moreover have "map_of (files late_world) ?k \<noteq> None" by code_simp
  ultimately have ch: "map_of (files (snd late_run)) ?k \<noteq> map_of (files late_world) ?k" by metis
  have n: "names_ok (files late_world)" by code_simp
  have c: "clock late_world n = 86418" for n by (simp add: late_world_def site_world_def)
  have run: "check_deleted simple_ryml site_config ''ws'' True False \<lparr>db_config = site_config, db_fs = ''ws''\<rparr> ''alice-a-17''
      (expire_result_zero, []) late_world = (fst late_run, snd late_run)" by (simp add: late_run_def)
  show ?thesis using deletes_only_after_keeptime [OF n run ch] unfolding c by blast
qed

text \<open>C37. Without the option that makes it clean, the whole program changes no file, whatever the
  configuration and the database hold and whichever calls fail.\<close>

theorem dry_run_changes_nothing:
  assumes "\<not> opt_cleaner opts"
  shows "map_of (files (snd (ws_expirer y yc l opts w))) k = map_of (files w) k"
proof -
  have c: "opt_cleaner opts = False" using assms by simp
  have "keeps (only (\<lambda>k. False)) (ws_expirer y yc l opts)"
    unfolding ws_expirer_def Let_def c not_False_eq_True
    by (intro only_expirer dry_filesystem; auto intro!: only_expirer dry_filesystem split: prod.split)
  then show ?thesis by (simp add: keeps_def only_def)
qed

definition dry_options :: expirer_options where
  "dry_options = \<lparr>opt_filesystems = None, opt_space = [], opt_config = [], opt_cleaner = False, opt_forcedeletereleased = True,
     opt_summarymail = True\<rparr>"

lemma dry_run_changes_nothing_witness:
  "map_of (files (snd (ws_expirer simple_ryml site_yaml example_mail_library dry_options (site_world 3700)))) [''ws'', ''bob-old'', ''junk''] =
     Some (example_inode (Reg ''junk''))"
proof -
  have "\<not> opt_cleaner dry_options" by (simp add: dry_options_def)
  moreover have "map_of (files (site_world t)) [''ws'', ''bob-old'', ''junk''] = Some (example_inode (Reg ''junk''))" for t
    by (simp add: site_world_def example_world_def site_files_def)
  ultimately show ?thesis using dry_run_changes_nothing by metis
qed

end
