(* ===== verification/WorkQueue.thy ===== *)
theory WorkQueue
  imports Prelude "HOL-Library.Word" "HOL-Library.Multiset"
begin

unbundle bit_operations_syntax

text \<open>
  \<open>src/src/PathWorkStealingQueue.hpp\<close>: the queue of one worker of \<open>ws_stat\<close>. Its owner pushes and pops at
  the bottom, other workers steal at the top. Each access to an atomic variable or to the array is a step
  of its own; the steps of the owner and of the thieves interleave. Accesses take effect in one global
  order: the weaker orders the code asks for are not modelled.
\<close>

section \<open>State\<close>

text \<open>
  Where the owner is: waiting for room, writing the item, publishing it; reading \<open>top_\<close> for an index,
  swapping \<open>top_\<close> for the last item, giving the index back, publishing after a won swap, moving the item
  out. A thief has read \<open>top_\<close>, has read \<open>bottom_\<close> and wants \<open>n\<close> items, or moves its items out.
\<close>

datatype 'a owner =
    Owner_idle | Push_wait 'a | Push_item 'a int | Push_bottom 'a int
  | Pop_top int | Pop_cas int | Pop_restore int | Pop_won int | Pop_take int

datatype thief = Thief_idle | Steal_bottom int nat | Steal_cas int int | Steal_move int nat

text \<open>
  An item of the array is \<open>None\<close> when nothing was stored in it yet, or when it was moved out. The last two
  fields record what callers of \<open>push\<close> handed over and what \<open>pop\<close> and \<open>steal\<close> returned.
\<close>

record 'a queue =
  bottom :: int
  top :: int
  array :: "int \<Rightarrow> 'a option"
  capacity :: nat
  owner :: "'a owner"
  thieves :: "thief list"
  pushed :: "'a list"
  returned :: "'a option list"

definition DEFAULT_CAPACITY :: nat where
  "DEFAULT_CAPACITY = 1024"

definition new_queue :: "nat \<Rightarrow> nat \<Rightarrow> 'a queue" where
  "new_queue cap n = \<lparr>bottom = 0, top = 0, array = (\<lambda>i. None), capacity = cap, owner = Owner_idle,
     thieves = replicate n Thief_idle, pushed = [], returned = []\<rparr>"

definition slot :: "'a queue \<Rightarrow> int \<Rightarrow> int" where
  "slot q i = i AND (int (capacity q) - 1)"

definition limit :: "'a queue \<Rightarrow> int" where
  "limit q = int (capacity q) - int (capacity q) div 10"

text \<open>\<open>std::move\<close> of an item out of the array, to a caller.\<close>

definition take_item :: "int \<Rightarrow> 'a queue \<Rightarrow> 'a queue" where
  "take_item i q = q\<lparr>array := (array q)(slot q i := None), returned := array q (slot q i) # returned q\<rparr>"

section \<open>Steps\<close>

definition owner_step :: "'a queue \<Rightarrow> 'a queue" where
  "owner_step q =
     (case owner q of
        Owner_idle \<Rightarrow> q
      | Push_wait x \<Rightarrow>
          if (bottom q - top q) mod 2 ^ 64 \<ge> limit q then q else q\<lparr>owner := Push_item x (bottom q)\<rparr>
      | Push_item x b \<Rightarrow> q\<lparr>array := (array q)(slot q b := Some x), owner := Push_bottom x b\<rparr>
      | Push_bottom x b \<Rightarrow> q\<lparr>bottom := b + 1, owner := Owner_idle\<rparr>
      | Pop_top b \<Rightarrow>
          if top q > b then q\<lparr>owner := Pop_restore b\<rparr>
          else if top q = b then q\<lparr>owner := Pop_cas b\<rparr>
          else q\<lparr>owner := Pop_take b\<rparr>
      | Pop_cas b \<Rightarrow>
          if top q \<noteq> b then q\<lparr>owner := Pop_restore b\<rparr> else q\<lparr>top := b + 1, owner := Pop_won b\<rparr>
      | Pop_restore b \<Rightarrow> q\<lparr>bottom := b + 1, owner := Owner_idle\<rparr>
      | Pop_won b \<Rightarrow> q\<lparr>bottom := b + 1, owner := Pop_take b\<rparr>
      | Pop_take b \<Rightarrow> (take_item b q)\<lparr>owner := Owner_idle\<rparr>)"

definition push :: "'a \<Rightarrow> 'a queue \<Rightarrow> 'a queue" where
  "push x q = (if owner q = Owner_idle then q\<lparr>owner := Push_wait x, pushed := x # pushed q\<rparr> else q)"

definition pop :: "'a queue \<Rightarrow> 'a queue" where
  "pop q = (if owner q = Owner_idle then q\<lparr>bottom := bottom q - 1, owner := Pop_top (bottom q - 1)\<rparr> else q)"

text \<open>The number of items a thief asks for; the one of the single \<open>steal()\<close> is the batch of size one.\<close>

definition batch_size :: "int \<Rightarrow> nat \<Rightarrow> int" where
  "batch_size available max_steal = min (max 1 (available div 2)) (int max_steal)"

definition thief_step :: "nat \<Rightarrow> 'a queue \<Rightarrow> 'a queue" where
  "thief_step i q =
     (case thieves q ! i of
        Thief_idle \<Rightarrow> q
      | Steal_bottom t max_steal \<Rightarrow>
          q\<lparr>thieves := (thieves q)[i := if t < bottom q then Steal_cas t (batch_size (bottom q - t) max_steal) else Thief_idle]\<rparr>
      | Steal_cas t n \<Rightarrow>
          if top q \<noteq> t then q\<lparr>thieves := (thieves q)[i := Thief_idle]\<rparr>
          else q\<lparr>top := t + n, thieves := (thieves q)[i := Steal_move t (nat n)]\<rparr>
      | Steal_move t n \<Rightarrow>
          if n = 0 then q\<lparr>thieves := (thieves q)[i := Thief_idle]\<rparr>
          else (take_item t q)\<lparr>thieves := (thieves q)[i := Steal_move (t + 1) (n - 1)]\<rparr>)"

definition steal :: "nat \<Rightarrow> nat \<Rightarrow> 'a queue \<Rightarrow> 'a queue" where
  "steal i max_steal q =
     (if thieves q ! i = Thief_idle then q\<lparr>thieves := (thieves q)[i := Steal_bottom (top q) max_steal]\<rparr> else q)"

definition empty :: "'a queue \<Rightarrow> bool" where
  "empty q = (bottom q \<le> top q)"

definition queue_size :: "'a queue \<Rightarrow> int" where
  "queue_size q = (if bottom q \<ge> top q then bottom q - top q else 0)"

text \<open>What can happen next: a call begins, or somebody takes a step.\<close>

datatype 'a move = Push 'a | Pop | Steal nat nat | Owner | Thief nat

primrec happens :: "'a move \<Rightarrow> 'a queue \<Rightarrow> 'a queue" where
  "happens (Push x) q = push x q"
| "happens Pop q = pop q"
| "happens (Steal i k) q = (if i < length (thieves q) then steal i k q else q)"
| "happens Owner q = owner_step q"
| "happens (Thief i) q = (if i < length (thieves q) then thief_step i q else q)"

text \<open>
  The states reached from \<open>q0\<close> by moves that are allowed, where every state that is left satisfies \<open>G\<close>.
\<close>

inductive reached :: "('a queue \<Rightarrow> bool) \<Rightarrow> ('a move \<Rightarrow> bool) \<Rightarrow> 'a queue \<Rightarrow> 'a queue \<Rightarrow> bool" for G allowed q0 where
  start: "reached G allowed q0 q0"
| happens: "reached G allowed q0 q \<Longrightarrow> G q \<Longrightarrow> allowed m \<Longrightarrow> reached G allowed q0 (happens m q)"

text \<open>Moves in which thieves ask for one item at a time.\<close>

primrec single_steal :: "'a move \<Rightarrow> bool" where
  "single_steal (Push x) = True"
| "single_steal Pop = True"
| "single_steal (Steal i k) = (k = 1)"
| "single_steal Owner = True"
| "single_steal (Thief i) = True"

section \<open>Slots\<close>

lemma slot_mod: "capacity q = 2 ^ k \<Longrightarrow> slot q i = i mod 2 ^ k"
  by (simp add: slot_def flip: take_bit_eq_mod mask_eq_exp_minus_1 take_bit_eq_mask)

lemma slot_apart:
  assumes "capacity q = 2 ^ k" and "i \<noteq> j" and "\<bar>i - j\<bar> < int (capacity q)"
  shows "slot q i \<noteq> slot q j"
proof
  assume "slot q i = slot q j"
  then have "(2::int) ^ k dvd i - j" using assms(1) by (simp add: slot_mod mod_eq_dvd_iff)
  moreover have "i - j \<noteq> 0" using assms(2) by simp
  ultimately have "(2::int) ^ k \<le> \<bar>i - j\<bar>" by (metis dvd_abs_iff zdvd_imp_le zero_less_abs_iff)
  with assms(1,3) show False by simp
qed

section \<open>The indices whose items are still to be handed out\<close>

text \<open>The end of the stretch that starts at \<open>top_\<close>; a pop that has not decided yet leaves its index in it.\<close>

definition live_end :: "'a queue \<Rightarrow> int" where
  "live_end q = (case owner q of Pop_top b \<Rightarrow> b + 1 | Pop_cas b \<Rightarrow> b + 1 | Pop_restore b \<Rightarrow> b + 1 | Pop_won b \<Rightarrow> b + 1 | _ \<Rightarrow> bottom q)"

definition owner_claim :: "'a owner \<Rightarrow> int list" where
  "owner_claim p = (case p of Pop_won b \<Rightarrow> [b] | Pop_take b \<Rightarrow> [b] | _ \<Rightarrow> [])"

definition claim :: "thief \<Rightarrow> int list" where
  "claim p = (case p of Steal_move t n \<Rightarrow> if n = 0 then [] else [t] | _ \<Rightarrow> [])"

definition indices :: "'a queue \<Rightarrow> int list" where
  "indices q = owner_claim (owner q) @ concat (map claim (thieves q)) @ [top q..live_end q - 1]"

definition pending :: "'a owner \<Rightarrow> 'a list" where
  "pending p = (case p of Push_wait x \<Rightarrow> [x] | Push_item x b \<Rightarrow> [x] | Push_bottom x b \<Rightarrow> [x] | _ \<Rightarrow> [])"

text \<open>
  No thief that won its swap sleeps while \<open>top_\<close> moves on by more than the tenth of the capacity that
  \<open>push\<close> keeps free.
\<close>

definition prompt :: "'a queue \<Rightarrow> bool" where
  "prompt q = list_all (\<lambda>p. list_all (\<lambda>t. top q - t \<le> int (capacity q) div 10) (claim p)) (thieves q)"

section \<open>Invariant\<close>

definition owner_ok :: "'a queue \<Rightarrow> bool" where
  "owner_ok q =
     (case owner q of
        Owner_idle \<Rightarrow> True
      | Push_wait x \<Rightarrow> True
      | Push_item x b \<Rightarrow> bottom q = b \<and> b - top q < limit q
      | Push_bottom x b \<Rightarrow> bottom q = b \<and> b - top q < limit q \<and> array q (slot q b) = Some x
      | Pop_top b \<Rightarrow> bottom q = b
      | Pop_cas b \<Rightarrow> bottom q = b \<and> b \<le> top q
      | Pop_restore b \<Rightarrow> bottom q = b \<and> top q = b + 1
      | Pop_won b \<Rightarrow> bottom q = b \<and> top q = b + 1
      | Pop_take b \<Rightarrow> bottom q = b \<and> b - top q < limit q \<or> bottom q = b + 1 \<and> top q = b + 1)"

definition thief_ok :: "'a queue \<Rightarrow> thief \<Rightarrow> bool" where
  "thief_ok q p =
     (case p of
        Thief_idle \<Rightarrow> True
      | Steal_bottom t k \<Rightarrow> t \<le> top q \<and> k = 1
      | Steal_cas t n \<Rightarrow> t \<le> top q \<and> n = 1 \<and> (t = top q \<longrightarrow> t < live_end q)
      | Steal_move t n \<Rightarrow> n \<le> 1 \<and> (n = 1 \<longrightarrow> t < top q))"

definition shape_ok :: "'a queue \<Rightarrow> bool" where
  "shape_ok q \<longleftrightarrow> (\<exists>k. 4 \<le> k \<and> k < 64 \<and> capacity q = 2 ^ k) \<and> top q \<le> live_end q \<and> live_end q - top q \<le> limit q \<and>
     owner_ok q \<and> list_all (thief_ok q) (thieves q) \<and> distinct (indices q)"

definition items :: "'a queue \<Rightarrow> 'a option multiset" where
  "items q = image_mset (\<lambda>i. array q (slot q i)) (mset (indices q)) + image_mset Some (mset (pending (owner q)))"

definition balanced :: "'a queue \<Rightarrow> bool" where
  "balanced q \<longleftrightarrow> image_mset Some (mset (pushed q)) = mset (returned q) + items q"

lemma claims_update:
  "i < length ts \<Longrightarrow> mset (concat (map claim (ts[i := p]))) + mset (claim (ts ! i)) = mset (concat (map claim ts)) + mset (claim p)"
  by (induction ts arbitrary: i) (auto split: nat.splits simp: nth_Cons)

lemma unaffected [simp]:
  "live_end (q\<lparr>thieves := a\<rparr>) = live_end q" "live_end (q\<lparr>array := b\<rparr>) = live_end q" "live_end (q\<lparr>returned := c\<rparr>) = live_end q"
  "live_end (q\<lparr>top := d\<rparr>) = live_end q"
  "limit (q\<lparr>thieves := a\<rparr>) = limit q" "limit (q\<lparr>array := b\<rparr>) = limit q" "limit (q\<lparr>returned := c\<rparr>) = limit q"
  "limit (q\<lparr>top := d\<rparr>) = limit q" "limit (q\<lparr>owner := e\<rparr>) = limit q" "limit (q\<lparr>bottom := d\<rparr>) = limit q"
  "limit (q\<lparr>pushed := l\<rparr>) = limit q"
  by (simp_all add: live_end_def limit_def split: owner.split)

lemma capacity_bounds:
  assumes "shape_ok q"
  obtains k where "capacity q = 2 ^ k" "16 \<le> int (capacity q)" "int (capacity q) < 2 ^ 64"
proof -
  from assms obtain k where k: "4 \<le> k" "k < 64" "capacity q = 2 ^ k" by (auto simp: shape_ok_def)
  have "(2::int) ^ 4 \<le> 2 ^ k" by (rule power_increasing [OF k(1)]) simp
  moreover have "(2::int) ^ k < 2 ^ 64" by (rule power_strict_increasing [OF k(2)]) simp
  moreover have "int (capacity q) = 2 ^ k" using k(3) by simp
  ultimately show ?thesis using k(3) by (intro that [of k]) simp_all
qed

lemma thief_claims_range:
  assumes "shape_ok q" and "t \<in> set (concat (map claim (thieves q)))"
  shows "t < top q" and "prompt q \<Longrightarrow> top q - t \<le> int (capacity q) div 10"
  using assms
  by (fastforce simp: shape_ok_def prompt_def list_all_iff claim_def thief_ok_def split: thief.splits if_splits)+

lemma owner_claim_range:
  assumes "shape_ok q" and "b \<in> set (owner_claim (owner q))"
  shows "top q - 1 \<le> b" and "b < top q + limit q" and "b < live_end q \<or> bottom q = b \<and> owner q = Pop_take b"
proof -
  from capacity_bounds [OF assms(1)] have "16 \<le> int (capacity q)" by blast
  then have l: "0 < limit q" by (simp add: limit_def)
  have o: "owner_ok q" and t: "top q \<le> live_end q" using assms(1) by (simp_all add: shape_ok_def)
  show "top q - 1 \<le> b" "b < top q + limit q" "b < live_end q \<or> bottom q = b \<and> owner q = Pop_take b"
    using o t l assms(2)
    by (cases "owner q"; auto simp: owner_ok_def owner_claim_def live_end_def)+
qed

lemma indices_range:
  assumes s: "shape_ok q" and p: "prompt q" and i: "i \<in> set (indices q)"
  shows "top q - int (capacity q) div 10 \<le> i" and "i < top q + limit q"
proof -
  from capacity_bounds [OF s] have c: "16 \<le> int (capacity q)" by blast
  have l: "live_end q - top q \<le> limit q" using s by (simp add: shape_ok_def)
  from i consider "i \<in> set (owner_claim (owner q))" | "i \<in> set (concat (map claim (thieves q)))" | "top q \<le> i" "i < live_end q"
    by (auto simp: indices_def)
  then have "top q - int (capacity q) div 10 \<le> i \<and> i < top q + limit q"
  proof cases
    case 1
    then show ?thesis using owner_claim_range [OF s 1] c by auto
  next
    case 2
    then show ?thesis using thief_claims_range [OF s 2] p c by (auto simp: limit_def)
  next
    case 3
    then show ?thesis using l c by auto
  qed
  then show "top q - int (capacity q) div 10 \<le> i" "i < top q + limit q" by simp_all
qed

lemma slots_apart:
  assumes "shape_ok q" and "prompt q" and "i \<in> set (indices q)" and "top q - int (capacity q) div 10 \<le> j"
    and "j < top q + limit q" and "i \<noteq> j"
  shows "slot q i \<noteq> slot q j"
proof -
  from capacity_bounds [OF assms(1)] obtain k where "capacity q = 2 ^ k" by blast
  then show ?thesis
    by (rule slot_apart) (use assms indices_range [OF assms(1-3)] in \<open>auto simp: limit_def\<close>)
qed

text \<open>What a step is to somebody who only sees the bag of items: nothing, one item more, or one item less.\<close>

definition bag_step :: "'a queue \<Rightarrow> 'a queue \<Rightarrow> bool" where
  "bag_step q q' \<longleftrightarrow>
     items q' = items q \<and> returned q' = returned q \<and> pushed q' = pushed q \<or>
     (\<exists>x. items q' = add_mset (Some x) (items q) \<and> returned q' = returned q \<and> pushed q' = x # pushed q) \<or>
     (\<exists>c. items q = add_mset c (items q') \<and> returned q' = c # returned q \<and> pushed q' = pushed q)"

lemma bag_step_balanced: "bag_step q q' \<Longrightarrow> balanced q \<Longrightarrow> balanced q'"
  by (auto simp: bag_step_def balanced_def)

text \<open>Moves that leave the array alone and only rearrange the indices.\<close>

lemma bag_step_same:
  assumes "mset (indices q') = mset (indices q)" and "array q' = array q" and "capacity q' = capacity q"
    and "pending (owner q') = pending (owner q)" and "returned q' = returned q" and "pushed q' = pushed q"
  shows "bag_step q q'"
  using assms by (simp add: bag_step_def items_def slot_def)

text \<open>Handing out the item at one of the indices.\<close>

lemma bag_step_take:
  assumes s: "shape_ok q" "prompt q" and i: "i \<in> set (indices q)"
    and q': "mset (indices q) = add_mset i (mset (indices q'))" "array q' = (array q)(slot q i := None)" "capacity q' = capacity q"
      "pending (owner q') = pending (owner q)" "returned q' = array q (slot q i) # returned q" "pushed q' = pushed q"
  shows "bag_step q q'"
proof -
  have "distinct (indices q)" using s by (simp add: shape_ok_def)
  then have ni: "i \<notin># mset (indices q')" using q'(1) by (metis One_nat_def count_add_mset distinct_count_atmost_1 i nat.inject not_in_iff)
  have "array q' (slot q' j) = array q (slot q j)" if "j \<in># mset (indices q')" for j
  proof -
    have "j \<in># mset (indices q)" using that by (simp add: q'(1))
    then have "j \<in> set (indices q)" "j \<noteq> i" using that ni by auto
    then have "slot q j \<noteq> slot q i" using slots_apart [OF s] indices_range [OF s i] by blast
    moreover have "slot q' j = slot q j" using q'(3) by (simp add: slot_def)
    ultimately show ?thesis by (simp add: q'(2))
  qed
  then have "image_mset (\<lambda>j. array q' (slot q' j)) (mset (indices q')) = image_mset (\<lambda>j. array q (slot q j)) (mset (indices q'))"
    by (rule image_mset_cong)
  then have "items q = add_mset (array q (slot q i)) (items q')"
    unfolding items_def q'(1,4) by simp
  with q' show ?thesis by (auto simp: bag_step_def)
qed

lemma distinct_mset_sub: "mset xs \<subseteq># mset ys \<Longrightarrow> distinct ys \<Longrightarrow> distinct xs"
proof -
  assume sub: "mset xs \<subseteq># mset ys" and d: "distinct ys"
  have "count (mset xs) a \<le> 1" for a
  proof (rule order_trans [OF mset_subset_eq_count [OF sub]])
    show "count (mset ys) a \<le> 1" using d by (simp add: distinct_count_atmost_1)
  qed
  moreover have "0 < count (mset xs) a" if "a \<in> set xs" for a using that by simp
  ultimately have "count (mset xs) a = (if a \<in> set xs then 1 else 0)" for a
    by (cases "a \<in> set xs") (force simp: count_eq_zero_iff intro: le_antisym)+
  then show "distinct xs" by (simp add: distinct_count_atmost_1)
qed

lemma shape_okI:
  assumes "shape_ok q" and "capacity q' = capacity q" and "top q' \<le> live_end q'" and "live_end q' - top q' \<le> limit q"
    and "owner_ok q'" and "list_all (thief_ok q') (thieves q')" and "mset (indices q') \<subseteq># mset (indices q)"
  shows "shape_ok q'"
  using assms distinct_mset_sub [OF assms(7)] by (simp add: shape_ok_def limit_def)

lemma upto_last: "a \<le> b \<Longrightarrow> mset [a..b] = add_mset b (mset [a..b - 1])"
  by (simp add: upto_rec2)

lemma upto_first: "a \<le> b \<Longrightarrow> mset [a..b] = add_mset a (mset [a + 1..b])"
  by (subst upto_rec1) simp_all

lemmas queue_simps = owner_ok_def live_end_def indices_def owner_claim_def pending_def slot_def take_item_def

lemma thieves_stay:
  "list_all (thief_ok q) ts \<Longrightarrow> top q \<le> top q' \<Longrightarrow> (top q' = top q \<Longrightarrow> top q < live_end q \<Longrightarrow> top q < live_end q') \<Longrightarrow>
   list_all (thief_ok q') ts"
  by (auto simp: list_all_iff thief_ok_def split: thief.splits)

lemma push_ok:
  assumes "shape_ok q"
  shows "shape_ok (push x q) \<and> bag_step q (push x q)"
proof (cases "owner q = Owner_idle")
  case True
  let ?q = "push x q"
  have i: "mset (indices ?q) = mset (indices q)" using True by (simp add: push_def queue_simps)
  have "shape_ok ?q"
    by (rule shape_okI [OF assms]) (use True assms i in \<open>auto simp: push_def shape_ok_def queue_simps elim!: thieves_stay\<close>)
  moreover have "bag_step q ?q"
    using True by (auto simp: bag_step_def items_def push_def queue_simps)
  ultimately show ?thesis ..
qed (use assms in \<open>simp add: push_def bag_step_same\<close>)

lemma pop_ok:
  assumes "shape_ok q"
  shows "shape_ok (pop q) \<and> bag_step q (pop q)"
proof (cases "owner q = Owner_idle")
  case True
  let ?q = "pop q"
  have i: "mset (indices ?q) = mset (indices q)" using True by (simp add: pop_def queue_simps)
  have "shape_ok ?q"
    by (rule shape_okI [OF assms]) (use True assms i in \<open>auto simp: pop_def shape_ok_def queue_simps elim!: thieves_stay\<close>)
  moreover have "bag_step q ?q" by (rule bag_step_same [OF i]) (use True in \<open>simp_all add: pop_def queue_simps\<close>)
  ultimately show ?thesis ..
qed (use assms in \<open>simp add: pop_def bag_step_same\<close>)

lemma end_not_listed:
  assumes "shape_ok q" and o: "owner q = Push_item x b \<or> owner q = Push_bottom x b" and "i \<in> set (indices q)"
  shows "i < b"
proof -
  have b: "bottom q = b" "live_end q = b" "owner_claim (owner q) = []" "top q \<le> b"
    using assms(1) o by (auto simp: shape_ok_def queue_simps)
  with assms(3) consider "i \<in> set (concat (map claim (thieves q)))" | "i < b" by (auto simp: indices_def)
  then show ?thesis by cases (use thief_claims_range(1) [OF assms(1)] b in force)+
qed

lemma write_item_ok:
  assumes s: "shape_ok q" "prompt q" and o: "owner q = Push_item x b"
  shows "shape_ok (owner_step q) \<and> bag_step q (owner_step q)"
proof -
  let ?q = "owner_step q"
  from capacity_bounds [OF s(1)] have c: "16 \<le> int (capacity q)" by blast
  have b: "bottom q = b" "b - top q < limit q" "top q \<le> b" using s(1) o by (auto simp: shape_ok_def queue_simps)
  have i: "indices ?q = indices q" using o by (simp add: owner_step_def queue_simps)
  have "array ?q (slot ?q j) = array q (slot q j)" if "j \<in># mset (indices q)" for j
  proof -
    have "j \<in> set (indices q)" "j \<noteq> b" using that end_not_listed [OF s(1)] o by auto
    then have "slot q j \<noteq> slot q b" using slots_apart [OF s] b c by simp
    then show ?thesis using o by (simp add: owner_step_def slot_def)
  qed
  then have "image_mset (\<lambda>j. array ?q (slot ?q j)) (mset (indices q)) = image_mset (\<lambda>j. array q (slot q j)) (mset (indices q))"
    by (rule image_mset_cong)
  then have "bag_step q ?q"
    using o unfolding bag_step_def items_def i by (simp add: owner_step_def pending_def)
  moreover have "shape_ok ?q"
    by (rule shape_okI [OF s(1)])
       (use s(1) o b i in \<open>auto simp: owner_step_def shape_ok_def queue_simps limit_def elim!: thieves_stay\<close>)
  ultimately show ?thesis by blast
qed

lemma publish_ok:
  assumes s: "shape_ok q" and o: "owner q = Push_bottom x b"
  shows "shape_ok (owner_step q) \<and> bag_step q (owner_step q)"
proof -
  let ?q = "owner_step q"
  have b: "bottom q = b" "b - top q < limit q" "top q \<le> b" "array q (slot q b) = Some x"
    using s o by (auto simp: shape_ok_def queue_simps)
  have i: "mset (indices ?q) = add_mset b (mset (indices q))"
    using o b by (simp add: owner_step_def queue_simps upto_last)
  have "distinct (b # indices q)" using s end_not_listed [OF s] o by (auto simp: shape_ok_def)
  then have "distinct (indices ?q)" using i mset_eq_imp_distinct_iff [of "indices ?q" "b # indices q"] by simp
  moreover have "thieves ?q = thieves q" "top ?q = top q" "live_end q \<le> live_end ?q" using o b by (simp_all add: owner_step_def live_end_def)
  ultimately have "shape_ok ?q"
    using s o b unfolding shape_ok_def
    by (auto simp: owner_step_def queue_simps limit_def elim!: thieves_stay)
  moreover have "bag_step q ?q"
    using o b unfolding bag_step_def items_def i by (simp add: owner_step_def pending_def slot_def)
  ultimately show ?thesis by blast
qed

lemma hand_out_ok:
  assumes s: "shape_ok q" "prompt q" and o: "owner q = Pop_take b"
  shows "shape_ok (owner_step q) \<and> bag_step q (owner_step q)"
proof -
  let ?q = "owner_step q"
  have i: "mset (indices q) = add_mset b (mset (indices ?q))" using o by (simp add: owner_step_def queue_simps)
  have "shape_ok ?q"
    by (rule shape_okI [OF s(1)])
       (use s(1) o i in \<open>auto simp: owner_step_def shape_ok_def queue_simps elim!: thieves_stay\<close>)
  moreover have "bag_step q ?q"
    by (rule bag_step_take [OF s _ i]) (use o in \<open>simp_all add: owner_step_def queue_simps\<close>)
  ultimately show ?thesis by blast
qed

lemma owner_ok_other:
  assumes s: "shape_ok q" and o: "\<forall>x b. owner q \<noteq> Push_item x b \<and> owner q \<noteq> Push_bottom x b \<and> owner q \<noteq> Pop_take b"
  shows "shape_ok (owner_step q) \<and> bag_step q (owner_step q)"
proof -
  let ?q = "owner_step q"
  from capacity_bounds [OF s] have c: "int (capacity q) < 2 ^ 64" "16 \<le> int (capacity q)" by blast+
  then have l: "limit q < 2 ^ 64" "0 < limit q" by (simp_all add: limit_def)
  have t: "top q \<le> live_end q" "live_end q - top q \<le> limit q" "owner_ok q" using s by (simp_all add: shape_ok_def)
  have i: "mset (indices ?q) = mset (indices q)"
    using o t by (cases "owner q") (auto simp: owner_step_def queue_simps upto_last)
  have "bag_step q ?q"
    by (rule bag_step_same [OF i]) (use o in \<open>cases "owner q"; auto simp: owner_step_def pending_def\<close>)+
  moreover have "shape_ok ?q"
  proof (rule shape_okI [OF s])
    have th: "list_all (thief_ok q) (thieves q)" using s by (simp add: shape_ok_def)
    have "top q \<le> top ?q" "top ?q = top q \<Longrightarrow> top q < live_end q \<Longrightarrow> top q < live_end ?q" "thieves ?q = thieves q"
      using o t by (cases "owner q"; auto simp: owner_step_def queue_simps)+
    then show "list_all (thief_ok ?q) (thieves ?q)" using thieves_stay [OF th, of ?q] by metis
    show "owner_ok ?q" using o t l by (cases "owner q") (auto simp: owner_step_def queue_simps)
    show "top ?q \<le> live_end ?q" "live_end ?q - top ?q \<le> limit q"
      using o t l by (cases "owner q"; auto simp: owner_step_def queue_simps)+
  qed (use i o in \<open>cases "owner q"; auto simp: owner_step_def\<close>)+
  ultimately show ?thesis by blast
qed

lemma all_update: "list_all P xs \<Longrightarrow> P x \<Longrightarrow> list_all P (xs[i := x])"
  using set_update_subset_insert [of xs i x] by (auto simp: list_all_iff)

text \<open>A thief that moves on without taking part in the array or in \<open>top_\<close>.\<close>

lemma thief_moves_ok:
  assumes s: "shape_ok q" and i: "i < length (thieves q)" "claim (thieves q ! i) = []" "claim p = []" and p: "thief_ok q p"
  shows "shape_ok (q\<lparr>thieves := (thieves q)[i := p]\<rparr>) \<and> bag_step q (q\<lparr>thieves := (thieves q)[i := p]\<rparr>)"
proof -
  let ?q = "q\<lparr>thieves := (thieves q)[i := p]\<rparr>"
  have m: "mset (indices ?q) = mset (indices q)"
    using claims_update [OF i(1), of p] i(2,3) by (simp add: indices_def)
  have th: "list_all (thief_ok q) (thieves q)" using s by (simp add: shape_ok_def)
  have "list_all (thief_ok ?q) (thieves ?q)"
    using thieves_stay [OF all_update [OF th p, of i], of ?q] by simp
  then have "shape_ok ?q"
    by (intro shape_okI [OF s]) (use s m in \<open>auto simp: shape_ok_def owner_ok_def slot_def split: owner.splits\<close>)
  moreover have "bag_step q ?q" by (rule bag_step_same [OF m]) simp_all
  ultimately show ?thesis by blast
qed

lemma thief_wins_ok:
  assumes s: "shape_ok q" and i: "i < length (thieves q)" "thieves q ! i = Steal_cas (top q) n"
  shows "shape_ok (thief_step i q) \<and> bag_step q (thief_step i q)"
proof -
  let ?q = "thief_step i q"
  have th: "list_all (thief_ok q) (thieves q)" using s by (simp add: shape_ok_def)
  then have "thief_ok q (thieves q ! i)" using i(1) by (simp add: list_all_length)
  then have t: "n = 1" "top q < live_end q" using i(2) by (simp_all add: thief_ok_def)
  have q': "?q = q\<lparr>top := top q + 1, thieves := (thieves q)[i := Steal_move (top q) 1]\<rparr>"
    using i t by (simp add: thief_step_def)
  have m: "mset (indices ?q) = mset (indices q)"
    using claims_update [OF i(1), of "Steal_move (top q) 1"] i(2) t upto_first [of "top q" "live_end q - 1"]
    by (simp add: q' indices_def claim_def)
  have "list_all (thief_ok (q\<lparr>top := top q + 1\<rparr>)) (thieves q)"
    using thieves_stay [OF th, of "q\<lparr>top := top q + 1\<rparr>"] by simp
  then have "list_all (thief_ok (q\<lparr>top := top q + 1\<rparr>)) (thieves ?q)"
    unfolding q' by (simp add: all_update thief_ok_def)
  then have th': "list_all (thief_ok ?q) (thieves ?q)"
    by (rule thieves_stay) (simp_all add: q')
  have o: "owner_ok ?q" using s t by (cases "owner q") (auto simp: q' shape_ok_def owner_ok_def live_end_def slot_def)
  have "shape_ok ?q"
    by (rule shape_okI [OF s _ _ _ o th']) (use s t m in \<open>simp_all add: q' shape_ok_def\<close>)
  moreover have "bag_step q ?q" by (rule bag_step_same [OF m]) (simp_all add: q')
  ultimately show ?thesis by blast
qed

lemma thief_takes_ok:
  assumes s: "shape_ok q" "prompt q" and i: "i < length (thieves q)" "thieves q ! i = Steal_move t n" "n \<noteq> 0"
  shows "shape_ok (thief_step i q) \<and> bag_step q (thief_step i q)"
proof -
  let ?q = "thief_step i q"
  have th: "list_all (thief_ok q) (thieves q)" using s by (simp add: shape_ok_def)
  then have "thief_ok q (thieves q ! i)" using i(1) by (simp add: list_all_length)
  then have n: "n = 1" using i(2,3) by (simp add: thief_ok_def)
  have q': "?q = (take_item t q)\<lparr>thieves := (thieves q)[i := Steal_move (t + 1) 0]\<rparr>"
    using i n by (simp add: thief_step_def)
  have m: "mset (indices q) = add_mset t (mset (indices ?q))"
    using claims_update [OF i(1), of "Steal_move (t + 1) 0"] i(2) n
    by (simp add: q' indices_def claim_def take_item_def)
  have "list_all (thief_ok q) (thieves ?q)" unfolding q' using th by (simp add: all_update thief_ok_def)
  then have th': "list_all (thief_ok ?q) (thieves ?q)"
    by (rule thieves_stay) (simp_all add: q' take_item_def)
  have t: "t \<in> set (concat (map claim (thieves q)))" using i n nth_mem [OF i(1)] by (force simp: claim_def)
  have o: "owner_ok ?q"
  proof -
    have "slot q b \<noteq> slot q t" if "owner q = Push_bottom x b" for x b
    proof -
      have "b - top q < limit q" "top q \<le> b" using s that by (auto simp: shape_ok_def queue_simps)
      moreover have "t \<in> set (indices q)" using t by (simp add: indices_def)
      moreover from this have "t < b" using end_not_listed [OF s(1)] that by blast
      moreover have "0 \<le> int (capacity q) div 10" by simp
      ultimately show ?thesis using slots_apart [OF s, of t b] by (metis add.commute diff_less_eq less_irrefl order_trans diff_le_eq le_add_same_cancel1)
    qed
    then show ?thesis using s by (cases "owner q") (auto simp: q' shape_ok_def owner_ok_def take_item_def slot_def limit_def)
  qed
  have "shape_ok ?q"
    by (rule shape_okI [OF s(1) _ _ _ o th']) (use s m in \<open>simp_all add: q' shape_ok_def take_item_def\<close>)
  moreover have "bag_step q ?q"
    by (rule bag_step_take [OF s _ m]) (use t in \<open>simp_all add: q' take_item_def indices_def\<close>)
  ultimately show ?thesis by blast
qed

lemma bottom_live: "shape_ok q \<Longrightarrow> bottom q \<le> live_end q"
  by (cases "owner q") (auto simp: shape_ok_def owner_ok_def live_end_def)

lemma thief_step_ok:
  assumes s: "shape_ok q" "prompt q" and i: "i < length (thieves q)"
  shows "shape_ok (thief_step i q) \<and> bag_step q (thief_step i q)"
proof -
  have p: "thief_ok q (thieves q ! i)" using s(1) i by (simp add: shape_ok_def list_all_length)
  show ?thesis
  proof (cases "thieves q ! i")
    case Thief_idle
    then show ?thesis using s by (simp add: thief_step_def bag_step_same)
  next
    case (Steal_bottom t k)
    then have "thief_ok q (if t < bottom q then Steal_cas t (batch_size (bottom q - t) k) else Thief_idle)"
      using p bottom_live [OF s(1)] by (auto simp: thief_ok_def batch_size_def)
    with thief_moves_ok [OF s(1) i] Steal_bottom show ?thesis by (simp add: thief_step_def claim_def)
  next
    case (Steal_cas t n)
    show ?thesis
    proof (cases "top q = t")
      case True
      with thief_wins_ok [OF s(1) i] Steal_cas show ?thesis by simp
    next
      case False
      with thief_moves_ok [OF s(1) i, of Thief_idle] Steal_cas show ?thesis
        by (simp add: thief_step_def claim_def thief_ok_def)
    qed
  next
    case (Steal_move t n)
    show ?thesis
    proof (cases "n = 0")
      case True
      with thief_moves_ok [OF s(1) i, of Thief_idle] Steal_move show ?thesis
        by (simp add: thief_step_def claim_def thief_ok_def)
    qed (use thief_takes_ok [OF s i Steal_move] in simp)
  qed
qed

lemma happens_ok:
  assumes s: "shape_ok q" "prompt q" and m: "single_steal m"
  shows "shape_ok (happens m q) \<and> bag_step q (happens m q)"
proof (cases m)
  case (Push x)
  then show ?thesis using push_ok [OF s(1)] by simp
next
  case Pop
  then show ?thesis using pop_ok [OF s(1)] by simp
next
  case (Steal i k)
  show ?thesis
  proof (cases "i < length (thieves q) \<and> thieves q ! i = Thief_idle")
    case True
    then show ?thesis using thief_moves_ok [OF s(1), of i "Steal_bottom (top q) 1"] m Steal
      by (simp add: steal_def claim_def thief_ok_def)
  qed (use s Steal in \<open>auto simp: steal_def intro: bag_step_same\<close>)
next
  case Owner
  then show ?thesis
    using write_item_ok [OF s] publish_ok [OF s(1)] hand_out_ok [OF s] owner_ok_other [OF s(1)] by (cases "owner q") simp_all
next
  case (Thief i)
  then show ?thesis using thief_step_ok [OF s] s by (simp add: bag_step_same)
qed

lemma new_queue_ok:
  assumes "4 \<le> k" and "k < 64"
  shows "shape_ok (new_queue (2 ^ k) n)" and "balanced (new_queue (2 ^ k) n)"
proof -
  have c: "concat (replicate n []) = []" by (induction n) simp_all
  have "(0::int) \<le> 2 ^ k" by simp
  then have "(0::int) \<le> 2 ^ k div 10" "(2::int) ^ k div 10 \<le> 2 ^ k" by linarith+
  then show "shape_ok (new_queue (2 ^ k) n)"
    using assms by (auto simp: shape_ok_def new_queue_def queue_simps limit_def thief_ok_def claim_def c list_all_iff)
  show "balanced (new_queue (2 ^ k) n)"
    by (simp add: balanced_def items_def new_queue_def queue_simps claim_def c)
qed

lemma reached_ok:
  assumes "reached prompt single_steal (new_queue (2 ^ k) n) q" and "4 \<le> k" and "k < 64"
  shows "shape_ok q \<and> balanced q"
  using assms(1)
proof induction
  case start
  show ?case using new_queue_ok [OF assms(2,3)] by blast
next
  case (happens q m)
  then show ?case using happens_ok bag_step_balanced by blast
qed

primrec run_ok :: "('a queue \<Rightarrow> bool) \<Rightarrow> ('a move \<Rightarrow> bool) \<Rightarrow> 'a move list \<Rightarrow> 'a queue \<Rightarrow> bool" where
  "run_ok G allowed [] q \<longleftrightarrow> True"
| "run_ok G allowed (m # ms) q \<longleftrightarrow> G q \<and> allowed m \<and> run_ok G allowed ms (happens m q)"

lemma reached_run:
  assumes "reached G allowed q0 q" and "run_ok G allowed ms q"
  shows "reached G allowed q0 (fold happens ms q)"
  using assms by (induction ms arbitrary: q) (auto intro: reached.happens)

section \<open>Queues that stay blocked\<close>

definition push_all :: "'a list \<Rightarrow> 'a queue \<Rightarrow> 'a queue" where
  "push_all xs q = fold (\<lambda>x q. owner_step (owner_step (owner_step (push x q)))) xs q"

primrec owner_only :: "'a move \<Rightarrow> bool" where
  "owner_only (Push x) = True"
| "owner_only Pop = True"
| "owner_only (Steal i k) = False"
| "owner_only Owner = True"
| "owner_only (Thief i) = False"

lemma push_all_fills:
  assumes "owner q = Owner_idle" and "top q = 0" and "0 \<le> bottom q" and "bottom q + int (length xs) \<le> limit q" and "limit q < 2 ^ 64"
  shows "owner (push_all xs q) = Owner_idle \<and> top (push_all xs q) = 0 \<and> bottom (push_all xs q) = bottom q + int (length xs) \<and>
    capacity (push_all xs q) = capacity q"
  using assms
proof (induction xs arbitrary: q)
  case (Cons x xs)
  let ?q = "owner_step (owner_step (owner_step (push x q)))"
  have "bottom q < limit q" using Cons.prems(4) by simp
  then have "bottom q mod 2 ^ 64 = bottom q" using Cons.prems(3,5) by simp
  with Cons.prems(1,2) \<open>bottom q < limit q\<close>
  have q: "owner ?q = Owner_idle" "top ?q = 0" "bottom ?q = bottom q + 1" "capacity ?q = capacity q" "limit ?q = limit q"
    by (simp_all add: push_def owner_step_def)
  have "push_all (x # xs) q = push_all xs ?q" by (simp add: push_all_def)
  with Cons.IH [of ?q] q Cons.prems show ?case by simp
qed (simp add: push_all_def)

text \<open>A batch of two is claimed while the owner takes the same two items and one more.\<close>

definition batch_schedule :: "int move list" where
  "batch_schedule = concat (map (\<lambda>x. [Push x, Owner, Owner, Owner]) [1..4]) @ [Steal 0 16, Thief 0] @
     concat (replicate 3 [Pop, Owner, Owner]) @ replicate 4 (Thief 0) @ [Push 5, Owner]"

definition after_batch :: "int queue" where
  "after_batch = fold happens batch_schedule (new_queue DEFAULT_CAPACITY 1)"

definition overtaken :: "int queue \<Rightarrow> bool" where
  "overtaken q \<longleftrightarrow> owner q = Push_wait 5 \<and> bottom q = 1 \<and> top q = 2 \<and> capacity q = DEFAULT_CAPACITY \<and> None \<in> set (returned q) \<and>
     (\<exists>p. thieves q = [p] \<and> (p = Thief_idle \<or> (\<exists>k. p = Steal_bottom 2 k)))"

lemma overtaken_stays: "overtaken q \<Longrightarrow> overtaken (happens m q)"
  by (cases m)
     (auto simp: overtaken_def push_def pop_def steal_def owner_step_def thief_step_def limit_def DEFAULT_CAPACITY_def)

section \<open>Properties\<close>

text \<open>C39. The queue is a bag to its users: while thieves ask for single items, every step of a push, a pop
  or a steal is nothing to the bag of items, or puts in the item pushed, or takes out one item that is
  returned. This holds as long as no thief sleeps between winning an item and moving it out.\<close>

theorem queue_refines_bag:
  assumes "reached prompt single_steal (new_queue (2 ^ k) n) q" and "4 \<le> k" and "k < 64"
    and "prompt q" and "single_steal m"
  shows "bag_step q (happens m q)"
  using reached_ok [OF assms(1-3)] happens_ok assms(4,5) by blast

definition short_schedule :: "int move list" where
  "short_schedule = concat (map (\<lambda>x. [Push x, Owner, Owner, Owner]) [1, 2]) @ [Steal 0 1, Thief 0, Pop, Owner, Thief 0]"

lemma short_reached:
  "reached prompt single_steal (new_queue (2 ^ 4) 1) (fold happens short_schedule (new_queue (2 ^ 4) 1))"
  by (rule reached_run [OF reached.start]) code_simp

lemma queue_refines_bag_witness:
  "bag_step (fold happens short_schedule (new_queue (2 ^ 4) 1)) (happens (Thief 0) (fold happens short_schedule (new_queue (2 ^ 4) 1)))"
proof (rule queue_refines_bag [OF short_reached])
  show "prompt (fold happens short_schedule (new_queue (2 ^ 4) 1))" by code_simp
qed simp_all

text \<open>With single steals every item is returned at most once, none is lost, and nobody gets an item
  that was moved out before: what was pushed is what was returned and what is still in the queue; once
  nobody is at work, the latter are the slots from \<open>top_\<close> to \<open>bottom_\<close>.\<close>

theorem single_steals_lose_nothing:
  assumes "reached prompt single_steal (new_queue (2 ^ k) n) q" and "4 \<le> k" and "k < 64"
  shows "image_mset Some (mset (pushed q)) = mset (returned q) + items q \<and> None \<notin> set (returned q) \<and>
    (owner q = Owner_idle \<and> list_all (\<lambda>p. p = Thief_idle) (thieves q) \<longrightarrow>
       items q = image_mset (\<lambda>i. array q (slot q i)) (mset [top q..bottom q - 1]))"
proof -
  from reached_ok [OF assms] have b: "image_mset Some (mset (pushed q)) = mset (returned q) + items q" by (simp add: balanced_def)
  have "None \<notin># mset (returned q) + items q" unfolding b [symmetric] by auto
  moreover have "items q = image_mset (\<lambda>i. array q (slot q i)) (mset [top q..bottom q - 1])"
    if "owner q = Owner_idle" "list_all (\<lambda>p. p = Thief_idle) (thieves q)"
  proof -
    have "concat (map claim (thieves q)) = []" using that(2) by (auto simp: list_all_iff claim_def)
    with that(1) show ?thesis by (simp add: items_def queue_simps)
  qed
  ultimately show ?thesis using b by auto
qed

lemma single_steals_lose_nothing_witness:
  "image_mset Some (mset [2, 1]) = mset [] + items (fold happens short_schedule (new_queue (2 ^ 4) 1)) \<and>
   None \<notin> set (returned (fold happens short_schedule (new_queue (2 ^ 4) 1)))"
proof -
  have "pushed (fold happens short_schedule (new_queue (2 ^ 4) 1)) = [2, 1]"
    "returned (fold happens short_schedule (new_queue (2 ^ 4) 1)) = []" by code_simp+
  with single_steals_lose_nothing [OF short_reached] show ?thesis by simp
qed

text \<open>A push that waits goes on: at once when there is room, otherwise after an idle thief has taken an
  item.\<close>

theorem push_goes_on:
  assumes "reached prompt single_steal (new_queue (2 ^ k) n) q" and "4 \<le> k" and "k < 64"
    and "owner q = Push_wait x" and "i < length (thieves q)" and "thieves q ! i = Thief_idle"
  shows "owner (fold happens (if bottom q - top q < limit q then [Owner] else [Steal i 1, Thief i, Thief i, Owner]) q) =
    Push_item x (bottom q)"
proof -
  from reached_ok [OF assms(1-3)] have s: "shape_ok q" by blast
  from capacity_bounds [OF s] have "int (capacity q) < 2 ^ 64" "16 \<le> int (capacity q)" by blast+
  then have l: "limit q < 2 ^ 64" "0 < limit q" by (simp_all add: limit_def)
  have t: "top q \<le> bottom q" "bottom q - top q \<le> limit q" using s assms(4) by (simp_all add: shape_ok_def live_end_def)
  have m: "(bottom q - top q) mod 2 ^ 64 = bottom q - top q" "(bottom q - (top q + 1)) mod 2 ^ 64 = bottom q - (top q + 1)"
    if "top q < bottom q" using t l that by simp_all
  show ?thesis
  proof (cases "bottom q - top q < limit q")
    case True
    then have "(bottom q - top q) mod 2 ^ 64 = bottom q - top q" using t l by simp
    with True show ?thesis using assms(4) by (simp add: owner_step_def)
  next
    case False
    with t l have full: "bottom q - top q = limit q" "top q < bottom q" by simp_all
    then have "batch_size (bottom q - top q) 1 = 1" by (simp add: batch_size_def)
    with False full m show ?thesis using assms(4-6)
      by (simp add: steal_def thief_step_def owner_step_def)
  qed
qed

definition full_schedule :: "int move list" where
  "full_schedule = concat (map (\<lambda>x. [Push x, Owner, Owner, Owner]) [1..15]) @ [Push 16, Owner]"

lemma push_goes_on_witness:
  "owner (fold happens [Steal 0 1, Thief 0, Thief 0, Owner] (fold happens full_schedule (new_queue (2 ^ 4) 1))) = Push_item 16 15"
proof -
  let ?q = "fold happens full_schedule (new_queue (2 ^ 4) 1)"
  have r: "reached prompt single_steal (new_queue (2 ^ 4) 1) ?q"
    by (rule reached_run [OF reached.start]) code_simp
  have s: "owner ?q = Push_wait 16" "thieves ?q = [Thief_idle]" "bottom ?q = 15" "top ?q = 0" "capacity ?q = 16" by code_simp+
  then show ?thesis using push_goes_on [OF r _ _ s(1), of 0] by (simp add: limit_def)
qed

text \<open>Before any thief runs, ninety percent of the capacity are all a queue takes: the push of one more
  item waits for ever. \<open>stat_workspace\<close> hands out the first directories in this state, and a single
  worker never leaves it.\<close>

theorem full_queue_without_thieves_blocks:
  assumes "int (length xs) = limit (new_queue DEFAULT_CAPACITY n :: 'a queue)"
    and "reached (\<lambda>q. True) owner_only (push x (push_all xs (new_queue DEFAULT_CAPACITY n :: 'a queue))) q"
  shows "owner q = Push_wait x"
proof -
  let ?n = "new_queue DEFAULT_CAPACITY n :: 'a queue" and ?q = "push_all xs (new_queue DEFAULT_CAPACITY n :: 'a queue)"
  have l: "limit ?n = 922" by (simp add: limit_def new_queue_def DEFAULT_CAPACITY_def)
  then have "owner ?q = Owner_idle \<and> top ?q = 0 \<and> bottom ?q = bottom ?n + int (length xs) \<and> capacity ?q = capacity ?n"
    using assms(1) by (intro push_all_fills) (simp_all add: new_queue_def)
  then have q: "owner ?q = Owner_idle" "top ?q = 0" "bottom ?q = 922" "limit ?q = 922"
    using assms(1) l by (simp_all add: new_queue_def limit_def DEFAULT_CAPACITY_def)
  have "owner q = Push_wait x \<and> bottom q - top q = 922 \<and> limit q = 922"
    using assms(2)
  proof induction
    case start
    show ?case using q by (simp add: push_def limit_def)
  next
    case (happens q m)
    then show ?case by (cases m) (simp_all add: push_def pop_def owner_step_def)
  qed
  then show ?thesis ..
qed

lemma full_queue_without_thieves_blocks_witness:
  "owner (push 0 (push_all (replicate 922 (1::int)) (new_queue DEFAULT_CAPACITY 3))) = Push_wait 0"
  by (rule full_queue_without_thieves_blocks [OF _ reached.start])
     (simp add: limit_def new_queue_def DEFAULT_CAPACITY_def)

text \<open>C40. With the batches of sixteen that \<open>ws_stat\<close> steals, one schedule returns an item twice, the second
  time moved out, and leaves \<open>top_\<close> beyond \<open>bottom_\<close>: from then on the owner's next push waits for ever,
  whatever happens.\<close>

theorem batch_steal_breaks:
  assumes "reached (\<lambda>q. True) (\<lambda>m. True) after_batch q"
  shows "reached (\<lambda>q. True) (\<lambda>m. True) (new_queue DEFAULT_CAPACITY 1) q \<and> None \<in> set (returned q) \<and> owner q = Push_wait 5"
proof -
  have a: "reached (\<lambda>q. True) (\<lambda>m. True) (new_queue DEFAULT_CAPACITY 1) after_batch"
    unfolding after_batch_def by (rule reached_run [OF reached.start]) code_simp
  have "owner after_batch = Push_wait 5" "bottom after_batch = 1" "top after_batch = 2" "capacity after_batch = DEFAULT_CAPACITY"
    "thieves after_batch = [Thief_idle]" "None \<in> set (returned after_batch)" by code_simp+
  then have o: "overtaken after_batch" by (simp add: overtaken_def)
  from assms have "reached (\<lambda>q. True) (\<lambda>m. True) (new_queue DEFAULT_CAPACITY 1) q \<and> overtaken q"
    by induction (use a o overtaken_stays in \<open>auto intro: reached.happens\<close>)
  then show ?thesis by (simp add: overtaken_def)
qed

lemma batch_steal_breaks_witness:
  "reached (\<lambda>q. True) (\<lambda>m. True) (new_queue DEFAULT_CAPACITY 1) after_batch \<and> None \<in> set (returned after_batch) \<and>
   owner after_batch = Push_wait 5"
  by (rule batch_steal_breaks [OF reached.start])

end
