(* ===== verification/Search.thy ===== *)
theory Search
  imports Local
begin

text \<open>
  The search for an active workspace by its name, as \<open>ws_release\<close> and \<open>ws_allocate\<close> do it: the id of the entry
  and the filesystems that have it.
\<close>

definition own_id :: "string \<Rightarrow> uid \<Rightarrow> string \<Rightarrow> string \<Rightarrow> string" where
  "own_id user_option u username name =
     (if length user_option > 0 \<and> u = 0 then user_option @ ''-'' @ name else username @ ''-'' @ name)"

text \<open>The active entries of that id in the filesystems, each with the database it is in.\<close>

definition search_entries :: "ryml \<Rightarrow> config \<Rightarrow> string list \<Rightarrow> string \<Rightarrow> (database_handle \<times> entry) list io" where
  "search_entries y c searchlist dbid =
     fold_io searchlist (\<lambda>fs entrylist.
       let_io (try_database (openDB c fs)) (\<lambda>opened.
         case opened of
           None \<Rightarrow> ret entrylist
         | Some db \<Rightarrow> let_io (try_database (readEntry y db dbid False)) (\<lambda>found.
             case found of None \<Rightarrow> ret entrylist | Some e \<Rightarrow> ret (entrylist @ [(db, e)])))) []"

text \<open>An entry a tool read before it changed anything, with the database it is in.\<close>

definition found_as :: "ryml \<Rightarrow> config \<Rightarrow> bool \<Rightarrow> string \<Rightarrow> world \<Rightarrow> database_handle \<times> entry \<Rightarrow> bool" where
  "found_as y c deleted dbid w x \<longleftrightarrow> (\<exists>v v'. untouched w v \<and> readEntry y (fst x) dbid deleted v = (Done (snd x), v') \<and> db_config (fst x) = c)"

lemma openDB_config: "openDB c fs w = (Done db, w') \<Longrightarrow> db_config db = c \<and> db_fs db = fs"
  by (auto simp: openDB_def Done_iffs throw_def split: if_splits)

lemma search_ends:
  "untouched w v \<Longrightarrow> ends (search_entries y c ss dbid) v (\<lambda>found v'. untouched w v' \<and> (\<forall>x \<in> set found. found_as y c False dbid w x)) (untouched w)"
  unfolding search_entries_def
proof (rule ends_fold)
  fix fs found v assume "fs \<in> set ss" and I: "untouched w v \<and> (\<forall>x \<in> set found. found_as y c False dbid w x)"
  show "ends (let_io (try_database (openDB c fs)) (\<lambda>opened. case opened of None \<Rightarrow> ret found
      | Some db \<Rightarrow> let_io (try_database (readEntry y db dbid False)) (\<lambda>r. case r of None \<Rightarrow> ret found | Some e \<Rightarrow> ret (found @ [(db, e)])))) v
      (\<lambda>found v'. untouched w v' \<and> (\<forall>x \<in> set found. found_as y c False dbid w x)) (untouched w)"
    unfolding ends_let
  proof (rule ends_untouched [where w = w])
    fix opened v1 assume o: "try_database (openDB c fs) v = (Done opened, v1)" and v1: "untouched w v1"
    show "ends (case opened of None \<Rightarrow> ret found
      | Some db \<Rightarrow> let_io (try_database (readEntry y db dbid False)) (\<lambda>r. case r of None \<Rightarrow> ret found | Some e \<Rightarrow> ret (found @ [(db, e)]))) v1
      (\<lambda>found v'. untouched w v' \<and> (\<forall>x \<in> set found. found_as y c False dbid w x)) (untouched w)"
    proof (cases opened)
      case None
      with I v1 show ?thesis by (simp add: ends_simple)
    next
      case (Some db)
      have db: "db_config db = c" using openDB_config [OF try_database_Some [OF o [unfolded Some]]] by simp
      show ?thesis unfolding Some option.case ends_let
      proof (rule ends_untouched [where w = w])
        fix r v2 assume r: "try_database (readEntry y db dbid False) v1 = (Done r, v2)" and "untouched w v2"
        moreover have "found_as y c False dbid w (db, e)" if "r = Some e" for e
          unfolding found_as_def using try_database_Some [OF r [unfolded that]] v1 db by auto
        ultimately show "ends (case r of None \<Rightarrow> ret found | Some e \<Rightarrow> ret (found @ [(db, e)])) v2
          (\<lambda>found v'. untouched w v' \<and> (\<forall>x \<in> set found. found_as y c False dbid w x)) (untouched w)"
          using I by (auto simp: ends_simple split: option.split)
      qed (use v1 in \<open>auto intro!: same.try_step settings.try_step same.database_readers settings.database_readers\<close>)
    qed
  qed (use I in \<open>auto intro!: same.try_step settings.try_step same.database_readers settings.database_readers\<close>)
qed simp

section \<open>Reading prints nothing\<close>

text \<open>Nothing is printed, and everything but the output and the credentials stays as it is.\<close>

definition silent :: "world \<Rightarrow> world \<Rightarrow> bool" where
  "silent w v \<longleftrightarrow> untouched w v \<and> stdout v = stdout w"

interpretation silent: quiet_relation silent
  by unfold_locales
    (auto simp: silent_def untouched_def same_setup_def credential_defs keeps_def sys_call_def time_now_def rand_def Let_def)

lemma silent_config: "keeps silent (valid_config yc p)"
  unfolding valid_config_def by (intro silent.readers)

text \<open>The user a search is for, when the caller is neither root nor an administrator.\<close>

lemma own_pattern:
  assumes "silent w v" and "getpwuid (accounts w) (ruid (cred w)) = Some pw" and "\<not> isRoot w" and "\<not> isAdmin c (pw_name pw)"
  shows "getUsername v = (Done (pw_name pw), v)" and "user_pattern c n v = (Done (pw_name pw), v)"
proof -
  show u: "getUsername v = (Done (pw_name pw), v)" using assms(1,2) by (simp add: getUsername_run silent_def untouched_def same_setup_def)
  have "\<not> isRoot v" using assms(1,3) by (simp add: isRoot_def silent_def untouched_def same_setup_def)
  then show "user_pattern c n v = (Done (pw_name pw), v)" using u assms(4) by (simp add: user_pattern_def let_io_def get_io_def ret_def)
qed

end
