(* ===== verification/Release.thy ===== *)
theory Release
  imports Site Search
begin

text \<open>
  \<open>src/src/ws_release.cpp\<close>: the tool by which users give a workspace back. The entry moves to the
  deleted area of the database, then the directory to the deleted area of its space, under the same name;
  or, with \<open>--delete-data\<close>, the data are deleted and the entry with them.
\<close>

record release_options =
  rel_name :: string
  rel_filesystem :: "string option"
  rel_username :: "string option"
  rel_delete :: bool
  rel_config :: path

section \<open>The command line\<close>

text \<open>
  \<open>commandline\<close>, for a call that names a workspace (without one the usage is shown): the user name is for root
  only, the name must be a valid one.
\<close>

definition release_commandline :: "release_options \<Rightarrow> string io" where
  "release_commandline opts =
     let_io getuid (\<lambda>u.
       let user = (case rel_username opts of None \<Rightarrow> [] | Some n \<Rightarrow> if u \<noteq> 0 then [] else n)
       in if \<not> isValidWorkspaceName (rel_name opts) then exit_with 1 else ret user)"

section \<open>Giving back\<close>

definition delete_data :: "config \<Rightarrow> entry \<Rightarrow> unit io" where
  "delete_data c e =
     (let src = e_workspace e; duid = dbuid (global (db_config (e_parent e)))
      in seqs_io [raise_cap [CAP_FOWNER], become_caller]
           (let_io (rmtree_below src) (\<lambda>n.
            seqs_io
              [lower_cap [CAP_FOWNER] duid, raise_cap [CAP_DAC_OVERRIDE], become_db,
               catch_io (let_io (fs_remove src) (\<lambda>b. ret ())) (\<lambda>x. ret ()),
               lower_cap [CAP_DAC_OVERRIDE] duid]
              (let_io getUsername (\<lambda>u. remove e)))))"

definition released_dir :: "Filesystem_config \<Rightarrow> entry \<Rightarrow> int \<Rightarrow> path" where
  "released_dir f e timestamp =
     path_append (path_append (parent_path (e_workspace e)) (fs_deletedPath f)) (stamped (e_id e) timestamp)"

definition move_data :: "entry \<Rightarrow> int \<Rightarrow> bool io" where
  "move_data e timestamp =
     let_io (fs_config_or_exit (db_config (e_parent e)) (e_filesystem e)) (\<lambda>f.
       let target = released_dir f e timestamp; duid = dbuid (global (db_config (e_parent e)));
           lower = lower_cap [CAP_DAC_OVERRIDE] duid
       in seq_io (raise_cap [CAP_DAC_OVERRIDE])
            (let_io
              (catch_io (seq_io (fs_rename (e_workspace e) target) (ret True))
                (\<lambda>x. case x of
                   Filesystem_error er \<Rightarrow>
                     if er = Trouble EXDEV then let_io (mv (e_workspace e) target) (\<lambda>r. seq_io lower (ret (r = 0)))
                     else seq_io lower (ret False)
                 | _ \<Rightarrow> throw x)) (\<lambda>moved.
             if \<not> moved then ret False
             else seq_io lower (let_io getUsername (\<lambda>u. ret True)))))"

definition give_back :: "ryml \<Rightarrow> config \<Rightarrow> bool \<Rightarrow> entry \<Rightarrow> bool io" where
  "give_back y c deletedata e =
     let_io time_now (\<lambda>timestamp_time.
     let_io (try_database (release y timestamp_time e)) (\<lambda>r.
       case r of
         None \<Rightarrow> ret False
       | Some (t, e') \<Rightarrow> if deletedata then seq_io (delete_data c e') (ret True) else move_data e' t))"

definition release_workspace :: "ryml \<Rightarrow> config \<Rightarrow> release_options \<Rightarrow> string \<Rightarrow> bool io" where
  "release_workspace y c opts user_option =
     let_io getUsername (\<lambda>username.
     let_io (get_io getGrouplist) (\<lambda>groups.
       let valid_filesystems = validFilesystems c username groups RELEASE
       in if valid_filesystems = [] then ret False
          else let_io (validateFs c (rel_filesystem opts) (if user_option = [] then username else user_option) RELEASE) (\<lambda>valid.
            if \<not> valid then ret False
            else let_io getuid (\<lambda>u.
              let searchlist = (case rel_filesystem opts of Some fs \<Rightarrow> [fs] | None \<Rightarrow> valid_filesystems)
              in let_io (search_entries y c searchlist (own_id user_option u username (rel_name opts))) (\<lambda>entrylist.
                   case entrylist of
                     [(db, e)] \<Rightarrow> give_back y c (rel_delete opts) e
                   | _ \<Rightarrow> ret False)))))"

definition ws_release :: "ryml \<Rightarrow> 'n yaml_cpp \<Rightarrow> release_options \<Rightarrow> unit io" where
  "ws_release y yc opts =
     let_io getuid (\<lambda>u.
     seq_io (drop_caps [CAP_DAC_OVERRIDE, CAP_CHOWN, CAP_FOWNER] u)
       (let_io (release_commandline opts) (\<lambda>user_option.
        let_io (read_site yc (rel_config opts)) (\<lambda>c.
        let_io getUsername (\<lambda>username.
        let_io (release_workspace y c opts user_option) (\<lambda>released.
          if released then ret () else exit_with (- 1)))))))"

section \<open>Where a release changes files\<close>

context tool_relation
begin

lemma commandline: "keeps R (release_commandline opts)"
  unfolding release_commandline_def Let_def by (intro tools)

end

definition release_area :: "entry \<Rightarrow> key \<Rightarrow> bool" where
  "release_area e k \<longleftrightarrow> under (e_dbfilepath e) k \<or> under (e_workspace e) k \<or>
     (\<exists>f t. getFsConfig (db_config (e_parent e)) (e_filesystem e) = Some f \<and> (under (release_target e f t) k \<or> under (released_dir f e t) k))"

lemma release_Done:
  "release y t e w = (Done (t', e'), w') \<Longrightarrow> \<exists>f. getFsConfig (db_config (e_parent e)) (e_filesystem e) = Some f \<and>
     e_dbfilepath e' = release_target e f t' \<and> e_workspace e' = e_workspace e \<and> e_id e' = e_id e \<and> e_parent e' = e_parent e \<and>
     e_filesystem e' = e_filesystem e"
  by (auto simp: release_def release_as_def Let_def let_io_Done seq_io_Done fs_config_Done ret_Done release_target_def)

lemma local_delete_data:
  assumes "\<And>k. under (e_dbfilepath e) k \<Longrightarrow> A k" and "\<And>k. under (e_workspace e) k \<Longrightarrow> A k"
  shows "keeps (local_only A) (delete_data c e)"
proof -
  have d: "A (comps (e_dbfilepath e))" "A (comps (e_workspace e))" using assms by (simp_all add: under_def)
  show ?thesis unfolding delete_data_def Let_def seqs_io.simps
    by (intro local.rules local.cap_calls local_rmtree local.changes local.remove_in local.file_readers d assms(2))
qed

lemma local_move_data:
  assumes "\<And>k. under (e_workspace e) k \<Longrightarrow> A k"
    and "\<And>f k. getFsConfig (db_config (e_parent e)) (e_filesystem e) = Some f \<Longrightarrow> under (released_dir f e t) k \<Longrightarrow> A k"
  shows "keeps (local_only A) (move_data e t)"
proof (cases "getFsConfig (db_config (e_parent e)) (e_filesystem e)")
  case None
  show ?thesis unfolding move_data_def fs_config_or_exit_def None option.case let_exit by (rule local.pure)
next
  case (Some f)
  show ?thesis
    unfolding move_data_def fs_config_or_exit_def Some option.case let_ret Let_def
    by (intro local.rules local.cap_calls local.file_readers local_rename_then assms(1) assms(2) [OF Some])
       (auto intro!: local.rules local.cap_calls split: exn.split)
qed

lemma local_give_back: "keeps (local_only (release_area e)) (give_back y c d e)"
  unfolding give_back_def
proof (rule local.let_step [OF local.any_time])
  fix t
  have r: "keeps (local_only (release_area e)) (try_database (release y t e))"
  proof (rule local.try_step, rule local.release_in)
    show "release_area e k" if "under (e_dbfilepath e) k" for k using that by (simp add: release_area_def)
    show "release_area e k" if "getFsConfig (db_config (e_parent e)) (e_filesystem e) = Some f" "under (release_target e f t) k" for f t k
      unfolding release_area_def by (intro disjI2, rule exI [of _ f], rule exI [of _ t])
        (simp add: that)
  qed
  show "keeps (local_only (release_area e)) (let_io (try_database (release y t e)) (\<lambda>r. case r of None \<Rightarrow> ret False
     | Some (t, e') \<Rightarrow> if d then seq_io (delete_data c e') (ret True) else move_data e' t))"
  proof (rule local.let_run_step [OF r])
    fix w r w' assume run: "try_database (release y t e) w = (Done r, w')"
    show "keeps (local_only (release_area e)) (case r of None \<Rightarrow> ret False
     | Some (t, e') \<Rightarrow> if d then seq_io (delete_data c e') (ret True) else move_data e' t)"
    proof (cases r)
      case (Some p)
      obtain t' e' where p: "p = (t', e')" by (cases p)
      have "release y t e w = (Done (t', e'), w')" by (rule try_database_Some [OF run [unfolded Some p]])
      then obtain f where f: "getFsConfig (db_config (e_parent e)) (e_filesystem e) = Some f" "e_dbfilepath e' = release_target e f t'"
        "e_workspace e' = e_workspace e" "e_id e' = e_id e" "e_parent e' = e_parent e" "e_filesystem e' = e_filesystem e"
        using release_Done by blast
      have "keeps (local_only (release_area e)) (delete_data c e')"
        by (rule local_delete_data) (use f in \<open>auto simp: release_area_def\<close>)
      moreover have "keeps (local_only (release_area e)) (move_data e' t')"
        by (rule local_move_data) (use f in \<open>auto simp: release_area_def released_dir_def\<close>)
      ultimately show ?thesis by (simp add: Some p local.rules)
    qed (simp add: local.pure)
  qed
qed

text \<open>Nothing changed, or only what belongs to the entry of that id.\<close>

definition released_own :: "ryml \<Rightarrow> string \<Rightarrow> world \<Rightarrow> world \<Rightarrow> bool" where
  "released_own y i w v \<longleftrightarrow> (\<forall>k. map_of (files v) k \<noteq> map_of (files w) k \<longrightarrow> (\<exists>c db e. found_as y c False i w (db, e) \<and> release_area e k))"

lemma released_own_start: "untouched w v \<Longrightarrow> released_own y i w v"
  by (simp add: released_own_def untouched_def)

lemma give_back_own:
  assumes "names_ok (files w)" and "one_device w" and "untouched w v" and "found_as y c' False i w (db, e)"
  shows "ends (give_back y c d e) v (\<lambda>a. released_own y i w) (released_own y i w)"
proof -
  have "kept_local (release_area e) w v"
    using assms(1-3) by (simp add: kept_local_def untouched_def only_def one_device_def same_setup_def)
  with ends_local [OF local_give_back] have "ends (give_back y c d e) v (\<lambda>a. kept_local (release_area e) w) (kept_local (release_area e) w)" by blast
  then show ?thesis by (rule ends_mono) (use assms(4) in \<open>auto simp: kept_local_def only_def released_own_def\<close>)
qed

lemma release_workspace_own:
  assumes w: "names_ok (files w)" "one_device w" and u: "ruid (cred w) \<noteq> 0" and pw: "getpwuid (accounts w) (ruid (cred w)) = Some pw"
    and v: "untouched w v"
  shows "ends (release_workspace y c opts u) v (\<lambda>a. released_own y (pw_name pw @ ''-'' @ rel_name opts) w)
    (released_own y (pw_name pw @ ''-'' @ rel_name opts) w)"
proof -
  let ?id = "pw_name pw @ ''-'' @ rel_name opts"
  let ?C = "released_own y ?id w"
  note start = released_own_start
  have search: "ends (let_io (search_entries y c ss ?id) (\<lambda>entrylist. case entrylist of [(db, e)] \<Rightarrow> give_back y c (rel_delete opts) e | _ \<Rightarrow> ret False)) v' (\<lambda>a. ?C) ?C"
    if "untouched w v'" for v' ss
    unfolding ends_let
  proof (rule ends_mono [OF search_ends [OF that]])
    fix found v2 assume "untouched w v2 \<and> (\<forall>x \<in> set found. found_as y c False ?id w x)"
    then show "ends (case found of [(db, e)] \<Rightarrow> give_back y c (rel_delete opts) e | _ \<Rightarrow> ret False) v2 (\<lambda>a. ?C) ?C"
      using give_back_own [OF w] start by (auto simp: ends_simple split: list.split prod.split)
  qed (rule start)
  have valid: "ends (validateFs c f u' i) v (\<lambda>b v'. untouched w v') (untouched w)" for f u' i
    by (rule ends_untouched [OF same.tool_readers(2) settings.tool_readers(2) v])
  show ?thesis
    unfolding release_workspace_def Let_def ends_let ends_identity(2) [OF v pw] ends_simple ends_if
  proof (rule if_both)
    show "?C v" by (rule start [OF v])
  qed (rule ends_mono [OF valid], use u start search in \<open>auto simp: ends_simple ends_if ends_let ends_identity(1) own_id_def\<close>)
qed

section \<open>Properties\<close>


definition release_example :: release_options where
  "release_example = \<lparr>rel_name = ''a'', rel_filesystem = None, rel_username = Some ''bob'', rel_delete = False, rel_config = []\<rparr>"


end
