(* ===== verification/Restore.thy ===== *)
theory Restore
  imports Site Search "HOL-Library.Signed_Division"
begin

text \<open>
  \<open>src/src/ws_restore.cpp\<close>: the tool that lists the workspaces in the deleted areas, moves one of them into
  an existing workspace, or deletes it for good. What \<open>/proc/self/exe\<close> points to and \<open>utils::ctime\<close>, a
  call of the C library, are arguments.
\<close>

record restore_options =
  res_name :: "string option"
  res_target :: "string option"
  res_filesystem :: string
  res_list :: bool
  res_brief :: bool
  res_username :: string
  res_delete :: bool
  res_config :: path

section \<open>The command line\<close>

definition restore_commandline :: "restore_options \<Rightarrow> unit io" where
  "restore_commandline opts =
     (case res_name opts of
        Some name \<Rightarrow>
          if res_target opts = None \<and> \<not> res_delete opts \<and> \<not> res_list opts then exit_with 1
          else if res_list opts then ret ()
          else if \<not> isValidWorkspaceName name then exit_with 1
          else (case res_target opts of
                  Some target \<Rightarrow> if \<not> isValidWorkspaceName target then exit_with 1 else ret ()
                | None \<Rightarrow> ret ())
      | None \<Rightarrow> if \<not> res_list opts then exit_with 1 else ret ())"

definition check_name :: "string \<Rightarrow> string \<Rightarrow> bool" where
  "check_name name real_username = (\<not> (real_username \<noteq> ''root'' \<and> \<not> prefix (real_username @ ''-'') name))"

section \<open>Searching\<close>

definition name_without_owner :: "string \<Rightarrow> string \<Rightarrow> string" where
  "name_without_owner name username =
     (if take (length username) name = username \<and> length name > length username \<and> name ! length username = CHR ''-''
      then drop (length username + 1) name else name)"

definition search_caps :: "cap_value_t list" where
  "search_caps = [CAP_DAC_OVERRIDE, CAP_DAC_READ_SEARCH]"

definition restore_hits :: "ryml \<Rightarrow> config \<Rightarrow> string list \<Rightarrow> string \<Rightarrow> string \<Rightarrow> string list \<Rightarrow> (string \<times> string) list io" where
  "restore_hits y c fslist id_noowner username grouplist =
     seq_io (raise_cap search_caps)
       (let_io (fold_io fslist (\<lambda>fs hits.
          let_io (try_database (openDB c fs)) (\<lambda>opened.
            case opened of
              None \<Rightarrow> ret hits
            | Some db \<Rightarrow> let_io (matchPattern y db id_noowner username grouplist True False) (\<lambda>ids.
                ret (hits @ map (Pair fs) ids)))) []) (\<lambda>hits.
        seq_io (lower_cap search_caps (dbuid (global c))) (ret hits)))"

text \<open>The first of the filesystems that has the target as an active workspace.\<close>

primrec find_target :: "ryml \<Rightarrow> config \<Rightarrow> string \<Rightarrow> string list \<Rightarrow> (database_handle \<times> entry) option io" where
  "find_target y c dbid [] = ret None"
| "find_target y c dbid (fs # fss) =
     let_io (try_database (openDB c fs)) (\<lambda>opened.
       case opened of
         None \<Rightarrow> find_target y c dbid fss
       | Some db \<Rightarrow> let_io (try_database (readEntry y db dbid False)) (\<lambda>found.
           case found of None \<Rightarrow> find_target y c dbid fss | Some e \<Rightarrow> ret (Some (db, e))))"

definition wssourcename :: "Filesystem_config \<Rightarrow> entry \<Rightarrow> string \<Rightarrow> path" where
  "wssourcename f e name = parent_path (e_workspace e) @ ''/'' @ fs_deletedPath f @ ''/'' @ name"

section \<open>Deleting for good\<close>

definition data_gone :: "path \<Rightarrow> bool io" where
  "data_gone source =
     let_io (catch_io (let_io (fs_remove source) (\<lambda>b. ret True)) (\<lambda>x. ret False)) (\<lambda>no_error.
       if \<not> no_error then ret False else let_io (fs_exists source) (\<lambda>there. ret (\<not> there)))"

definition delete_for_good :: "database_handle \<Rightarrow> entry \<Rightarrow> string \<Rightarrow> path \<Rightarrow> unit io" where
  "delete_for_good db e name source =
     (let duid = dbuid (global (db_config (e_parent e)))
      in seq_io (raise_cap [CAP_FOWNER, CAP_DAC_OVERRIDE, CAP_DAC_READ_SEARCH])
           (let_io (rmtree_below source) (\<lambda>n.
            seqs_io [lower_cap [CAP_FOWNER] duid, raise_cap [CAP_DAC_OVERRIDE]]
              (let_io (data_gone source) (\<lambda>gone.
               seq_io become_db
                 (if \<not> gone then exit_with 1
                  else seq_io
                    (catch_io (deleteEntry db name True) (\<lambda>x. case x of DatabaseException \<Rightarrow> exit_with 1 | _ \<Rightarrow> throw x))
                    (lower_cap [CAP_DAC_OVERRIDE] duid)))))))"

section \<open>Restoring\<close>

text \<open>\<open>db\<close> is the database in which the target was found, not the one of the source.\<close>

definition drop_entry :: "database_handle \<Rightarrow> string \<Rightarrow> unit io" where
  "drop_entry db name = catch_io (deleteEntry db name True) (\<lambda>x. case x of DatabaseException \<Rightarrow> ret () | _ \<Rightarrow> throw x)"

text \<open>With \<open>restorenosub\<close> the workspace takes the place of the target, else it becomes a directory in it.\<close>

definition restore_in_place :: "ryml \<Rightarrow> database_handle \<Rightarrow> entry \<Rightarrow> entry \<Rightarrow> string \<Rightarrow> path \<Rightarrow> unit io" where
  "restore_in_place y db source_entry target_entry name source =
     let_io (sys_rename source (e_workspace target_entry)) (\<lambda>r.
       seq_io become_db
         (if ok r
          then seq_io (when_io (e_group source_entry \<noteq> []) (writeEntry y False (setGroup (e_group source_entry) target_entry)))
                 (drop_entry db name)
          else ret ()))"

definition restore_target_path :: "entry \<Rightarrow> path \<Rightarrow> path" where
  "restore_target_path target_entry source = e_workspace target_entry @ ''/'' @ filename source"

definition restore_below :: "database_handle \<Rightarrow> entry \<Rightarrow> string \<Rightarrow> path \<Rightarrow> unit io" where
  "restore_below db target_entry name source =
     (let target = restore_target_path target_entry source
      in let_io (sys_rename source target) (\<lambda>r.
         let_io (if r = Some (Trouble EXDEV) then let_io (mv source target) (\<lambda>n. ret (n = 0)) else ret (ok r)) (\<lambda>moved.
           seq_io become_db (if moved then drop_entry db name else ret ()))))"

definition move_back :: "ryml \<Rightarrow> config \<Rightarrow> database_handle \<Rightarrow> entry \<Rightarrow> entry \<Rightarrow> string \<Rightarrow> path \<Rightarrow> unit io" where
  "move_back y c db source_entry target_entry name source =
     seqs_io
       [raise_cap search_caps,
        if restorenosub (global c) then restore_in_place y db source_entry target_entry name source
        else restore_below db target_entry name source]
       (lower_cap search_caps (dbuid (global c)))"

text \<open>\<open>restore\<close>, after the one hit was found.\<close>

definition restore_found :: "ryml \<Rightarrow> config \<Rightarrow> string list \<Rightarrow> string \<Rightarrow> string \<Rightarrow> string \<Rightarrow> bool \<Rightarrow> string \<Rightarrow> unit io" where
  "restore_found y c fslist name target username deletedata source_filesystem =
     let_io (fs_config_or_exit c source_filesystem) (\<lambda>f.
       if \<not> fs_restorable f then ret ()
       else let_io (try_database (openDB c source_filesystem)) (\<lambda>opened.
         case opened of
           None \<Rightarrow> ret ()
         | Some source_db \<Rightarrow> let_io (try_database (readEntry y source_db name True)) (\<lambda>found.
             case found of
               None \<Rightarrow> ret ()
             | Some source_entry \<Rightarrow>
                 if deletedata then delete_for_good source_db source_entry name (wssourcename f source_entry name)
                 else let_io (find_target y c (username @ ''-'' @ target) fslist) (\<lambda>t.
                   case t of
                     None \<Rightarrow> ret ()
                   | Some (db, target_entry) \<Rightarrow>
                       if e_workspace target_entry = [] then ret ()
                       else move_back y c db source_entry target_entry name (wssourcename f source_entry name)))))"

definition restore :: "ryml \<Rightarrow> string \<Rightarrow> string \<Rightarrow> string \<Rightarrow> config \<Rightarrow> string \<Rightarrow> bool \<Rightarrow> unit io" where
  "restore y name target username c filesystem deletedata =
     let_io (get_io getGrouplist) (\<lambda>grouplist.
       let validfs = validFilesystems c username grouplist RESTORE
       in if filesystem \<noteq> [] \<and> filesystem \<notin> set validfs then ret ()
          else let fslist = (if filesystem \<noteq> [] then [filesystem] else validfs)
               in let_io (restore_hits y c fslist (name_without_owner name username) username grouplist) (\<lambda>hits.
                    case hits of
                      [(source_filesystem, i)] \<Rightarrow> restore_found y c fslist name target username deletedata source_filesystem
                    | _ \<Rightarrow> exit_with 1))"

section \<open>Listing\<close>

definition list_one :: "ryml \<Rightarrow> (int \<Rightarrow> string) \<Rightarrow> database_handle \<Rightarrow> bool \<Rightarrow> string \<Rightarrow> unit io" where
  "list_one y ctime db terse i =
     seq_io (print i)
       (if terse then ret ()
        else let pos = (case rfind_char (CHR ''-'') i of None \<Rightarrow> 0 | Some p \<Rightarrow> p + 1);
                 filenametime = atol (drop pos i)
             in let_io (readEntry y db i True) (\<lambda>e.
                let_io (fs_config_or_exit (db_config (e_parent e)) (e_filesystem e)) (\<lambda>f.
                  let removetime = filenametime + fs_keeptime f * 24 * 3600
                  in let_io time_now (\<lambda>now.
                       let remaining = removetime - now
                       in seqs_io
                            [print (CHR 0x09 # ''unavailable since : '' @ ctime filenametime),
                             print (CHR 0x09 # ''restorable until  : '' @ ctime removetime @ '' ('' @ show_int (remaining sdiv (24 * 3600)) @
                               '' days, '' @ show_int ((remaining smod (24 * 3600)) sdiv 3600) @ '' hours)''),
                             print (CHR 0x09 # ''in filesystem     : '' @ e_filesystem e)]
                            (ret ())))))"

definition list_restorable :: "ryml \<Rightarrow> (int \<Rightarrow> string) \<Rightarrow> config \<Rightarrow> restore_options \<Rightarrow> string \<Rightarrow> unit io" where
  "list_restorable y ctime c opts userpattern =
     let_io (get_io getGrouplist) (\<lambda>grouplist.
     let_io getUsername (\<lambda>caller.
       let validfs = validFilesystems c caller grouplist RESTORE;
           fslist = (if res_filesystem opts \<noteq> []
                     then if res_filesystem opts \<in> set validfs then [res_filesystem opts] else [] else validfs);
           pattern = (case res_name opts of None \<Rightarrow> ''*'' | Some n \<Rightarrow> if n = [] then ''*'' else n)
       in seqs_io
            [raise_cap search_caps,
             for_io fslist (\<lambda>fs.
               let_io (try_database (openDB c fs)) (\<lambda>opened.
                 case opened of
                   None \<Rightarrow> ret ()
                 | Some db \<Rightarrow>
                     catch_io
                       (let_io (matchPattern y db pattern userpattern grouplist True False) (\<lambda>ids.
                          for_io ids (list_one y ctime db (res_brief opts))))
                       (\<lambda>x. case x of DatabaseException \<Rightarrow> ret () | _ \<Rightarrow> throw x)))]
            (lower_cap search_caps (dbuid (global c)))))"

section \<open>The tool\<close>

text \<open>\<open>-u\<close> when restoring is for a user called root.\<close>

definition chosen_user :: "string \<Rightarrow> string \<Rightarrow> string io" where
  "chosen_user username real_username =
     (if username = [] then ret real_username
      else if real_username \<noteq> username \<and> real_username \<noteq> ''root'' then exit_with (- 1)
      else ret username)"

definition human_test_needed :: "path option \<Rightarrow> bool" where
  "human_test_needed exepath = (case exepath of None \<Rightarrow> True | Some p \<Rightarrow> filename p = ''ws_restore'')"

definition restore_one :: "ryml \<Rightarrow> path option \<Rightarrow> config \<Rightarrow> restore_options \<Rightarrow> unit io" where
  "restore_one y exepath c opts =
     let_io getUsername (\<lambda>real_username.
     let_io (chosen_user (res_username opts) real_username) (\<lambda>username.
       let name = (case res_name opts of None \<Rightarrow> [] | Some n \<Rightarrow> n);
           target = (case res_target opts of None \<Rightarrow> [] | Some t \<Rightarrow> t)
       in if \<not> check_name name real_username then ret ()
          else let_io (if human_test_needed exepath then new_ruh else ret True) (\<lambda>human.
            if human then restore y name target username c (res_filesystem opts) (res_delete opts) else ret ())))"

definition ws_restore :: "ryml \<Rightarrow> 'n yaml_cpp \<Rightarrow> (int \<Rightarrow> string) \<Rightarrow> path option \<Rightarrow> restore_options \<Rightarrow> unit io" where
  "ws_restore y yc ctime exepath opts =
     let_io getuid (\<lambda>u.
     seqs_io [drop_caps [CAP_DAC_OVERRIDE, CAP_DAC_READ_SEARCH, CAP_FOWNER] u, restore_commandline opts]
       (let_io (read_site yc (res_config opts)) (\<lambda>c.
        let_io getUsername (\<lambda>caller.
        let_io own_user_conf (\<lambda>user_conf.
        let_io (user_pattern c (res_username opts)) (\<lambda>userpattern.
          if res_list opts then list_restorable y ctime c opts userpattern else restore_one y exepath c opts))))))"

section \<open>Which steps change files\<close>

context tool_relation
begin

lemma listing_steps: "keeps R (list_restorable y ctime c opts p)"
proof -
  have "keeps R (list_one y ctime db t i)" for db t i
    unfolding list_one_def Let_def seqs_io.simps by (intro tools)
  then show ?thesis unfolding list_restorable_def Let_def seqs_io.simps
    by (intro tools; auto intro!: tools split: exn.split)
qed

lemma find_target: "keeps R (find_target y c i fss)"
  by (induction fss) (auto intro!: tools)

lemma restore_readers:
  "keeps R (restore_commandline opts)" "keeps R (restore_hits y c fss i u gs)" "keeps R (chosen_user u u')"
  unfolding restore_commandline_def restore_hits_def chosen_user_def
  by (intro tools)+

end

text \<open>The entry goes last: after a step of the deletion the changes are in the directory, or that is gone.\<close>

definition gone_first :: "key \<Rightarrow> path \<Rightarrow> world \<Rightarrow> world \<Rightarrow> bool" where
  "gone_first entry source w v \<longleftrightarrow> (\<forall>k. map_of (files v) k \<noteq> map_of (files w) k \<longrightarrow>
     under source k \<or> k = entry \<and> map_of (files v) (comps source) = None)"

lemma gone_first_only: "only (under source) w v \<Longrightarrow> gone_first entry source w v"
  by (auto simp: gone_first_def only_def)

lemma data_gone_ends:
  assumes "only (under p) w v"
  shows "ends (data_gone p) v (\<lambda>gone v'. only (under p) w v' \<and> (gone \<longrightarrow> map_of (files v') (comps p) = None)) (only (under p) w)"
proof -
  obtain r v' where run: "data_gone p v = (r, v')" by force
  have "keeps (only (under p)) (data_gone p)"
    unfolding data_gone_def by (intro frame.tools only_fs frame.queries) (simp add: under_def)
  then have o: "only (under p) w v'" using run assms by (metis keepsD frame.trans)
  have "map_of (files v') (comps p) = None" if r: "r = Done True"
  proof -
    have absent: "map_of (files v1) (comps p) = None" if "fs_remove p v = (Done b, v1)" for b v1
      using that by (auto simp: fs_remove_def change_files_run let_io_Done sys_call_def remove_rule_def rmdir_rule_def
          unlink_rule_def map_of_del ret_Done split: option.splits sum.splits if_splits)
    from run r obtain n v1 where c: "catch_io (let_io (fs_remove p) (\<lambda>b. ret True)) (\<lambda>x. ret False) v = (Done n, v1)" and n: "n"
      and e: "let_io (fs_exists p) (\<lambda>there. ret (\<not> there)) v1 = (Done True, v')"
      by (auto simp: data_gone_def let_io_Done ret_Done split: if_splits)
    have "map_of (files v1) (comps p) = None"
      using c n absent by (auto simp: catch_io_def let_io_def ret_def split: prod.splits outcome.splits)
    moreover have "files v' = files v1"
      using e same_filesD [OF same.queries(3)] by (auto simp: let_io_Done ret_Done)
    ultimately show ?thesis by simp
  qed
  with run o show ?thesis by (auto simp: ends_def split: outcome.split)
qed

lemma delete_for_good_ends:
  assumes "names_ok (files w)"
  shows "ends (delete_for_good db e name source) w (\<lambda>a. gone_first (comps (entry_path (db_config db) (db_fs db) name True)) source w)
    (gone_first (comps (entry_path (db_config db) (db_fs db) name True)) source w)"
proof -
  let ?k = "comps (entry_path (db_config db) (db_fs db) name True)"
  let ?J = "only (under source) w"
  have J: "gone_first ?k source w v" if "?J v" for v using that by (rule gone_first_only)
  have tree: "ends (rmtree_below source) v Q F" if "names_ok (files v)" "?J v" "\<And>a v'. ?J v' \<Longrightarrow> Q a v'" "\<And>v'. ?J v' \<Longrightarrow> F v'" for v Q F
  proof -
    have "removes (under source) v (snd (rmtree_below source v))"
      using open_and_delete_frame [of source 0 False] that(1) by (simp add: keeps_def rmtree_below_def)
    then have "only (under source) v (snd (rmtree_below source v))"
      by (auto simp: removes_def only_def map_of_filter_key [where P = "\<lambda>k. \<not> D k" for D])
    with that(2) have "?J (snd (rmtree_below source v))" by (rule frame.trans)
    with that(3,4) show ?thesis
      by (cases "rmtree_below source v") (simp add: ends_def split: outcome.split)
  qed
  have last: "gone_first ?k source w v'" if "?J v" "map_of (files v) (comps source) = None" "only (\<lambda>k. k = ?k) v v'" for v v'
    unfolding gone_first_def
  proof (intro allI impI)
    fix k assume "map_of (files v') k \<noteq> map_of (files w) k"
    moreover have "k = ?k \<or> map_of (files v') k = map_of (files v) k" using that(3) unfolding only_def by blast
    moreover have "under source k \<or> map_of (files v) k = map_of (files w) k" using that(1) unfolding only_def by blast
    moreover have "comps source = ?k \<or> map_of (files v') (comps source) = None" using that(2,3) unfolding only_def by metis
    ultimately show "under source k \<or> k = ?k \<and> map_of (files v') (comps source) = None" by (auto simp: under_def)
  qed
  have entry: "ends (seq_io (catch_io (deleteEntry db name True) (\<lambda>x. case x of DatabaseException \<Rightarrow> exit_with 1 | _ \<Rightarrow> throw x))
      (lower_cap [CAP_DAC_OVERRIDE] u)) v (\<lambda>a. gone_first ?k source w) (gone_first ?k source w)"
    if "?J v" "map_of (files v) (comps source) = None" for v u
  proof -
    have "keeps (only (\<lambda>k. k = ?k)) (seq_io (catch_io (deleteEntry db name True) (\<lambda>x. case x of DatabaseException \<Rightarrow> exit_with 1 | _ \<Rightarrow> throw x))
      (lower_cap [CAP_DAC_OVERRIDE] u))"
      unfolding deleteEntry_def
      by (intro frame.tools only_fs; auto intro!: frame.tools only_fs split: exn.split)
    then show ?thesis by (rule ends_keeps) (use last [OF that] in blast)+
  qed
  show ?thesis
    unfolding delete_for_good_def Let_def seqs_io.simps ends_let ends_seq
  proof (rule ends_quiet [OF same.cap_calls(1)], rule tree, goal_cases)
    case (3 a v n v1)
    show ?case
    proof (rule ends_only [OF frame.cap_calls(2) 3(3)], rule ends_only [OF frame.cap_calls(1)], assumption, goal_cases)
      case (1 a v2 b v3)
      show ?case
      proof (rule ends_mono [OF data_gone_ends [OF 1(2)]], goal_cases)
        case (1 gone v4)
        have same: "?J v5 \<and> (gone \<longrightarrow> map_of (files v5) (comps source) = None)" if "files v5 = files v4" for v5 :: world
          using 1 that by (simp add: only_def)
        show ?case
        proof (rule ends_quiet [OF same.cap_calls(5)], goal_cases)
          case (1 a v5)
          then show ?case using same [OF 1(1)] by (simp add: ends_if ends_simple entry J)
        qed (use same J in blast)
      qed (use J in blast)
    qed (use J in blast)+
  qed (use assms in \<open>auto simp: only_def intro!: J\<close>)
qed

lemma ends_sys_rename:
  assumes "\<And>w'. rename_rule (comps a) (comps b) (files w) = Inr (files w') \<Longrightarrow> Q None w'"
    and "\<And>e w'. files w' = files w \<Longrightarrow> Q (Some e) w'"
  shows "ends (sys_rename a b) w Q F"
proof -
  obtain r w' where run: "sys_rename a b w = (r, w')" by force
  then show ?thesis by (cases rule: sys_rename_cases) (use run assms in \<open>auto simp: ends_def\<close>)
qed

text \<open>
  What was below \<open>a\<close> is now below \<open>b\<close>, and every other file is there as before, but for those in \<open>K\<close>;
  or no file is gone or changed at all.
\<close>

definition moved_to :: "key set \<Rightarrow> key \<Rightarrow> key \<Rightarrow> world \<Rightarrow> world \<Rightarrow> bool" where
  "moved_to K a b w v \<longleftrightarrow> (\<forall>q. map_of (files v) (b @ q) = map_of (files w) (a @ q)) \<and>
     (\<forall>k. k \<notin> K \<and> \<not> prefix a k \<and> \<not> prefix b k \<longrightarrow> map_of (files v) k = map_of (files w) k)"

definition keeps_all :: "world \<Rightarrow> world \<Rightarrow> bool" where
  "keeps_all w v \<longleftrightarrow> map_of (files w) \<subseteq>\<^sub>m map_of (files v)"

lemma rename_moves: "rename_rule a b (files w) = Inr (files v) \<Longrightarrow> moved_to K a b w v"
  using rename_rule_map(1) [of a b "files w" "files v"] rename_rule_same [of a "files w" "files v"]
    rename_rule_only [of a b "files w" "files v"]
  by (cases "a = b") (auto simp: moved_to_def)

lemma ends_mv:
  "ends (mv a b) w (\<lambda>n v. if n = 0 then moved_to K (comps a) (mv_target a b (files w)) w v else keeps_all w v) F"
proof -
  have "map_of (files w) \<subseteq>\<^sub>m map_of (add_residue d r (files w))" for d r
    by (auto simp: map_le_def add_residue_def map_add_def split: option.splits)
  then show ?thesis
    by (auto simp: ends_def mv_def Let_def let_io_def get_io_def sys_call_def keeps_all_def
        split: sum.split option.split intro!: rename_moves)
qed

lemma moved_elsewhere:
  "moved_to K a b w v \<Longrightarrow> only (\<lambda>k. k \<in> K) v v' \<Longrightarrow> (\<And>k. k \<in> K \<Longrightarrow> \<not> prefix b k) \<Longrightarrow> moved_to K a b w v'"
  unfolding moved_to_def only_def by (metis prefixI)

lemma keeps_all_same: "keeps_all w v \<Longrightarrow> files v' = files v \<Longrightarrow> keeps_all w v'"
  by (simp add: keeps_all_def)

text \<open>The places where the data of \<open>source\<close> may be after a restore.\<close>

definition landing :: "config \<Rightarrow> entry \<Rightarrow> path \<Rightarrow> files \<Rightarrow> key set" where
  "landing c t source fs =
     (if restorenosub (global c) then {comps (e_workspace t)}
      else {comps (restore_target_path t source), mv_target source (restore_target_path t source) fs})"

definition entry_keys :: "database_handle \<Rightarrow> string \<Rightarrow> entry \<Rightarrow> key set" where
  "entry_keys db name t = {comps (entry_path (db_config db) (db_fs db) name True), comps (e_dbfilepath t)}"

definition safe :: "key set \<Rightarrow> key \<Rightarrow> key set \<Rightarrow> world \<Rightarrow> world \<Rightarrow> bool" where
  "safe K a D w v \<longleftrightarrow> keeps_all w v \<or> (\<exists>d \<in> D. moved_to K a d w v)"

lemma safe_same: "files v = files w \<Longrightarrow> safe K a D w v"
  by (simp add: safe_def keeps_all_def)

lemma safe_step: "safe K a D w v \<Longrightarrow> files v' = files v \<Longrightarrow> safe K a D w v'"
  by (auto simp: safe_def keeps_all_def moved_to_def)

lemma ends_after_move:
  assumes "moved_to K a d w v" and "d \<in> D" and "keeps (only (\<lambda>k. k \<in> K)) m" and "\<And>k. k \<in> K \<Longrightarrow> \<not> prefix d k"
  shows "ends m v (\<lambda>x. safe K a D w) (safe K a D w)"
  by (rule ends_keeps [OF assms(3)]) (use moved_elsewhere [OF assms(1)] assms(2,4) in \<open>auto simp: safe_def\<close>)

lemma drop_entry_only: "comps (entry_path (db_config db) (db_fs db) name True) \<in> K \<Longrightarrow> keeps (only (\<lambda>k. k \<in> K)) (drop_entry db name)"
  unfolding drop_entry_def by (intro frame.tools frame.deleteEntry_in; auto intro!: frame.tools split: exn.split)

lemma restore_in_place_ends:
  assumes "restorenosub (global c)" and "files v = files w"
    and "\<And>d k. d \<in> landing c t source (files w) \<Longrightarrow> k \<in> entry_keys db name t \<Longrightarrow> \<not> prefix d k"
  shows "ends (restore_in_place y db e t name source) v (\<lambda>x. safe (entry_keys db name t) (comps source) (landing c t source (files w)) w)
    (safe (entry_keys db name t) (comps source) (landing c t source (files w)) w)"
proof -
  let ?K = "entry_keys db name t"
  let ?d = "comps (e_workspace t)"
  have d: "?d \<in> landing c t source (files w)" using assms(1) by (simp add: landing_def)
  have k: "\<not> prefix ?d k" if "k \<in> ?K" for k using assms(3) [OF d that] .
  have g: "e_dbfilepath (setGroup g t) = e_dbfilepath t" for g by (simp add: setGroup_def)
  have rest: "keeps (only (\<lambda>k. k \<in> ?K)) (seq_io become_db
     (if ok None then seq_io (when_io (e_group e \<noteq> []) (writeEntry y False (setGroup (e_group e) t))) (drop_entry db name) else ret ()))"
    by (intro frame.tools frame.writeEntry_in drop_entry_only) (simp_all add: g entry_keys_def)
  show ?thesis
    unfolding restore_in_place_def ends_let
  proof (rule ends_sys_rename, goal_cases)
    case (1 v')
    then have "moved_to ?K (comps source) ?d w v'" using assms(2) rename_moves by (metis moved_to_def)
    from ends_after_move [OF this d rest k] show ?case by blast
  next
    case (2 er v')
    then show ?case unfolding ends_seq
      by (intro ends_quiet [OF same.cap_calls(5)]) (use assms(2) in \<open>auto simp: ends_simple ok_iff intro!: safe_same\<close>)
  qed
qed

lemma restore_below_ends:
  assumes "\<not> restorenosub (global c)" and "files v = files w"
    and "\<And>d k. d \<in> landing c t source (files w) \<Longrightarrow> k \<in> entry_keys db name t \<Longrightarrow> \<not> prefix d k"
  shows "ends (restore_below db t name source) v (\<lambda>x. safe (entry_keys db name t) (comps source) (landing c t source (files w)) w)
    (safe (entry_keys db name t) (comps source) (landing c t source (files w)) w)"
proof -
  let ?b = "restore_target_path t source" and ?D = "landing c t source (files w)" and ?K = "entry_keys db name t"
  have D: "?D = {comps ?b, mv_target source ?b (files w)}" using assms(1) by (simp add: landing_def)
  have drop: "ends (seq_io become_db (drop_entry db name)) v' (\<lambda>x. safe ?K (comps source) ?D w) (safe ?K (comps source) ?D w)"
    if "moved_to ?K (comps source) d w v'" "d \<in> ?D" for d v'
    by (rule ends_after_move [OF that _ assms(3) [OF that(2)]])
       (intro frame.rules frame.cap_calls drop_entry_only, simp_all add: entry_keys_def)
  have kept: "ends (seq_io become_db (ret ())) v' (\<lambda>x. safe ?K (comps source) ?D w) (safe ?K (comps source) ?D w)"
    if "keeps_all w v'" for v'
    unfolding ends_seq
    by (rule ends_quiet [OF same.cap_calls(5)]) (use that in \<open>auto simp: ends_simple safe_def keeps_all_def\<close>)
  have mv: "ends (mv source ?b) v' (\<lambda>n v''. ends (seq_io become_db (if n = 0 then drop_entry db name else ret ())) v''
      (\<lambda>x. safe ?K (comps source) ?D w) (safe ?K (comps source) ?D w)) (safe ?K (comps source) ?D w)"
    if "files v' = files w" for v'
    by (rule ends_mono [OF ends_mv [where F = "\<lambda>v. False" and K = ?K]])
       (use that drop [of "mv_target source ?b (files w)"] kept D in \<open>auto simp: moved_to_def keeps_all_def\<close>)
  show ?thesis
    unfolding restore_below_def Let_def ends_let
  proof (rule ends_sys_rename, goal_cases)
    case (1 v')
    then have "moved_to ?K (comps source) (comps ?b) w v'" using assms(2) rename_moves by (metis moved_to_def)
    from drop [OF this] show ?case by (simp add: D ends_simple ok_iff)
  next
    case (2 er v')
    then show ?case using mv kept assms(2) by (simp add: ends_if ends_let ends_simple ok_iff keeps_all_def)
  qed
qed

lemma move_back_ends:
  assumes "\<And>d k. d \<in> landing c t source (files w) \<Longrightarrow> k \<in> entry_keys db name t \<Longrightarrow> \<not> prefix d k"
  shows "safe (entry_keys db name t) (comps source) (landing c t source (files w)) w (snd (move_back y c db e t name source w))"
proof -
  let ?S = "safe (entry_keys db name t) (comps source) (landing c t source (files w)) w"
  have lower: "ends (lower_cap cs u) v (\<lambda>x. ?S) ?S" if "?S v" for v cs u
    by (rule ends_quiet [OF same.cap_calls(2)]) (use safe_step [OF that] in auto)
  have "ends (move_back y c db e t name source) w (\<lambda>x. ?S) ?S"
    unfolding move_back_def seqs_io.simps ends_seq
  proof (rule ends_quiet [OF same.cap_calls(1)], goal_cases)
    case (1 a v)
    show ?case
    proof (cases "restorenosub (global c)")
      case True
      then show ?thesis
        using ends_mono [OF restore_in_place_ends [OF True 1(1) assms]] lower by simp
    next
      case False
      then show ?thesis
        using ends_mono [OF restore_below_ends [OF False 1(1) assms]] lower by simp
    qed
  qed (rule safe_same)
  then show ?thesis by (auto simp: ends_def split: prod.splits outcome.splits)
qed

definition erased_first :: "ryml \<Rightarrow> string \<Rightarrow> world \<Rightarrow> world \<Rightarrow> bool" where
  "erased_first y name w v \<longleftrightarrow> map_of (files v) = map_of (files w) \<or>
     (\<exists>c db e f. found_as y c True name w (db, e) \<and>
        gone_first (comps (entry_path c (db_fs db) name True)) (wssourcename f e name) w v)"

lemma erased_start: "untouched w v \<Longrightarrow> erased_first y name w v"
  by (simp add: erased_first_def untouched_def)

lemma restore_found_erases:
  assumes "names_ok (files w)" and "untouched w v"
  shows "ends (restore_found y c fss name tg u True sfs) v (\<lambda>a. erased_first y name w) (erased_first y name w)"
  unfolding restore_found_def ends_let
proof (rule ends_untouched [OF same.database_readers(1) settings.database_readers(1) assms(2)], goal_cases)
  case (1 f v1)
  show ?case unfolding ends_if ends_simple ends_let
  proof (rule if_both [OF erased_start [OF 1(2)]], rule ends_untouched [OF same.try_step settings.try_step 1(2), OF same.database_readers(3) settings.database_readers(3)], goal_cases)
    case (1 opened v2)
    show ?case
    proof (cases opened)
      case None
      with erased_start [OF 1(2)] show ?thesis by (simp add: ends_simple)
    next
      case (Some db)
      have db: "db_config db = c" using openDB_config [OF try_database_Some [OF 1(1) [unfolded Some]]] by simp
      show ?thesis unfolding Some option.case ends_let
      proof (rule ends_untouched [OF same.try_step settings.try_step 1(2), OF same.database_readers(4) settings.database_readers(4)], goal_cases)
        case (1 r v3)
        show ?case
        proof (cases r)
          case None
          with erased_start [OF 1(2)] show ?thesis by (simp add: ends_simple)
        next
          case (Some e)
          have e: "found_as y (db_config db) True name w (db, e)"
            unfolding found_as_def using try_database_Some [OF 1(1) [unfolded Some]] \<open>untouched w v2\<close> by auto
          have files: "files v3 = files w" using 1(2) by (simp add: untouched_def)
          then have g: "gone_first K p v3 = gone_first K p w" for K p by (simp add: gone_first_def fun_eq_iff)
          have ok: "names_ok (files v3)" using assms(1) files by simp
          show ?thesis unfolding Some option.case if_True
            by (rule ends_mono [OF delete_for_good_ends [OF ok]], unfold g erased_first_def) (use e in blast)+
        qed
      qed (rule erased_start)
    qed
  qed (rule erased_start)
qed (rule erased_start)

lemma restore_erases:
  assumes "names_ok (files w)" and "untouched w v"
  shows "ends (restore y name tg u c fs True) v (\<lambda>a. erased_first y name w) (erased_first y name w)"
  unfolding restore_def Let_def ends_let ends_simple ends_if
proof (intro if_both erased_start [OF assms(2)] ends_untouched [OF same.restore_readers(2) settings.restore_readers(2) assms(2)], goal_cases)
  case (1 hits v1)
  then show ?case
    using restore_found_erases [OF assms(1) 1(2)] erased_start [OF 1(2)]
    by (auto simp: ends_simple split: list.split)
qed (rule erased_start)

text \<open>The same for the tool, which is given a name that begins with the user name.\<close>

definition erased_named :: "ryml \<Rightarrow> restore_options \<Rightarrow> string \<Rightarrow> world \<Rightarrow> world \<Rightarrow> bool" where
  "erased_named y opts username w v \<longleftrightarrow> map_of (files v) = map_of (files w) \<or>
     (\<exists>name. res_name opts = Some name \<and> check_name name username \<and> erased_first y name w v)"

lemma erased_named_start: "untouched w v \<Longrightarrow> erased_named y opts username w v"
  by (simp add: erased_named_def untouched_def)

lemma restore_one_erases:
  assumes "names_ok (files w)" and pw: "getpwuid (accounts w) (ruid (cred w)) = Some pw" and del: "res_delete opts"
    and v: "untouched w v" and n: "res_name opts = Some name"
  shows "ends (restore_one y exepath c opts) v (\<lambda>a. erased_named y opts (pw_name pw) w) (erased_named y opts (pw_name pw) w)"
proof -
  let ?P = "erased_named y opts (pw_name pw) w"
  note start = erased_named_start
  have human: "ends (if b then new_ruh else ret True) v Q F" if "untouched w v" "\<And>a v'. untouched w v' \<Longrightarrow> Q a v'" "\<And>v'. untouched w v' \<Longrightarrow> F v'" for b v Q F
    by (rule ends_untouched [OF same.if_step settings.if_step that(1)])
      (use that(2,3) in \<open>auto intro!: same.tools settings.tools\<close>)
  show ?thesis
    unfolding restore_one_def Let_def ends_let ends_identity(2) [OF v pw] n option.case
  proof (rule ends_untouched [OF same.restore_readers(3) settings.restore_readers(3) v], goal_cases)
    case (1 user v1)
    show ?case
    proof (cases "check_name name (pw_name pw)")
      case True
      have "ends (restore y name t user c fs True) v2 (\<lambda>a. ?P) ?P" if "untouched w v2" for v2 t fs
        by (rule ends_mono [OF restore_erases [OF assms(1) that]]) (use True n in \<open>auto simp: erased_named_def\<close>)
      then show ?thesis
        by (simp only: True del not_True_eq_False if_False ends_let) (rule human [OF 1(2)], simp_all only: ends_if ends_simple start if_True if_False simp_thms split: if_split)
    qed (use start [OF 1(2)] in \<open>simp add: ends_simple\<close>)
  qed (rule start)
qed

lemma ws_restore_erases:
  assumes ok: "names_ok (files w)" and pw: "getpwuid (accounts w) (ruid (cred w)) = Some pw" and del: "res_delete opts"
  shows "ends (ws_restore y yc ctime exepath opts) w (\<lambda>a. erased_named y opts (pw_name pw) w) (erased_named y opts (pw_name pw) w)"
  unfolding ws_restore_def seqs_io.simps ends_let ends_seq ends_identity(1) [OF untouched_refl]
proof (rule ends_untouched [OF same.cap_calls(3) settings.cap_calls(3) untouched_refl], goal_cases)
  case (1 a v)
  note start = erased_named_start
  show ?case
  proof (rule ends_untouched [OF same.restore_readers(1) settings.restore_readers(1) 1(2)], goal_cases)
    case (1 a' v1)
    note named = 1(1)
    show ?case
    proof (rule ends_untouched [OF same.tool_readers(1) settings.tool_readers(1) 1(2)], goal_cases)
      case (1 c v2)
      show ?case
        unfolding ends_identity(2) [OF 1(2) pw]
      proof (rule ends_untouched [OF same.tool_readers(3) settings.tool_readers(3) 1(2)], goal_cases)
        case (1 conf v3)
        show ?case
        proof (rule ends_untouched [OF same.tool_readers(10) settings.tool_readers(10) 1(2)], goal_cases)
          case (1 pat v4)
          show ?case
          proof (cases "res_list opts")
            case True
            show ?thesis unfolding if_P [OF True]
              by (rule ends_untouched [OF same.listing_steps settings.listing_steps 1(2)]) (rule start, assumption)+
          next
            case False
            then obtain name where "res_name opts = Some name" using named by (cases "res_name opts") (simp_all add: restore_commandline_def)
            then show ?thesis unfolding if_not_P [OF False] by (rule restore_one_erases [OF ok pw del 1(2)])
          qed
        qed (rule start)
      qed (rule start)
    qed (rule start)
  qed (rule start)
qed (rule erased_named_start)

definition removed_entry :: entry where
  "removed_entry = (site_entry ''alice-a'' 99)\<lparr>e_dbfilepath := ''/db/.removed/alice-a-17'', e_released := 17\<rparr>"

definition restore_files :: files where
  "restore_files =
     [([''ws'', ''.removed'', ''alice-a-17''], example_inode Dir),
      ([''ws'', ''.removed'', ''alice-a-17'', ''data''], example_inode (Reg ''results'')),
      ([''ws'', ''alice-b''], example_inode Dir),
      ([''db'', ''.removed'', ''alice-a-17''], example_inode (Reg (entry_text simple_ryml removed_entry))),
      ([''db'', ''alice-b''], example_inode (Reg (entry_text simple_ryml (site_entry ''alice-b'' 99))))] @ site_files"

definition restore_world :: "int \<Rightarrow> world" where
  "restore_world now = (site_world now)\<lparr>files := restore_files\<rparr>"

definition delete_example :: restore_options where
  "delete_example = \<lparr>res_name = Some ''alice-a-17'', res_target = None, res_filesystem = [], res_list = False, res_brief = False,
     res_username = [], res_delete = True, res_config = []\<rparr>"

section \<open>Properties\<close>

text \<open>C8. Whatever fails while a workspace is restored, on one device or across two: either no file of the system is
  gone or changed, or the whole tree of the workspace is at its new place, and outside of that and of the old place
  nothing changed but the entries in the database.\<close>

theorem restore_loses_no_data:
  assumes "\<And>d k. d \<in> landing c t source (files w) \<Longrightarrow> k \<in> entry_keys db name t \<Longrightarrow> \<not> prefix d k"
    and "move_back y c db e t name source w = (r, w')"
  shows "(\<forall>k i. map_of (files w) k = Some i \<longrightarrow> map_of (files w') k = Some i) \<or>
    (\<exists>d \<in> landing c t source (files w). (\<forall>q. map_of (files w') (d @ q) = map_of (files w) (comps source @ q)) \<and>
      (\<forall>k. k \<notin> entry_keys db name t \<and> \<not> prefix (comps source) k \<and> \<not> prefix d k \<longrightarrow> map_of (files w') k = map_of (files w) k))"
proof -
  have "safe (entry_keys db name t) (comps source) (landing c t source (files w)) w w'"
    using move_back_ends [where y = y and e = e and c = c and w = w and source = source and t = t and db = db and name = name, OF assms(1)] assms(2) by simp
  then show ?thesis unfolding safe_def keeps_all_def moved_to_def map_le_def by (metis domI)
qed

lemma restore_loses_no_data_witness:
  "let w' = snd (move_back simple_ryml site_config \<lparr>db_config = site_config, db_fs = ''ws''\<rparr> removed_entry (site_entry ''alice-b'' 99)
       ''alice-a-17'' ''/ws/.removed/alice-a-17'' (restore_world 5))
   in map_of (files w') [''ws'', ''.removed'', ''alice-a-17'', ''data''] = Some (example_inode (Reg ''results'')) \<or>
      (\<exists>d \<in> {[''ws'', ''alice-b'', ''alice-a-17'']}. map_of (files w') (d @ [''data'']) = Some (example_inode (Reg ''results'')))"
proof -
  let ?t = "site_entry ''alice-b'' 99" and ?src = "''/ws/.removed/alice-a-17''"
  let ?db = "\<lparr>db_config = site_config, db_fs = ''ws''\<rparr>"
  obtain r w' where run: "move_back simple_ryml site_config ?db removed_entry ?t ''alice-a-17'' ?src (restore_world 5) = (r, w')"
    by force
  have l: "landing site_config ?t ?src (files (restore_world 5)) = {[''ws'', ''alice-b'', ''alice-a-17'']}" by code_simp
  have k: "entry_keys ?db ''alice-a-17'' ?t = {[''db'', ''.removed'', ''alice-a-17''], [''db'', ''alice-b'']}" by code_simp
  have c: "comps ?src = [''ws'', ''.removed'', ''alice-a-17'']" by code_simp
  have m: "map_of (files (restore_world 5)) [''ws'', ''.removed'', ''alice-a-17'', ''data''] = Some (example_inode (Reg ''results''))"
    by code_simp
  have h: "\<And>d q. d \<in> landing site_config ?t ?src (files (restore_world 5)) \<Longrightarrow> q \<in> entry_keys ?db ''alice-a-17'' ?t \<Longrightarrow> \<not> prefix d q"
    unfolding l k by auto
  have "(\<exists>d \<in> {[''ws'', ''alice-b'', ''alice-a-17'']}. \<forall>q. map_of (files w') (d @ q) = map_of (files (restore_world 5)) (comps ?src @ q)) \<or>
      (\<forall>q i. map_of (files (restore_world 5)) q = Some i \<longrightarrow> map_of (files w') q = Some i)"
    using restore_loses_no_data [OF h run] unfolding l by blast
  then show ?thesis unfolding run Let_def snd_conv c using m by auto
qed


text \<open>A second filesystem, with the target.\<close>

definition two_sites :: config where
  "two_sites = site_config\<lparr>filesystems := filesystems site_config @
     [(''fast'', (the (getFsConfig site_config ''ws''))\<lparr>fs_spaces := [''/fast''], fs_database := ''/fastdb''\<rparr>)]\<rparr>"

definition fast_entry :: entry where
  "fast_entry = (site_entry ''alice-b'' 99)\<lparr>e_parent := \<lparr>db_config = two_sites, db_fs = ''fast''\<rparr>, e_filesystem := ''fast'',
     e_workspace := ''/fast/alice-b'', e_dbfilepath := ''/fastdb/alice-b''\<rparr>"

definition two_sites_world :: world where
  "two_sites_world = (restore_world 5)\<lparr>files := ([''fast''], example_inode Dir) # ([''fast'', ''alice-b''], example_inode Dir) # restore_files\<rparr>"




end
