(* ===== verification/Allocate.thy ===== *)
theory Allocate
  imports Site Search
begin

text \<open>
  \<open>src/src/ws_allocate.cpp\<close>: the tool that creates a workspace, or extends one: of the caller, or with
  \<open>-x -u\<close> of another user in the group of the workspace. Durations are C++ \<open>int\<close>s.
\<close>

record allocate_options =
  al_name :: "string option"
  al_duration :: int
  al_filesystem :: "string option"
  al_extension :: bool
  al_reminder :: int
  al_mailaddress :: "string option"
  al_username :: "string option"
  al_groupreadable :: "string option"
  al_groupwritable :: "string option"
  al_comment :: string
  al_config :: path

text \<open>The variables \<open>commandline\<close> has set when it returns.\<close>

record request =
  rq_name :: string
  rq_duration :: int
  rq_reminder :: int
  rq_mailaddress :: string
  rq_user :: string
  rq_groupreadable :: string
  rq_groupwritable :: string

section \<open>The command line\<close>

definition option_text :: "string option \<Rightarrow> string" where
  "option_text x = (case x of None \<Rightarrow> [] | Some s \<Rightarrow> s)"

definition group_options :: "allocate_options \<Rightarrow> user_config \<Rightarrow> string \<times> string" where
  "group_options opts uc =
     (let r = option_text (al_groupreadable opts); g = option_text (al_groupwritable opts)
      in if (al_groupreadable opts \<noteq> None \<or> al_groupwritable opts \<noteq> None) \<and> r = [] \<and> g = [] \<and> uc_groupname uc \<noteq> []
         then (uc_groupname uc, uc_groupname uc) else (r, g))"

definition sends_expiration_mail :: "config \<Rightarrow> string \<Rightarrow> string list \<Rightarrow> bool" where
  "sends_expiration_mail c user groups =
     list_ex (\<lambda>fs. case getFsConfig c fs of None \<Rightarrow> False | Some f \<Rightarrow> fs_expirationmail f) (validFilesystems c user groups CREATE)"

definition chosen_mail :: "allocate_options \<Rightarrow> user_config \<Rightarrow> int \<Rightarrow> bool \<Rightarrow> string \<Rightarrow> string" where
  "chosen_mail opts uc reminder fs_expiration_mail username =
     (case al_mailaddress opts of
        Some m \<Rightarrow> m
      | None \<Rightarrow>
          if (reminder \<noteq> 0 \<or> fs_expiration_mail) \<and> (uc_expirationmail uc \<or> reminder \<noteq> 0)
          then if length (uc_mailaddress uc) > 0 then uc_mailaddress uc else username
          else [])"

definition checked_mail :: "string \<Rightarrow> string \<Rightarrow> string" where
  "checked_mail mailaddress username =
     (if mailaddress \<noteq> [] \<and> mailaddress \<noteq> username \<and> (CHR ''@'' \<notin> set mailaddress \<or> \<not> isValidEmail mailaddress)
      then username else mailaddress)"

definition chosen_duration :: "allocate_options \<Rightarrow> user_config \<Rightarrow> string \<Rightarrow> int \<Rightarrow> int" where
  "chosen_duration opts uc mailaddress reminder =
     (if al_duration opts \<noteq> - 1 then al_duration opts
      else if al_extension opts \<and> (mailaddress \<noteq> [] \<or> al_comment opts \<noteq> [] \<or> reminder \<noteq> 0) then 0
      else if uc_duration uc \<noteq> - 1 then uc_duration uc else - 1)"

definition legal_user :: "string \<Rightarrow> bool" where
  "legal_user user = (\<not> (user \<noteq> [] \<and> (hd user = CHR ''-'' \<or> user = ''.'' \<or> user = ''..'' \<or> CHR ''/'' \<in> set user)))"

definition allocate_commandline :: "'n yaml_cpp \<Rightarrow> allocate_options \<Rightarrow> string \<Rightarrow> request io" where
  "allocate_commandline yc opts userconf =
     let_io getuid (\<lambda>u.
       let user = (case al_username opts of None \<Rightarrow> [] | Some n \<Rightarrow> if \<not> (al_extension opts \<or> u = 0) then [] else n)
       in case al_name opts of
            None \<Rightarrow> exit_with 1
          | Some name \<Rightarrow>
              let uc = UserConfig yc userconf;
                  (groupreadable, groupwritable) = group_options opts uc;
                  reminder = (if al_reminder opts = 0 \<and> uc_reminder uc \<noteq> - 1 then uc_reminder uc else al_reminder opts)
              in let_io (valid_config yc (al_config opts)) (\<lambda>c.
                 let_io (get_io getGrouplist) (\<lambda>groups.
                 let_io getUsername (\<lambda>username.
                   let mailaddress = chosen_mail opts uc reminder (sends_expiration_mail c user groups) username;
                       duration = chosen_duration opts uc mailaddress reminder
                   in if \<not> isValidWorkspaceName name then exit_with 1
                      else if \<not> legal_user user then exit_with 1
                      else ret \<lparr>rq_name = name, rq_duration = duration, rq_reminder = reminder,
                             rq_mailaddress = checked_mail mailaddress username, rq_user = user,
                             rq_groupreadable = groupreadable, rq_groupwritable = groupwritable\<rparr>))))"

section \<open>Checks against the configuration\<close>

definition known_group :: "string list \<Rightarrow> string option \<Rightarrow> bool" where
  "known_group groupnames g = (case g of None \<Rightarrow> True | Some n \<Rightarrow> n = [] \<or> n \<in> set groupnames)"

definition validateFsAndGroup :: "config \<Rightarrow> allocate_options \<Rightarrow> string \<Rightarrow> bool io" where
  "validateFsAndGroup c opts username =
     let_io (get_io getGrouplist) (\<lambda>groupnames.
       if \<not> known_group groupnames (al_groupreadable opts) \<or> \<not> known_group groupnames (al_groupwritable opts) then ret False
       else validateFs c (al_filesystem opts) username CREATE)"

definition validateDuration :: "config \<Rightarrow> Filesystem_config \<Rightarrow> uid \<Rightarrow> int \<Rightarrow> int" where
  "validateDuration c f u duration =
     (let configduration = (if fs_maxduration f > 0 then fs_maxduration f else durationdefault (global c))
      in if u \<noteq> 0 \<and> (duration > configduration \<or> duration < 0) then configduration else duration)"

text \<open>\<open>duration * 24 * 3600\<close> in the 32 bits of an \<open>int\<close>.\<close>

definition duration_seconds :: "int \<Rightarrow> int" where
  "duration_seconds duration = sint (word_of_int duration * 24 * 3600 :: 32 word)"

definition countWorkspaces :: "ryml \<Rightarrow> config \<Rightarrow> string \<Rightarrow> string list \<Rightarrow> int io" where
  "countWorkspaces y c username grouplist =
     fold_io (validFilesystems c username grouplist LIST) (\<lambda>fs counter.
       let_io (try_database (openDB c fs)) (\<lambda>opened.
         case opened of
           None \<Rightarrow> ret counter
         | Some db \<Rightarrow> let_io (matchPattern y db ''*'' username grouplist False False) (\<lambda>matchlist.
             ret (counter + int (length matchlist))))) 0"

definition too_many :: "ryml \<Rightarrow> config \<Rightarrow> string \<Rightarrow> string list \<Rightarrow> bool io" where
  "too_many y c username grouplist =
     (if maxuserworkspaces (global c) > 0
      then let_io (countWorkspaces y c username grouplist) (\<lambda>n. ret (n > maxuserworkspaces (global c)))
      else ret False)"

section \<open>Extending\<close>

text \<open>\<open>access\<close>, whose answer about permissions is a failing call.\<close>

definition sys_access :: "path \<Rightarrow> bool io" where
  "sys_access p = let_io (sys_stat p) (\<lambda>r. ret (case r of Inl e \<Rightarrow> False | Inr i \<Rightarrow> True))"

definition delegate_allowed :: "string \<Rightarrow> entry \<Rightarrow> bool io" where
  "delegate_allowed username e =
     let_io (get_io (\<lambda>w. getUserGroupList w username)) (\<lambda>callergroups.
     let_io (sys_access (e_workspace e)) (\<lambda>dir_access.
       ret (e_group e \<noteq> [] \<and> e_group e \<in> set callergroups \<and> dir_access)))"

definition extension_time :: "config \<Rightarrow> Filesystem_config \<Rightarrow> uid \<Rightarrow> int \<Rightarrow> int io" where
  "extension_time c f u duration =
     (if duration = 0 then ret (- 1)
      else let configduration = (if fs_maxduration f = 0 then durationdefault (global c) else fs_maxduration f);
               duration = (if u \<noteq> 0 \<and> (duration > configduration \<or> duration < 0) then configduration else duration)
           in let_io time_now (\<lambda>now. ret (now + duration_seconds duration)))"

definition extend :: "ryml \<Rightarrow> config \<Rightarrow> allocate_options \<Rightarrow> request \<Rightarrow> string \<Rightarrow> database_handle \<Rightarrow> entry \<Rightarrow> entry io" where
  "extend y c opts rq username db e =
     let_io (fs_config_or_exit c (db_fs db)) (\<lambda>f.
       if \<not> fs_extendable f then exit_with (- 1)
       else let_io getuid (\<lambda>u.
         let may_modify = (u = 0 \<or> rq_user rq = [] \<or> rq_user rq = username);
             mail = (if may_modify then rq_mailaddress rq else []);
             reminder = (if may_modify then rq_reminder rq else 0);
             comment = (if may_modify then al_comment opts else []);
             newmail = (if mail \<noteq> [] then mail else e_mailaddress e)
         in let_io (if may_modify then ret True else delegate_allowed username e) (\<lambda>allowed.
              if \<not> allowed then exit_with (- 1)
              else let_io (extension_time c f u (rq_duration rq)) (\<lambda>exp.
                catch_io (useExtension y exp newmail reminder comment e)
                  (\<lambda>x. case x of DatabaseException \<Rightarrow> exit_with (- 2) | _ \<Rightarrow> throw x)))))"

section \<open>Creating\<close>

definition create :: "ryml \<Rightarrow> config \<Rightarrow> allocate_options \<Rightarrow> request \<Rightarrow> string \<Rightarrow> string \<Rightarrow> bool io" where
  "create y c opts rq username newfilesystem =
     let_io (fs_config_or_exit c newfilesystem) (\<lambda>f.
       if \<not> fs_allocatable f then exit_with (- 2)
       else let_io (try_database (openDB c newfilesystem)) (\<lambda>opened.
         case opened of
           None \<Rightarrow> ret False
         | Some db \<Rightarrow>
             let_io (if rq_groupreadable rq \<noteq> [] then ret (rq_groupreadable rq)
                     else if rq_groupwritable rq \<noteq> [] then ret (rq_groupwritable rq) else getGroupname) (\<lambda>primarygroup.
             let groupflag = (al_groupreadable opts \<noteq> None \<or> al_groupwritable opts \<noteq> None)
             in let_io (createWorkspace db (rq_name rq) (rq_user rq) groupflag (al_groupwritable opts \<noteq> None) primarygroup) (\<lambda>wsdir.
                let_io getuid (\<lambda>u.
                let_io time_now (\<lambda>now.
                let_io time_now (\<lambda>creation.
                  let expiration = now + duration_seconds (validateDuration c f u (rq_duration rq))
                  in seqs_io
                       [createEntry y db (username @ ''-'' @ rq_name rq) username wsdir creation expiration (rq_reminder rq)
                          (fs_maxextensions f) groupflag primarygroup (rq_mailaddress rq) (al_comment opts),
                        print wsdir]
                       (ret True))))))))"

section \<open>The tool\<close>

definition allocate_id :: "allocate_options \<Rightarrow> request \<Rightarrow> uid \<Rightarrow> string \<Rightarrow> string" where
  "allocate_id opts rq u username =
     (if al_extension opts \<and> length (rq_user rq) > 0 then rq_user rq @ ''-'' @ rq_name rq
      else own_id (rq_user rq) u username (rq_name rq))"

definition allocate :: "ryml \<Rightarrow> config \<Rightarrow> allocate_options \<Rightarrow> request \<Rightarrow> bool io" where
  "allocate y c opts rq =
     let_io getUsername (\<lambda>username.
     let_io (get_io getGrouplist) (\<lambda>groups.
       let valid_filesystems = validFilesystems c username groups CREATE;
           searchlist = (case al_filesystem opts of
               Some fs \<Rightarrow> [fs]
             | None \<Rightarrow> if al_extension opts then validFilesystems c username groups EXTEND else valid_filesystems)
       in if valid_filesystems = [] then exit_with (- 1)
          else let_io (validateFsAndGroup c opts (if rq_user rq = [] then username else rq_user rq)) (\<lambda>valid.
            if \<not> valid then exit_with (- 2)
            else let_io (too_many y c username groups) (\<lambda>many.
              if many then ret False
              else let_io getuid (\<lambda>u.
                let_io (search_entries y c searchlist (allocate_id opts rq u username)) (\<lambda>entrylist.
                  case entrylist of
                    [] \<Rightarrow>
                      if al_extension opts then exit_with (- 1)
                      else create y c opts rq username (case al_filesystem opts of Some fs \<Rightarrow> fs | None \<Rightarrow> hd searchlist)
                  | [(db, e)] \<Rightarrow>
                      let_io (if al_extension opts then extend y c opts rq username db e else ret e) (\<lambda>e'.
                        seq_io (print (e_workspace e)) (ret True))
                  | _ \<Rightarrow> ret False))))))"

definition ws_allocate :: "ryml \<Rightarrow> 'n yaml_cpp \<Rightarrow> allocate_options \<Rightarrow> unit io" where
  "ws_allocate y yc opts =
     let_io getuid (\<lambda>u.
     seq_io (drop_caps [CAP_DAC_OVERRIDE, CAP_CHOWN, CAP_FOWNER] u)
       (let_io own_user_conf (\<lambda>user_conf.
        let_io (allocate_commandline yc opts user_conf) (\<lambda>rq.
        let_io (read_site yc (al_config opts)) (\<lambda>c.
          let duration = (if rq_duration rq = - 1 then min (durationdefault (global c)) (maxduration (global c)) else rq_duration rq)
          in let_io getUsername (\<lambda>username.
             let_io (allocate y c opts (rq\<lparr>rq_duration := duration\<rparr>)) (\<lambda>done_well.
               if done_well then ret () else exit_with (- 1))))))))"

section \<open>Who may extend\<close>

context tool_relation
begin

lemma allocate_readers:
  "keeps R (allocate_commandline yc opts conf)" "keeps R (validateFsAndGroup c opts u)" "keeps R (too_many y c u gs)"
  "keeps R (delegate_allowed u e)" "keeps R (extension_time c f i d)"
proof -
  show "keeps R (allocate_commandline yc opts conf)"
    unfolding allocate_commandline_def Let_def by (intro tools; auto intro!: tools split: prod.split)
  show "keeps R (too_many y c u gs)" unfolding too_many_def countWorkspaces_def by (intro tools)
qed (unfold validateFsAndGroup_def delegate_allowed_def sys_access_def extension_time_def Let_def, (intro tools)+)

end

lemma extend_only: "keeps (only (\<lambda>k. k = comps (e_dbfilepath e))) (extend y c opts rq username db e)"
  unfolding extend_def Let_def
  by (intro frame.tools frame.allocate_readers frame.useExtension_in; auto intro!: frame.tools split: exn.split)

text \<open>What a delegate's run may have changed: nothing, or the entry of a workspace of a group he is in.\<close>

definition delegated :: "string \<Rightarrow> entry \<Rightarrow> world \<Rightarrow> world \<Rightarrow> bool" where
  "delegated username e w v \<longleftrightarrow> map_of (files v) = map_of (files w) \<or>
     e_group e \<noteq> [] \<and> e_group e \<in> set (getUserGroupList w username) \<and> only (\<lambda>k. k = comps (e_dbfilepath e)) w v"

lemma delegated_start: "untouched w v \<Longrightarrow> delegated username e w v"
  by (simp add: delegated_def untouched_def)

lemma delegate_allowed_Done:
  "delegate_allowed username e v = (Done True, v') \<Longrightarrow> untouched w v \<Longrightarrow> e_group e \<noteq> [] \<and> e_group e \<in> set (getUserGroupList w username)"
  by (auto simp: delegate_allowed_def let_io_Done get_io_Done ret_Done untouched_def same_setup_def getUserGroupList_def)

lemma delegate_ends:
  assumes "untouched w v" and "ruid (cred w) \<noteq> 0" and "rq_user rq \<noteq> []" and "rq_user rq \<noteq> username"
  shows "ends (extend y c opts rq username db e) v (\<lambda>a. delegated username e w) (delegated username e w)"
proof -
  let ?A = "\<lambda>k. k = comps (e_dbfilepath e)"
  have no_owner: "\<not> (ruid (cred w) = 0 \<or> rq_user rq = [] \<or> rq_user rq = username)" using assms by simp
  have rest: "keeps (only ?A) (let_io (extension_time c f i d) (\<lambda>exp. catch_io (useExtension y exp m r t e)
      (\<lambda>x. case x of DatabaseException \<Rightarrow> exit_with (- 2) | _ \<Rightarrow> throw x)))" for f i d m r t
    by (intro frame.tools frame.allocate_readers frame.useExtension_in; auto intro!: frame.tools split: exn.split)
  show ?thesis
    unfolding extend_def Let_def ends_let
  proof (rule ends_untouched [OF same.database_readers(1) settings.database_readers(1) assms(1)], goal_cases)
    case (1 f v1)
    show ?case unfolding ends_if ends_simple ends_let ends_identity(1) [OF 1(2)] if_not_P [OF no_owner]
    proof (rule if_both [OF delegated_start [OF 1(2)]], rule ends_untouched [OF same.allocate_readers(4) settings.allocate_readers(4) 1(2)], goal_cases)
      case (1 allowed v2)
      show ?case
      proof (cases allowed)
        case True
        have m: "e_group e \<noteq> [] \<and> e_group e \<in> set (getUserGroupList w username)"
          using delegate_allowed_Done [of username e v1 v2 w] 1(1) True \<open>untouched w v1\<close> by simp
        have o: "only ?A w v2" using 1(2) by (simp add: untouched_def only_def)
        have n: "(\<not> allowed) = False" using True by simp
        show ?thesis unfolding n if_False ends_let [symmetric]
          by (rule ends_only [OF rest o]) (use m in \<open>simp_all add: delegated_def\<close>)
      qed (use delegated_start [OF 1(2)] in \<open>simp add: ends_simple\<close>)
    qed (rule delegated_start)
  qed (rule delegated_start)
qed

text \<open>The same for a run of the tool, which has found the entry before.\<close>

definition delegated_run :: "ryml \<Rightarrow> string \<Rightarrow> string \<Rightarrow> string \<Rightarrow> world \<Rightarrow> world \<Rightarrow> bool" where
  "delegated_run y other name username w v \<longleftrightarrow> map_of (files v) = map_of (files w) \<or>
     (\<exists>c db e. found_as y c False (other @ ''-'' @ name) w (db, e) \<and> delegated username e w v)"

lemma delegated_run_start: "untouched w v \<Longrightarrow> delegated_run y other name username w v"
  by (simp add: delegated_run_def untouched_def)

lemma extend_found_ends:
  assumes "untouched w v" and "found_as y c False (other @ ''-'' @ name) w (db, e)"
    and "ruid (cred w) \<noteq> 0" and "rq_user rq \<noteq> []" and "rq_user rq \<noteq> username"
  shows "ends (let_io (extend y c opts rq username db e) (\<lambda>e'. seq_io (print (e_workspace e)) (ret True))) v
    (\<lambda>a. delegated_run y other name username w) (delegated_run y other name username w)"
  unfolding ends_let
proof (rule ends_mono [OF delegate_ends [OF assms(1,3-5)]])
  fix a and v2 :: world assume d: "delegated username e w v2"
  have "files (snd (print (e_workspace e) v2)) = files v2" by (simp add: print_def put_io_def)
  then show "ends (seq_io (print (e_workspace e)) (ret True)) v2 (\<lambda>a. delegated_run y other name username w) (delegated_run y other name username w)"
    using d assms(2) unfolding ends_seq
    by (intro ends_quiet [OF same.tool_readers(7)]) (auto simp: ends_simple delegated_def delegated_run_def only_def)
qed (use assms(2) in \<open>auto simp: delegated_run_def\<close>)

lemma allocate_delegates:
  assumes v: "untouched w v" and w: "ruid (cred w) \<noteq> 0" "getpwuid (accounts w) (ruid (cred w)) = Some pw"
    and opts: "al_extension opts" and rq: "rq_user rq = other" "rq_name rq = name" "other \<noteq> []" "other \<noteq> pw_name pw"
  shows "ends (allocate y c opts rq) v (\<lambda>a. delegated_run y other name (pw_name pw) w) (delegated_run y other name (pw_name pw) w)"
proof -
  let ?P = "delegated_run y other name (pw_name pw) w"
  note start = delegated_run_start
  have id: "allocate_id opts rq u (pw_name pw) = other @ ''-'' @ name" for u
    using opts rq by (simp add: allocate_id_def)
  show ?thesis
    unfolding allocate_def Let_def ends_let ends_identity(2) [OF v w(2)] ends_simple ends_if id
  proof (rule if_both [OF start [OF v]], rule ends_untouched [OF same.allocate_readers(2) settings.allocate_readers(2) v], goal_cases)
    case (1 valid v1)
    show ?case
    proof (rule if_both [OF start [OF 1(2)]], rule ends_untouched [OF same.allocate_readers(3) settings.allocate_readers(3) 1(2)], goal_cases)
      case (1 many v2)
      show ?case unfolding ends_identity(1) [OF 1(2)]
      proof (rule if_both [OF start [OF 1(2)]], rule ends_mono [OF search_ends [OF 1(2)]], goal_cases)
        case (1 found v3)
        then show ?case
          using extend_found_ends [OF _ _ w(1), of v3 y c other name _ _ rq "pw_name pw" opts] start [of w v3] opts rq
          by (auto simp: ends_simple if_P [OF opts] split: list.split prod.split)
      qed (rule start)
    qed (rule start)
  qed (rule start)
qed

lemma commandline_delegates:
  assumes v: "untouched w v" and pw: "getpwuid (accounts w) (ruid (cred w)) = Some pw"
    and opts: "al_extension opts" "al_username opts = Some other"
  shows "ends (allocate_commandline yc opts conf) v (\<lambda>rq v'. untouched w v' \<and> rq_user rq = other \<and> al_name opts = Some (rq_name rq)) (untouched w)"
proof (cases "al_name opts")
  case None
  with v show ?thesis by (simp add: allocate_commandline_def ends_let ends_identity(1) [OF v] Let_def ends_simple)
next
  case (Some name)
  obtain gr gw where g: "group_options opts (UserConfig yc conf) = (gr, gw)" by force
  show ?thesis
    unfolding allocate_commandline_def Let_def ends_let ends_identity(1) [OF v] Some option.case g prod.case
  proof (rule ends_untouched [OF same.tool_readers(9) settings.tool_readers(9) v], goal_cases)
    case (1 c v1)
    then show ?case unfolding ends_simple ends_identity(2) [OF 1(2) pw] by (simp add: ends_if ends_simple opts)
  qed
qed

lemma ws_allocate_delegates:
  fixes y :: ryml
  assumes w: "ruid (cred w) \<noteq> 0" "getpwuid (accounts w) (ruid (cred w)) = Some pw"
    and opts: "al_extension opts" "al_username opts = Some other" and other: "other \<noteq> []" "other \<noteq> pw_name pw"
  defines "P \<equiv> \<lambda>v. map_of (files v) = map_of (files w) \<or> (\<exists>name. al_name opts = Some name \<and> delegated_run y other name (pw_name pw) w v)"
  shows "ends (ws_allocate y yc opts) w (\<lambda>a. P) P"
proof -
  have start: "P v" if "untouched w v" for v using that by (simp add: P_def untouched_def)
  show ?thesis
    unfolding ws_allocate_def ends_seq ends_let ends_identity(1) [OF untouched_refl]
  proof (rule ends_untouched [OF same.cap_calls(3) settings.cap_calls(3) untouched_refl], goal_cases)
    case (1 a v)
    show ?case
    proof (rule ends_untouched [OF same.tool_readers(3) settings.tool_readers(3) 1(2)], goal_cases)
      case (1 conf v1)
      show ?case
      proof (rule ends_mono [OF commandline_delegates [OF 1(2) w(2) opts]], goal_cases)
        case (1 rq v2)
        then have v2: "untouched w v2" and rq: "rq_user rq = other" "al_name opts = Some (rq_name rq)" by blast+
        show ?case
        proof (rule ends_untouched [OF same.tool_readers(1) settings.tool_readers(1) v2], goal_cases)
          case (1 c v3)
          have "ends (allocate y c opts (rq\<lparr>rq_duration := d\<rparr>)) v3 (\<lambda>a. P) P" for d
            by (rule ends_mono [OF allocate_delegates [OF 1(2) w opts(1) _ _ other, where name = "rq_name rq"]])
              (use rq in \<open>simp_all add: P_def\<close>)
          then show ?case unfolding Let_def ends_let ends_identity(2) [OF 1(2) w(2)]
            by (rule ends_mono) (simp_all add: ends_if ends_simple)
        qed (rule start)
      qed (rule start)
    qed (rule start)
  qed (rule start)
qed

section \<open>Properties\<close>

text \<open>C17. A caller who is not root and extends a workspace of another user changes no file, whichever calls fail, unless the
  workspace was found under that name, belongs to a group and the caller is a member of it; and then no file but the
  entry of the workspace in the database.\<close>

theorem delegate_needs_group:
  assumes "ruid (cred w) \<noteq> 0" and "getpwuid (accounts w) (ruid (cred w)) = Some pw"
    and "al_extension opts" and "al_username opts = Some other" and "other \<noteq> []" and "other \<noteq> pw_name pw"
    and "map_of (files (snd (ws_allocate y yc opts w))) k \<noteq> map_of (files w) k"
  shows "\<exists>name c db e. al_name opts = Some name \<and> found_as y c False (other @ ''-'' @ name) w (db, e) \<and>
    e_group e \<noteq> [] \<and> e_group e \<in> set (getUserGroupList w (pw_name pw)) \<and> k = comps (e_dbfilepath e)"
proof -
  have "map_of (files (snd (ws_allocate y yc opts w))) = map_of (files w) \<or>
      (\<exists>name. al_name opts = Some name \<and> delegated_run y other name (pw_name pw) w (snd (ws_allocate y yc opts w)))"
    using ws_allocate_delegates [where y = y and yc = yc, OF assms(1-6)] by (auto simp: ends_def split: prod.splits outcome.splits)
  then show ?thesis using assms(7) by (auto simp: delegated_run_def delegated_def only_def; blast)
qed

lemma duration_seconds_small:
  assumes "- 24855 \<le> d" and "d \<le> 24855"
  shows "duration_seconds d = d * 24 * 3600"
proof -
  have "(word_of_int d * 24 * 3600 :: 32 word) = word_of_int (d * 24 * 3600)" by simp
  moreover have "sint (word_of_int (d * 24 * 3600) :: 32 word) = d * 24 * 3600"
    unfolding sint_sbintrunc' by (rule signed_take_bit_int_eq_self) (use assms in simp_all)
  ultimately show ?thesis by (simp add: duration_seconds_def)
qed

text \<open>C18. For a caller who is not root the new end of a workspace, whether it is extended or created, is never later than the
  limit of the filesystem allows, and never before now, whatever duration is asked for, as long as the limit is at most
  24855 days; one day more overflows, and the workspace has ended before it begins.\<close>

theorem expiration_bounds:
  assumes "u \<noteq> 0" and "0 \<le> fs_maxduration f" and "0 < L" and "L \<le> 24855"
    and "L = (if fs_maxduration f = 0 then durationdefault (global c) else fs_maxduration f)"
    and "duration \<noteq> 0"
  shows "(\<exists>exp. extension_time c f u duration w = (Done exp, w\<lparr>steps := Suc (steps w)\<rparr>) \<and>
      clock w (steps w) \<le> exp \<and> exp \<le> clock w (steps w) + L * 24 * 3600) \<and>
    0 \<le> duration_seconds (validateDuration c f u duration) \<and> duration_seconds (validateDuration c f u duration) \<le> L * 24 * 3600 \<and>
    duration_seconds 24856 < 0"
proof -
  let ?d = "if duration > L \<or> duration < 0 then L else duration"
  have d: "0 \<le> ?d" "?d \<le> L" using assms(3) by auto
  then have s: "duration_seconds ?d = ?d * 24 * 3600" using assms(4) by (intro duration_seconds_small) auto
  have "extension_time c f u duration w = (Done (clock w (steps w) + duration_seconds ?d), w\<lparr>steps := Suc (steps w)\<rparr>)"
    using assms(1,6) by (simp add: extension_time_def Let_def let_io_def time_now_def ret_def flip: assms(5))
  moreover have "validateDuration c f u duration = ?d"
    using assms(1,2,5) by (simp add: validateDuration_def Let_def)
  moreover have "duration_seconds 24856 < 0" by (simp add: duration_seconds_def)
  ultimately show ?thesis using s d by simp
qed

lemma expiration_bounds_witness:
  "\<exists>exp. extension_time site_config (the (getFsConfig site_config ''ws'')) 1000 4000 (site_world 5) = (Done exp, (site_world 5)\<lparr>steps := 1\<rparr>) \<and>
    5 \<le> exp \<and> exp \<le> 5 + 100 * 24 * 3600"
proof -
  have f: "fs_maxduration (the (getFsConfig site_config ''ws'')) = 100" by code_simp
  have w: "clock (site_world 5) n = 5" "steps (site_world 5) = 0" for n by (simp add: site_world_def, code_simp)
  show ?thesis
    using expiration_bounds [of 1000 "the (getFsConfig site_config ''ws'')" 100 site_config 4000 "site_world 5"]
    unfolding f w by simp
qed

definition group_entry :: entry where
  "group_entry = (site_entry ''bob-g'' 99)\<lparr>e_username := ''bob'', e_groupflag := True, e_group := ''users''\<rparr>"

definition group_world :: world where
  "group_world = (site_world (- 604700))\<lparr>files := site_files @
     [([''ws'', ''bob-g''], example_inode Dir), ([''db'', ''bob-g''], example_inode (Reg (entry_text simple_ryml group_entry)))]\<rparr>"

definition extend_example :: allocate_options where
  "extend_example = \<lparr>al_name = Some ''g'', al_duration = 7, al_filesystem = None, al_extension = True, al_reminder = 0,
     al_mailaddress = None, al_username = Some ''bob'', al_groupreadable = None, al_groupwritable = None, al_comment = [],
     al_config = []\<rparr>"

lemma delegate_needs_group_witness:
  "\<exists>name c db e. al_name extend_example = Some name \<and> found_as simple_ryml c False (''bob-'' @ name) group_world (db, e) \<and>
    e_group e \<in> set (getUserGroupList group_world ''alice'') \<and> [''db'', ''bob-g''] = comps (e_dbfilepath e)"
proof -
  let ?pw = "\<lparr>pw_name = ''alice'', pw_uid = 1000, pw_gid = 100, pw_dir = ''/home/alice''\<rparr>"
  let ?run = "ws_allocate simple_ryml site_yaml extend_example group_world"
  have u: "ruid (cred group_world) \<noteq> 0" by code_simp
  have p: "getpwuid (accounts group_world) (ruid (cred group_world)) = Some ?pw" by code_simp
  have o: "al_extension extend_example" "al_username extend_example = Some ''bob''" "''bob'' \<noteq> []" "''bob'' \<noteq> pw_name ?pw"
    by (simp_all add: extend_example_def)
  have c: "map_of (files (snd ?run)) [''db'', ''bob-g''] \<noteq> map_of (files group_world) [''db'', ''bob-g'']" by code_simp
  from delegate_needs_group [OF u p o c] show ?thesis by force
qed

end
