(* ===== verification/EditDb.thy ===== *)
theory EditDb
  imports Site Search
begin

text \<open>
  \<open>src/src/ws_editdb.cpp\<close>: the administrator's tool that changes the end of many workspaces at once and, for
  workspaces in the deleted area, keeps the time in their names in step. Entries are read by a pool of threads,
  so the order in which they are edited is that of an arbitrary argument \<open>order\<close>; parsing a date and
  \<open>utils::ctime\<close> are calls of the C library and arguments too.
\<close>

record editdb_options =
  ed_pattern :: string
  ed_filesystem :: string
  ed_user :: string
  ed_expired :: bool
  ed_dry_run :: bool
  ed_not_kidding :: bool
  ed_addtime :: int
  ed_addtimeexpired :: int
  ed_ensureuntil :: string
  ed_expireby :: string
  ed_config :: path

record calendar =
  ctime :: "int \<Rightarrow> string"
  parse_date :: "string \<Rightarrow> int option"

section \<open>The new times\<close>

definition DAYS :: int where
  "DAYS = 3600 * 24"

definition new_expiration :: "editdb_options \<Rightarrow> int \<Rightarrow> int \<Rightarrow> int option" where
  "new_expiration opts date expiration =
     (if ed_addtime opts \<noteq> 0 then Some (expiration + ed_addtime opts * DAYS)
      else if ed_ensureuntil opts \<noteq> [] then if expiration < date then Some date else None
      else if ed_expireby opts \<noteq> [] then if expiration > date then Some date else None
      else None)"

text \<open>When the time in the deleted area begins; old entries have it in their name.\<close>

definition boundary_of :: "int option \<Rightarrow> int \<Rightarrow> int \<Rightarrow> int" where
  "boundary_of name_time exp exd =
     (if exd \<noteq> 0 then max exp exd else max exp (case name_time of None \<Rightarrow> 0 | Some t \<Rightarrow> t))"

definition new_expired :: "editdb_options \<Rightarrow> int option \<Rightarrow> int \<Rightarrow> int \<Rightarrow> int option" where
  "new_expired opts name_time expiration expired =
     (if ed_addtimeexpired opts \<noteq> 0
      then let base = (if ed_expired opts \<and> expired = 0 then boundary_of name_time expiration expired else expired)
           in Some (base + ed_addtimeexpired opts * DAYS)
      else None)"

definition or_else :: "int option \<Rightarrow> int \<Rightarrow> int" where
  "or_else x d = (case x of None \<Rightarrow> d | Some v \<Rightarrow> v)"

section \<open>Editing one entry\<close>

definition change_line :: "calendar \<Rightarrow> string \<Rightarrow> int \<Rightarrow> int \<Rightarrow> string" where
  "change_line cal what old new = ''    change '' @ what @ '': '' @ ctime cal old @ '' ('' @ show_int old @ '') -> '' @
     ctime cal new @ '' ('' @ show_int new @ '')''"

definition apply_change :: "ryml \<Rightarrow> calendar \<Rightarrow> bool \<Rightarrow> string \<Rightarrow> int \<Rightarrow> (int \<Rightarrow> entry \<Rightarrow> entry) \<Rightarrow> int option \<Rightarrow> entry \<Rightarrow> entry io" where
  "apply_change y cal dryrun what old setter new e =
     (case new of
        None \<Rightarrow> ret e
      | Some t \<Rightarrow> seq_io (print (change_line cal what old t))
          (if dryrun then ret e else seq_io (writeEntry y False (setter t e)) (ret (setter t e))))"

definition determined_by :: "int option \<Rightarrow> int \<Rightarrow> int \<Rightarrow> string" where
  "determined_by name_time final_expiration final_expired =
     (if final_expired \<noteq> 0 then if final_expiration \<ge> final_expired then ''expiration'' else ''expired''
      else if final_expiration \<ge> or_else name_time 0 then ''expiration'' else ''time encoded in name'')"

text \<open>The renaming of an edited entry of the deleted area; the names planned so far are \<open>reserved\<close>.\<close>

definition rename_edited :: "config \<Rightarrow> bool \<Rightarrow> int \<Rightarrow> entry \<Rightarrow> string set \<Rightarrow> string set io" where
  "rename_edited c dryrun new_boundary e reserved =
     let_io (try_database (expiredIdFor e new_boundary reserved)) (\<lambda>r.
       case r of
         None \<Rightarrow> ret reserved
       | Some new_id \<Rightarrow>
           if new_id = e_id e then ret reserved
           else let deleted_dir = path_append (remove_filename (e_workspace e)) (deletedPath c (e_filesystem e))
                in seqs_io
                     [print (''    rename db entry: '' @ e_id e @ '' -> '' @ new_id),
                      print (''    move workspace: '' @ path_append deleted_dir (e_id e) @ '' -> '' @ path_append deleted_dir new_id)]
                     (if dryrun then ret (insert new_id reserved)
                      else let_io (try_database (renameAsExpired e new_id)) (\<lambda>e'. ret (insert new_id reserved))))"

definition sync_name :: "config \<Rightarrow> calendar \<Rightarrow> bool \<Rightarrow> int option \<Rightarrow> int \<Rightarrow> int \<Rightarrow> int \<Rightarrow> int \<Rightarrow> entry \<Rightarrow> string set \<Rightarrow> string set io" where
  "sync_name c cal dryrun name_time expiration expired final_expiration final_expired e reserved =
     (if e_released e > 1000000000 then
        seq_io (print ''    NOT renamed: workspace was released by user, name carries release time'') (ret reserved)
      else if name_time = None then seq_io (print ''    NOT renamed: name has no timestamp suffix'') (ret reserved)
      else let old_boundary = boundary_of name_time expiration expired;
               new_boundary = boundary_of name_time final_expiration final_expired
           in let_io (fs_config_or_exit c (e_filesystem e)) (\<lambda>f.
                let keeptime = fs_keeptime f * DAYS
                in if new_boundary = old_boundary
                   then seq_io (print (''    note: retention unchanged, still determined by '' @
                            determined_by name_time final_expiration final_expired @ '' ('' @ ctime cal new_boundary @
                            ''), restorable until '' @ ctime cal (new_boundary + keeptime)))
                          (ret reserved)
                   else seq_io (print (''    restorable until: '' @ ctime cal (new_boundary + keeptime) @ '' (was '' @
                            ctime cal (old_boundary + keeptime) @ '')''))
                          (rename_edited c dryrun new_boundary e reserved)))"

definition edit_entry :: "ryml \<Rightarrow> config \<Rightarrow> calendar \<Rightarrow> editdb_options \<Rightarrow> int \<Rightarrow> entry \<Rightarrow> string set \<Rightarrow> string set io" where
  "edit_entry y c cal opts date e reserved =
     (let dryrun = (\<not> ed_not_kidding opts); expiration = e_expiration e; expired = e_expired e;
          name_time = (if ed_expired opts then timestampFromId (e_id e) else None);
          exp' = new_expiration opts date expiration;
          exd' = new_expired opts name_time expiration expired
      in if exp' = None \<and> exd' = None then ret reserved
         else seq_io (print (''Id: '' @ e_id e @ '' ('' @ e_workspace e @ '')''))
           (let_io (apply_change y cal dryrun ''expiration'' expiration setExpiration exp' e) (\<lambda>e1.
            let_io (apply_change y cal dryrun ''expired'' expired setExpired exd' e1) (\<lambda>e2.
              if ed_expired opts
              then sync_name c cal dryrun name_time expiration expired (or_else exp' expiration) (or_else exd' expired) e2 reserved
              else ret reserved))))"

section \<open>The tool\<close>

definition read_or_none :: "ryml \<Rightarrow> database_handle \<Rightarrow> bool \<Rightarrow> string \<Rightarrow> entry option io" where
  "read_or_none y db expired i =
     catch_io (let_io (readEntry y db i expired) (\<lambda>e. ret (Some e))) (\<lambda>x. ret None)"

definition collect_entries :: "ryml \<Rightarrow> (string list \<Rightarrow> string list) \<Rightarrow> config \<Rightarrow> editdb_options \<Rightarrow> string list \<Rightarrow> string \<Rightarrow> entry list io" where
  "collect_entries y order c opts fslist userpattern =
     fold_io fslist (\<lambda>fs entrylist.
       let_io (try_database (openDB c fs)) (\<lambda>opened.
         case opened of
           None \<Rightarrow> ret entrylist
         | Some db \<Rightarrow>
             let_io (matchPattern y db (if ed_pattern opts = [] then ''*'' else ed_pattern opts) userpattern [] (ed_expired opts) False) (\<lambda>matchlist.
             fold_io (order matchlist) (\<lambda>i es.
               let_io (read_or_none y db (ed_expired opts) i) (\<lambda>r.
                 ret (case r of None \<Rightarrow> es | Some e \<Rightarrow> es @ [e]))) entrylist))) []"

definition edit_date :: "calendar \<Rightarrow> editdb_options \<Rightarrow> int io" where
  "edit_date cal opts =
     (if ed_expireby opts = [] \<and> ed_ensureuntil opts = [] then ret 0
      else case parse_date cal (if ed_expireby opts \<noteq> [] then ed_expireby opts @ '' 00:00:00'' else ed_ensureuntil opts @ '' 23:59:59'') of
        None \<Rightarrow> exit_with (- 2)
      | Some d \<Rightarrow> ret d)"

definition one_action :: "editdb_options \<Rightarrow> bool" where
  "one_action opts =
     (length (filter id [ed_addtime opts \<noteq> 0, ed_addtimeexpired opts \<noteq> 0, ed_expireby opts \<noteq> [], ed_ensureuntil opts \<noteq> []]) \<le> 1)"

definition ws_editdb :: "ryml \<Rightarrow> 'n yaml_cpp \<Rightarrow> calendar \<Rightarrow> (string list \<Rightarrow> string list) \<Rightarrow> editdb_options \<Rightarrow> unit io" where
  "ws_editdb y yc cal order opts =
     (if ed_dry_run opts \<and> ed_not_kidding opts then exit_with 0
      else let_io (get_io isRoot) (\<lambda>root.
        if \<not> root \<and> ed_config opts = [] then exit_with (- 1)
        else let_io (read_site yc (ed_config opts)) (\<lambda>c.
          if \<not> one_action opts then exit_with (- 2)
          else let_io (edit_date cal opts) (\<lambda>date.
            let_io getUsername (\<lambda>username.
            let_io (user_pattern c (ed_user opts)) (\<lambda>userpattern.
              let validfs = validFilesystems c username [] LIST;
                  fslist = (if ed_filesystem opts \<noteq> []
                            then if ed_filesystem opts \<in> set validfs then [ed_filesystem opts] else [] else validfs)
              in let_io (collect_entries y order c opts fslist userpattern) (\<lambda>entrylist.
                 seq_io (when_io (\<not> ed_not_kidding opts) (print ''Actions that would be performed on the workspaces selected:''))
                   (let_io (fold_io entrylist (\<lambda>e reserved. edit_entry y c cal opts date e reserved) {}) (\<lambda>r. ret ())))))))))"

section \<open>Properties\<close>

context tool_relation
begin

lemma expiredIdFor: "keeps R (expiredIdFor e b r)"
proof -
  have count: "keeps R (count_up n step t)" if "\<And>t. keeps R (step t)" for n t and step :: "int \<Rightarrow> string option io"
    using that by (induction n arbitrary: t) (auto intro!: tools)
  show ?thesis unfolding expiredIdFor_def either_taken_def Let_def
    by (auto intro!: tools split: option.split) (rule count, intro tools)
qed

lemma dry_edit: "\<not> ed_not_kidding opts \<Longrightarrow> keeps R (edit_entry y c cal opts date e reserved)"
  unfolding edit_entry_def apply_change_def sync_name_def rename_edited_def Let_def seqs_io.simps
  by (intro tools expiredIdFor; simp add: tools)

end

text \<open>C25. Without \<open>--not-kidding\<close> \<open>ws_editdb\<close> changes no file, whatever it is asked to do and in whichever order the
  threads deliver the entries.\<close>

theorem dry_edit_changes_nothing:
  assumes "\<not> ed_not_kidding opts"
  shows "files (snd (ws_editdb y yc cal order opts w)) = files w"
proof -
  have "keeps same_files (ws_editdb y yc cal order opts)"
    unfolding ws_editdb_def collect_entries_def read_or_none_def edit_date_def Let_def
    by (intro same.tools same.dry_edit [OF assms]; auto intro!: same.tools same.dry_edit [OF assms] split: option.split)
  then show ?thesis by (simp add: keeps_def same_files_def)
qed

definition edit_example :: editdb_options where
  "edit_example = \<lparr>ed_pattern = [], ed_filesystem = [], ed_user = [], ed_expired = False, ed_dry_run = False, ed_not_kidding = False,
     ed_addtime = 7, ed_addtimeexpired = 0, ed_ensureuntil = [], ed_expireby = [], ed_config = ''/etc/ws.conf''\<rparr>"

lemma dry_edit_changes_nothing_witness:
  "files (snd (ws_editdb simple_ryml site_yaml \<lparr>ctime = show_int, parse_date = (\<lambda>s. None)\<rparr> rev edit_example (site_world 5))) =
     files (site_world 5)"
  by (rule dry_edit_changes_nothing) (simp add: edit_example_def)

text \<open>The name \<open>ws_editdb\<close> gives a deleted workspace is that of its base with the first time, from the begin of its
  retention on, that no other deleted workspace has and none of this run was planned to get; and every reader of names
  reads this time from it.\<close>

lemma edited_name_carries_boundary:
  assumes "splitExpiredId (e_id e) = Some (base, ts)" and "getFsConfig (db_config (e_parent e)) (e_filesystem e) = Some f"
    and "since + 1000 \<le> LLONG_MAX" and "expiredIdFor e since reserved w = (Done new_id, w')"
  shows "\<exists>t. since \<le> t \<and> t < since + 1000 \<and> new_id = stamped base t \<and> timestampFromId new_id = Some t \<and>
    (new_id = e_id e \<or> new_id \<notin> reserved \<and> free_stamp f (e_workspace e) base (files w) t) \<and>
    (\<forall>u. since \<le> u \<and> u < t \<longrightarrow> stamped base u \<noteq> e_id e \<and>
      (stamped base u \<in> reserved \<or> \<not> free_stamp f (e_workspace e) base (files w) u))"
proof -
  let ?step = "\<lambda>t. let candidate = stamped base t
        in if candidate = e_id e then ret (Some (e_id e))
           else if candidate \<in> reserved then ret None
           else let_io (either_taken (path_append (db_deleted_dir f) candidate) (path_append (ws_deleted_dir (e_workspace e) f) candidate))
             (\<lambda>taken. ret (if taken then None else Some candidate))"
  have pos: "0 < since"
    using assms(4) by (auto simp: expiredIdFor_def assms(1) split: if_splits)
  obtain r w1 where c: "count_up maxtries ?step since w = (Done (Some new_id), w1)"
    using assms(4) pos by (auto simp: expiredIdFor_def assms(1,2) fs_config_or_exit_def let_io_Done ret_Done split: option.splits)
  from rename_names.count_result [OF c] obtain i where i: "i < maxtries" "new_id = stamped base (since + int i)"
      "new_id = e_id e \<or> new_id \<notin> reserved \<and> free_stamp f (e_workspace e) base (files w) (since + int i)"
    and before: "\<forall>j < i. \<not> (stamped base (since + int j) = e_id e \<or> stamped base (since + int j) \<notin> reserved \<and>
        free_stamp f (e_workspace e) base (files w) (since + int j))" by auto
  have base: "base \<noteq> []" using assms(1) by (auto simp: splitExpiredId_def Let_def split: option.splits if_splits)
  have "timestampFromId (stamped base (since + int i)) = Some (since + int i)"
    using timestampFromId_show [OF base, of "nat (since + int i)"] pos i(1) assms(3)
    by (simp add: stamped_def show_int_nat maxtries_def)
  moreover have "stamped base u \<noteq> e_id e \<and> (stamped base u \<in> reserved \<or> \<not> free_stamp f (e_workspace e) base (files w) u)"
    if "since \<le> u" "u < since + int i" for u
    using before [rule_format, of "nat (u - since)"] that by auto
  ultimately show ?thesis using i by (intro exI [of _ "since + int i"]) (auto simp: maxtries_def)
qed

lemma edited_name_carries_boundary_witness:
  "\<exists>t. 17 \<le> t \<and> t < 1017 \<and> ''alice-a-18'' = stamped ''alice-a'' t \<and> timestampFromId ''alice-a-18'' = Some t"
proof -
  let ?e = "site_entry ''alice-a-5'' 99" and ?r = "{''alice-a-17''}"
  obtain f where f: "getFsConfig (db_config (e_parent ?e)) (e_filesystem ?e) = Some f"
    by (cases "getFsConfig (db_config (e_parent ?e)) (e_filesystem ?e)") (simp_all add: site_entry_def blank_entry_def site_config_def getFsConfig_def)
  have b: "splitExpiredId (e_id ?e) = Some (''alice-a'', 5)" by code_simp
  have l: "17 + 1000 \<le> LLONG_MAX" by (simp add: LLONG_MAX_def)
  have two: "count_up maxtries step t w = (Done (Some a), w'')" if "step t w = (Done None, w')" "step (t + 1) w' = (Done (Some a), w'')"
    for step :: "int \<Rightarrow> string option io" and t w w' a w''
  proof -
    have "maxtries = Suc (Suc 998)" by (simp add: maxtries_def)
    moreover have "count_up (Suc (Suc n)) step t w = (Done (Some a), w'')" for n
      using that by (simp add: let_io_def ret_def)
    ultimately show ?thesis by metis
  qed
  have st: "stamped ''alice-a'' 17 = ''alice-a-17''" "stamped ''alice-a'' 18 = ''alice-a-18''" by code_simp+
  have id: "e_id ?e = ''alice-a-5''" by (simp add: site_entry_def)
  have fe: "f = the (getFsConfig site_config ''ws'')" using f by (simp add: site_entry_def blank_entry_def)
  have t: "fst (either_taken (path_append (db_deleted_dir f) ''alice-a-18'') (path_append (ws_deleted_dir (e_workspace ?e) f) ''alice-a-18'') (site_world 5)) = Done False"
    unfolding fe by code_simp
  then obtain v where "either_taken (path_append (db_deleted_dir f) ''alice-a-18'') (path_append (ws_deleted_dir (e_workspace ?e) f) ''alice-a-18'') (site_world 5) = (Done False, v)"
    by (metis prod.collapse)
  then have "fst (expiredIdFor ?e 17 ?r (site_world 5)) = Done ''alice-a-18''"
    by (simp add: expiredIdFor_def b [unfolded id] id f fs_config_or_exit_def let_io_def [of "count_up _ _ _"] let_io_def [of "ret _"] ret_def)
       (subst two [where w' = "site_world 5" and w'' = v], simp_all add: st let_io_def ret_def Let_def)
  then obtain w' where run: "expiredIdFor ?e 17 ?r (site_world 5) = (Done ''alice-a-18'', w')" by (metis prod.collapse)
  show ?thesis using edited_name_carries_boundary [OF b f l run] by (simp, blast)
qed

end
