(* ===== verification/Ical.thy ===== *)
theory Ical
  imports Site Search
begin

text \<open>
  \<open>src/src/ws_send_ical.cpp\<close>: a mail with a calendar entry for the end of a workspace. \<open>base64Encode\<close> works
  on an \<open>unsigned int\<close>, whose upper bits are lost with every shift. The date format of the calendar is
  \<open>strftime\<close>, a call of the C library, and an argument.
\<close>

unbundle bit_operations_syntax

section \<open>Base64\<close>

definition base64_chars :: string where
  "base64_chars = ''ABCDEFGHIJKLMNOPQRSTUVWXYZabcdefghijklmnopqrstuvwxyz0123456789+/''"

definition base64_char :: "32 word \<Rightarrow> char" where
  "base64_char v = base64_chars ! unat (v AND 0x3F)"

text \<open>The inner loop, and the step for one character.\<close>

function sextets :: "32 word \<Rightarrow> int \<Rightarrow> string \<Rightarrow> int \<times> string" where
  "sextets val valb result =
     (if valb \<ge> 0 then sextets val (valb - 6) (result @ [base64_char (drop_bit (nat valb) val)]) else (valb, result))"
  by pat_completeness auto
termination by (relation "measure (\<lambda>(val, valb, result). nat (valb + 1))") auto

definition base64_step :: "char \<Rightarrow> 32 word \<times> int \<times> string \<Rightarrow> 32 word \<times> int \<times> string" where
  "base64_step c s =
     (case s of (val, valb, result) \<Rightarrow>
        let val = push_bit 8 val + of_char c in (val, sextets val (valb + 8) result))"

function pad4 :: "string \<Rightarrow> string" where
  "pad4 result = (if length result mod 4 \<noteq> 0 then pad4 (result @ ''='') else result)"
  by pat_completeness auto
termination
proof (relation "measure (\<lambda>r. (4 - length r mod 4) mod 4)")
  fix r :: string assume "length r mod 4 \<noteq> 0"
  moreover have "length r mod 4 < 4" by simp
  ultimately have "length r mod 4 \<in> {1, 2, 3}" by auto
  then show "(r @ ''='', r) \<in> measure (\<lambda>r. (4 - length r mod 4) mod 4)" by (auto simp: mod_Suc)
qed simp

definition base64Encode :: "string \<Rightarrow> string" where
  "base64Encode input =
     (case fold base64_step input (0, - 6, []) of (val, valb, result) \<Rightarrow>
        pad4 (if valb > - 6 then result @ [base64_char (drop_bit (nat (valb + 8)) (push_bit 8 val))] else result))"

declare sextets.simps [simp del] pad4.simps [simp del]

section \<open>The reference: groups of three\<close>

definition sextet :: "nat \<Rightarrow> char" where
  "sextet n = base64_chars ! (n mod 64)"

fun base64_groups :: "nat list \<Rightarrow> string" where
  "base64_groups [] = []"
| "base64_groups [a] = [sextet (a div 4), sextet (a mod 4 * 16), CHR ''='', CHR ''='']"
| "base64_groups [a, b] = [sextet (a div 4), sextet (a mod 4 * 16 + b div 16), sextet (b mod 16 * 4), CHR ''='']"
| "base64_groups (a # b # c # bs) =
     [sextet (a div 4), sextet (a mod 4 * 16 + b div 16), sextet (b mod 16 * 4 + c div 64), sextet c] @ base64_groups bs"

lemma base64_char_sextet: "base64_char (drop_bit k v) = sextet (unat v div 2 ^ k)"
proof -
  have "drop_bit k v AND 0x3F = take_bit 6 (drop_bit k v)" by (simp add: take_bit_eq_mask mask_eq_exp_minus_1)
  moreover have "take_bit 32 (unat v) = unat v" using unsigned_less [of v] by (intro take_bit_nat_eq_self) simp
  ultimately have "unat (drop_bit k v AND 0x3F) = take_bit 6 (drop_bit k (unat v))"
    by (simp only: unsigned_take_bit_eq unsigned_drop_bit_eq) simp
  then have "unat (drop_bit k v AND 0x3F) = unat v div 2 ^ k mod 64"
    by (simp only: take_bit_eq_mod drop_bit_eq_div) simp
  then show ?thesis by (simp add: base64_char_def sextet_def)
qed

text \<open>The value after a character: its lower bits are that character, and what is lost is not needed.\<close>

definition shifted :: "32 word \<Rightarrow> char \<Rightarrow> 32 word" where
  "shifted v c = push_bit 8 v + of_char c"

lemma shifted_value: "unat (shifted v c) = (unat v * 256 + of_char c) mod 2 ^ 32"
proof -
  have "shifted v c = of_nat (unat v * 256 + of_char c)" by (simp add: shifted_def push_bit_eq_mult of_nat_of_char)
  then show ?thesis by (simp only: unat_of_nat) simp
qed

lemma char_value: "(of_char c :: nat) < 256"
  by (rule of_char_mod_256 [of c, THEN subst]) simp

lemma sextet_mod: "k \<le> 26 \<Longrightarrow> sextet (x mod 2 ^ 32 div 2 ^ k) = sextet (x div 2 ^ k)"
proof -
  assume "k \<le> 26"
  then have "6 \<le> 32 - k" by simp
  then have "take_bit 6 (drop_bit k (take_bit 32 x)) = take_bit 6 (drop_bit k x)" by (simp add: drop_bit_take_bit min_def)
  then show ?thesis by (simp add: sextet_def take_bit_eq_mod drop_bit_eq_div)
qed

lemma shifted_low: "unat (shifted v c) mod 256 = of_char c"
proof -
  have "(unat v * 256 + of_char c) mod 2 ^ 32 mod 256 = (unat v * 256 + of_char c :: nat) mod 256"
    by (rule mod_mod_cancel) simp
  with char_value [of c] show ?thesis by (simp add: shifted_value)
qed

lemma shifted_sextet: "k \<le> 26 \<Longrightarrow> base64_char (drop_bit k (shifted v c)) = sextet ((unat v * 256 + of_char c) div 2 ^ k)"
  using sextet_mod [of k] by (simp only: base64_char_sextet shifted_value)

lemma sextet_cong: "m mod 64 = n mod 64 \<Longrightarrow> sextet m = sextet n"
  by (simp add: sextet_def)

text \<open>The three positions in a group; \<open>u\<close> stands for all the characters before.\<close>

lemma scaled_mod: "u mod 256 = a \<Longrightarrow> d * k = 64 \<Longrightarrow> d dvd 256 \<Longrightarrow> (u * k + x) mod 64 = (a mod d * k + x) mod (64 :: nat)"
proof -
  assume a: "u mod 256 = a" and d: "d * k = 64" "d dvd 256"
  have "a mod d = u mod d" unfolding a [symmetric] using d(2) by (rule mod_mod_cancel)
  then have "u * k mod 64 = a mod d * k mod 64" unfolding d(1) [symmetric] by (simp add: mult_mod_left [symmetric] del: mult_mod_left)
  then show ?thesis by (metis mod_add_left_eq)
qed

lemma first_sextet: "sextet ((u * 256 + a) div 4) = sextet (a div 4)"
proof -
  have "(u * 64 * 4 + a) div 4 = u * 64 + a div 4" by simp
  then have "(u * 256 + a) div 4 = u * 64 + a div 4" by (simp add: mult.assoc)
  then show ?thesis by (intro sextet_cong) simp
qed

lemma middle_sextet: "u mod 256 = a \<Longrightarrow> sextet ((u * 256 + b) div 16) = sextet (a mod 4 * 16 + b div 16)"
proof -
  assume a: "u mod 256 = a"
  have "(u * 16 * 16 + b) div 16 = u * 16 + b div 16" by simp
  then have "(u * 256 + b) div 16 = u * 16 + b div 16" by (simp add: mult.assoc)
  then show ?thesis by (intro sextet_cong) (use scaled_mod [OF a, of 4 16] in simp)
qed

lemma third_sextet: "u mod 256 = b \<Longrightarrow> sextet ((u * 256 + c) div 64) = sextet (b mod 16 * 4 + c div 64)"
proof -
  assume b: "u mod 256 = b"
  have "(u * 4 * 64 + c) div 64 = u * 4 + c div 64" by simp
  then have "(u * 256 + c) div 64 = u * 4 + c div 64" by (simp add: mult.assoc)
  then show ?thesis using scaled_mod [OF b, of 16 4] by (intro sextet_cong) simp
qed

lemma last_sextet: "sextet (u * 256 + c) = sextet c"
proof (rule sextet_cong)
  have "u * 256 + c = c + u * 4 * 64" by simp
  then show "(u * 256 + c) mod 64 = c mod 64" by (simp only: mod_mult_self1)
qed

lemma base64_steps:
  "base64_step c (v, - 6, r) = (shifted v c, - 4, r @ [sextet (of_char c div 4)])"
  "unat v mod 256 = of_char b \<Longrightarrow>
    base64_step c (v, - 4, r) = (shifted v c, - 2, r @ [sextet (of_char b mod 4 * 16 + of_char c div 16)])"
  "unat v mod 256 = of_char b \<Longrightarrow>
    base64_step c (v, - 2, r) = (shifted v c, - 6, r @ [sextet (of_char b mod 16 * 4 + of_char c div 64), sextet (of_char c)])"
proof -
  note sx = shifted_sextet [of 2 v c, simplified] shifted_sextet [of 4 v c, simplified] shifted_sextet [of 6 v c, simplified]
    shifted_sextet [of 0 v c, simplified]
  show "base64_step c (v, - 6, r) = (shifted v c, - 4, r @ [sextet (of_char c div 4)])"
    by (simp add: base64_step_def sextets.simps Let_def flip: shifted_def) (simp add: sx first_sextet)
  show "base64_step c (v, - 4, r) = (shifted v c, - 2, r @ [sextet (of_char b mod 4 * 16 + of_char c div 16)])"
    if "unat v mod 256 = of_char b"
    by (simp add: base64_step_def sextets.simps Let_def flip: shifted_def) (simp add: sx middle_sextet [OF that])
  show "base64_step c (v, - 2, r) = (shifted v c, - 6, r @ [sextet (of_char b mod 16 * 4 + of_char c div 64), sextet (of_char c)])"
    if "unat v mod 256 = of_char b"
    by (simp add: base64_step_def sextets.simps Let_def flip: shifted_def)
       (simp add: sx third_sextet [OF that] last_sextet)
qed

definition finish :: "32 word \<times> int \<times> string \<Rightarrow> string" where
  "finish s = (case s of (val, valb, result) \<Rightarrow>
     pad4 (if valb > - 6 then result @ [base64_char (drop_bit (nat (valb + 8)) (push_bit 8 val))] else result))"

lemma finish_simps:
  "length r mod 4 = 0 \<Longrightarrow> finish (v, - 6, r) = r"
  "length r mod 4 = 0 \<Longrightarrow> unat v mod 256 = a \<Longrightarrow> finish (v, - 4, r @ [x]) = r @ [x, sextet (a mod 4 * 16), CHR ''='', CHR ''='']"
  "length r mod 4 = 0 \<Longrightarrow> unat v mod 256 = b \<Longrightarrow> finish (v, - 2, r @ [x, y]) = r @ [x, y, sextet (b mod 16 * 4), CHR ''='']"
proof -
  have z: "push_bit 8 v = shifted v (CHR 0x00)" by (simp add: shifted_def)
  have p: "length r mod 4 = 0 \<Longrightarrow> pad4 (r @ [x, y, z]) = r @ [x, y, z, CHR ''='']" for x y z
    by (simp add: pad4.simps mod_Suc)
  have q: "length r mod 4 = 0 \<Longrightarrow> pad4 (r @ [x, y]) = r @ [x, y, CHR ''='', CHR ''='']" for x y
    by (subst pad4.simps) (simp add: p mod_Suc)
  show "length r mod 4 = 0 \<Longrightarrow> finish (v, - 6, r) = r" by (simp add: finish_def pad4.simps)
  show "finish (v, - 4, r @ [x]) = r @ [x, sextet (a mod 4 * 16), CHR ''='', CHR ''='']" if "length r mod 4 = 0" "unat v mod 256 = a"
    using shifted_sextet [of 4 v "CHR 0x00"] middle_sextet [OF that(2), of 0] q [OF that(1)] by (simp add: finish_def z)
  show "finish (v, - 2, r @ [x, y]) = r @ [x, y, sextet (b mod 16 * 4), CHR ''='']" if "length r mod 4 = 0" "unat v mod 256 = b"
    using shifted_sextet [of 6 v "CHR 0x00"] third_sextet [OF that(2), of 0] p [OF that(1)] by (simp add: finish_def z)
qed

lemma base64_fold: "length r mod 4 = 0 \<Longrightarrow>
  finish (fold base64_step s (v, - 6, r)) = r @ base64_groups (map of_char s)"
proof (induction "length s" arbitrary: s v r rule: less_induct)
  case less
  note steps = base64_steps(1) base64_steps(2) [OF shifted_low] base64_steps(3) [OF shifted_low]
  consider "s = []" | a where "s = [a]" | a b where "s = [a, b]" | a b c t where "s = a # b # c # t"
    by (metis neq_Nil_conv)
  then show ?case
  proof cases
    case 1
    with less.prems show ?thesis by (simp add: finish_simps)
  next
    case (2 a)
    with less.prems show ?thesis by (simp add: steps finish_simps(2) [OF _ shifted_low])
  next
    case (3 a b)
    with less.prems show ?thesis by (simp add: steps finish_simps(3) [OF _ shifted_low])
  next
    case (4 a b c t)
    with less.prems less.hyps [of t] show ?thesis by (simp add: steps mod_Suc)
  qed
qed

section \<open>Decoding\<close>

definition base64_value :: "char \<Rightarrow> nat" where
  "base64_value c = length (takeWhile (\<lambda>d. d \<noteq> c) base64_chars)"

fun base64_decode :: "string \<Rightarrow> nat list" where
  "base64_decode (w # x # y # z # rest) =
     (let a = base64_value w; b = base64_value x; c = base64_value y; d = base64_value z;
          first = a * 4 + b div 16; second = b mod 16 * 16 + c div 4; third = c mod 4 * 64 + d
      in if y = CHR ''='' then [first] else if z = CHR ''='' then [first, second]
         else first # second # third # base64_decode rest)"
| "base64_decode _ = []"

lemma sextet_value: "base64_value (sextet n) = n mod 64" "sextet n \<noteq> CHR ''=''"
proof -
  have "list_all (\<lambda>k. base64_value (base64_chars ! k) = k \<and> base64_chars ! k \<noteq> CHR ''='') [0..<64]" by code_simp
  then have "base64_value (base64_chars ! k) = k \<and> base64_chars ! k \<noteq> CHR ''=''" if "k < 64" for k
    using that by (simp only: list_all_iff set_upt) simp
  from this [of "n mod 64"] show "base64_value (sextet n) = n mod 64" "sextet n \<noteq> CHR ''=''" by (simp_all add: sextet_def)
qed

lemma octet_parts:
  "a < 256 \<Longrightarrow> a div 4 mod 64 = a div 4" "b < 256 \<Longrightarrow> (a mod 4 * 16 + b div 16) mod 64 = a mod 4 * 16 + b div 16"
  "c < 256 \<Longrightarrow> (b mod 16 * 4 + c div 64) mod 64 = b mod 16 * 4 + c div 64" for a b c :: nat
proof -
  show "a div 4 mod 64 = a div 4" if "a < 256" using that by simp
  have "a mod 4 < 4" "b mod 16 < 16" by simp_all
  moreover have "b div 16 < 16" if "b < 256" using that by simp
  moreover have "c div 64 < 4" if "c < 256" using that by simp
  ultimately show "b < 256 \<Longrightarrow> (a mod 4 * 16 + b div 16) mod 64 = a mod 4 * 16 + b div 16"
    "c < 256 \<Longrightarrow> (b mod 16 * 4 + c div 64) mod 64 = b mod 16 * 4 + c div 64" by (intro mod_less; fastforce)+
qed

lemma octet_joined:
  "a < 256 \<Longrightarrow> b < 256 \<Longrightarrow> a div 4 * 4 + (a mod 4 * 16 + b div 16) div 16 = a"
  "b < 256 \<Longrightarrow> c < 256 \<Longrightarrow> (a mod 4 * 16 + b div 16) mod 16 * 16 + (b mod 16 * 4 + c div 64) div 4 = b"
  "c < 256 \<Longrightarrow> (b mod 16 * 4 + c div 64) mod 4 * 64 + c mod 64 = c" for a b c :: nat
proof -
  have d: "b div 16 < 16" if "b < 256" for b :: nat using that by simp
  have e: "c div 64 < 4" if "c < 256" for c :: nat using that by simp
  have "(a mod 4 * 16 + b div 16) div 16 = a mod 4" if "b < 256" for a b :: nat using d [OF that] by (simp add: div_add1_eq)
  then show "a < 256 \<Longrightarrow> b < 256 \<Longrightarrow> a div 4 * 4 + (a mod 4 * 16 + b div 16) div 16 = a" by simp
  have "(a mod 4 * 16 + b div 16) mod 16 = b div 16" if "b < 256" for a b :: nat using d [OF that] by simp
  moreover have "(b mod 16 * 4 + c div 64) div 4 = b mod 16" if "c < 256" for b c :: nat using e [OF that] by simp
  ultimately show "b < 256 \<Longrightarrow> c < 256 \<Longrightarrow> (a mod 4 * 16 + b div 16) mod 16 * 16 + (b mod 16 * 4 + c div 64) div 4 = b" by simp
  have "(b mod 16 * 4 + c div 64) mod 4 = c div 64" if "c < 256" for b c :: nat using e [OF that] by simp
  then show "c < 256 \<Longrightarrow> (b mod 16 * 4 + c div 64) mod 4 * 64 + c mod 64 = c" by simp
qed

lemma base64_decode_groups: "\<forall>b \<in> set bs. b < 256 \<Longrightarrow> base64_decode (base64_groups bs) = bs"
proof (induction bs rule: base64_groups.induct)
  case (2 a)
  then show ?case using octet_joined(1) [of a 0] octet_parts(2) [of 0 a] by (simp add: sextet_value octet_parts Let_def)
next
  case (3 a b)
  then show ?case using octet_joined(2) [of b 0 a] octet_parts(3) [of 0 b] by (simp add: sextet_value octet_parts octet_joined Let_def)
next
  case (4 a b c bs)
  then show ?case using octet_joined(1) [of a b] octet_joined(2) [of b c a] octet_joined(3) [of c b]
    by (simp add: sextet_value octet_parts Let_def)
qed simp

section \<open>The calendar entry and the mail\<close>

definition generateICS :: "mail_library \<Rightarrow> (int \<Rightarrow> string) \<Rightarrow> entry \<Rightarrow> string \<Rightarrow> int \<Rightarrow> string" where
  "generateICS l ics_date e cluster createtime =
     (let wsname = e_id e; expirationtime = e_expiration e; resource = e_filesystem e;
          starttimestr = ics_date (expirationtime - 7200); expirationtimestr = ics_date expirationtime;
          createtimestr = ics_date createtime; entryhash = hash_text l wsname
      in crlf_lines
        [''BEGIN:VCALENDAR'', ''VERSION:2.0'', ''PRODID:-//HLRS Cluster Team//Workspace V2.1//EN'', ''METHOD:REQUEST'',
         ''BEGIN:VTIMEZONE'', ''TZID:Europe/Berlin'', ''BEGIN:DAYLIGHT'', ''TZOFFSETFROM:+0100'', ''TZOFFSETTO:+0200'',
         ''TZNAME:CEST'', ''DTSTART:19700329T020000'', ''RRULE:FREQ=YEARLY;BYDAY=-1SU;BYMONTH=3'', ''END:DAYLIGHT'',
         ''BEGIN:STANDARD'', ''TZOFFSETFROM:+0200'', ''TZOFFSETTO:+0100'', ''TZNAME:CET'', ''DTSTART:19701025T030000'',
         ''RRULE:FREQ=YEARLY;BYDAY=-1SU;BYMONTH=10'', ''END:STANDARD'', ''END:VTIMEZONE'',
         ''BEGIN:VEVENT'', ''CREATED:'' @ createtimestr, ''DTSTAMP:'' @ createtimestr, ''UID:587a1aa6-'' @ entryhash,
         ''DESCRIPTION:Workspace '' @ wsname @ '' will be deleted on host '' @ cluster,
         ''LOCATION:'' @ cluster @ '':'' @ resource, ''SUMMARY:Workspace '' @ wsname @ '' expires'',
         ''DTSTART;TZID=Europe/Berlin:'' @ starttimestr, ''DTEND;TZID=Europe/Berlin:'' @ expirationtimestr,
         ''LAST_MODIFIED:'' @ createtimestr, ''CLASS:PRIVATE'', ''END:VEVENT'', ''END:VCALENDAR''])"

function pieces :: "nat \<Rightarrow> string \<Rightarrow> string list" where
  "pieces n s = (if s = [] \<or> n = 0 then [] else take n s # pieces n (drop n s))"
  by pat_completeness auto
termination by (relation "measure (\<lambda>(n, s). length s)") auto

declare pieces.simps [simp del]

definition generateMail :: "mail_library \<Rightarrow> entry \<Rightarrow> string \<Rightarrow> string \<Rightarrow> string list \<Rightarrow> string \<Rightarrow> int \<Rightarrow> string io" where
  "generateMail l e ics sender mail_to cluster now =
     (let expirationtimestr = generateMailDateFormat l (e_expiration e); createtimestr = generateMailDateFormat l now
      in let_io (generateMessageID l ''ws_send_ical'') (\<lambda>messageID.
           ret (crlf_lines
             (header_lines sender (generateToHeader mail_to) (''Workspace expire on '' @ expirationtimestr) messageID createtimestr @
              [[], ''--'' @ boundary, ''Content-Type: text/plain; charset=UTF-8'', ''Content-Transfer-Encoding: 7bit'', [],
               ''Your workspace '' @ e_id e @ '' on filesystem '' @ e_filesystem e @ '' at HPC System '' @ cluster @
                 '' is going to expire '',
               [], ''--'' @ boundary, ''Content-Type: text/calendar; charset=UTF-8; method=REQUEST'',
               ''Content-Transfer-Encoding: base64'', ''Content-Disposition: attachment; filename=invite.ics'', []] @
              pieces 76 (base64Encode ics) @ [[], ''--'' @ boundary @ ''--'', []]))))"

section \<open>The tool\<close>

record ical_options =
  ic_name :: "string option"
  ic_mail :: "string option"
  ic_filesystem :: string
  ic_username :: string
  ic_config :: path

definition ical_commandline :: "'n yaml_cpp \<Rightarrow> ical_options \<Rightarrow> string \<Rightarrow> (string \<times> string) io" where
  "ical_commandline yc opts userconf =
     (case ic_name opts of
        None \<Rightarrow> exit_with 1
      | Some name \<Rightarrow>
          if \<not> isValidWorkspaceName name then exit_with 1
          else (case ic_mail opts of
             None \<Rightarrow>
               let mailaddress = uc_mailaddress (UserConfig yc userconf)
               in if length mailaddress > 0 \<and> isValidEmail mailaddress then ret (name, mailaddress) else exit_with 1
           | Some mailaddress \<Rightarrow> if \<not> isValidEmail mailaddress then exit_with 1 else ret (name, mailaddress)))"

definition ical_entries :: "ryml \<Rightarrow> config \<Rightarrow> string list \<Rightarrow> string \<Rightarrow> string \<Rightarrow> string list \<Rightarrow> entry list io" where
  "ical_entries y c fslist name userpattern grouplist =
     fold_io fslist (\<lambda>fs entrylist.
       let_io (try_database (openDB c fs)) (\<lambda>opened.
         case opened of
           None \<Rightarrow> ret entrylist
         | Some db \<Rightarrow>
             catch_io
               (let_io (matchPattern y db name userpattern grouplist False False) (\<lambda>ids.
                  fold_io ids (\<lambda>i es. let_io (readEntry y db i False) (\<lambda>e. ret (es @ [e]))) entrylist))
               (\<lambda>x. case x of DatabaseException \<Rightarrow> exit_with (- 2) | _ \<Rightarrow> throw x))) []"

definition send_invitation :: "mail_library \<Rightarrow> (int \<Rightarrow> string) \<Rightarrow> config \<Rightarrow> string \<Rightarrow> int \<Rightarrow> entry \<Rightarrow> unit io" where
  "send_invitation l ics_date c mailaddress now e =
     (let g = global c
      in if mail_from g = [] then exit_with (- 2)
         else let ics = generateICS l ics_date e (clustername g) now
              in let_io (generateMail l e ics (mail_from g) [mailaddress] (clustername g) now) (\<lambda>completeMail.
                 let_io (sendCurl l (''smtp://'' @ smtphost g) (mail_from g) [mailaddress] completeMail) (\<lambda>sent.
                   if sent then ret () else exit_with 1)))"

definition ws_send_ical :: "ryml \<Rightarrow> 'n yaml_cpp \<Rightarrow> mail_library \<Rightarrow> (int \<Rightarrow> string) \<Rightarrow> ical_options \<Rightarrow> unit io" where
  "ws_send_ical y yc l ics_date opts =
     let_io time_now (\<lambda>seed.
     let_io time_now (\<lambda>now.
     let_io own_user_conf (\<lambda>userconf.
     let_io (ical_commandline yc opts userconf) (\<lambda>(name, mailaddress).
     let_io (valid_config yc (ic_config opts)) (\<lambda>c.
     let_io (user_pattern c (ic_username opts)) (\<lambda>userpattern.
     let_io (get_io getGrouplist) (\<lambda>grouplist.
     let_io getUsername (\<lambda>caller.
       let validfs = validFilesystems c caller grouplist USE
       in if ic_filesystem opts \<noteq> [] \<and> ic_filesystem opts \<notin> set validfs then exit_with (- 3)
          else let_io (ical_entries y c (if ic_filesystem opts \<noteq> [] then [ic_filesystem opts] else validfs) name userpattern grouplist) (\<lambda>entrylist.
            case entrylist of
              [] \<Rightarrow> exit_with 1
            | [e] \<Rightarrow> send_invitation l ics_date c mailaddress now e
            | _ \<Rightarrow> exit_with 0)))))))))"

section \<open>Properties\<close>

text \<open>C26. \<open>base64Encode\<close>, for a text of any length and although the accumulator overflows, gives the encoding of RFC 4648
  in groups of three characters; decoding it returns the text; and the lines of the mail joined give it back.\<close>

theorem base64_round_trip:
  "base64Encode s = base64_groups (map of_char s) \<and> map char_of (base64_decode (base64Encode s)) = s \<and>
   concat (pieces 76 (base64Encode s)) = base64Encode s"
proof -
  have e: "base64Encode s = base64_groups (map of_char s)"
    using base64_fold [of "[]" s 0] by (simp add: base64Encode_def finish_def)
  have "base64_decode (base64_groups (map of_char s)) = map of_char s"
    by (rule base64_decode_groups) (simp add: char_value)
  moreover have "0 < n \<Longrightarrow> concat (pieces n t) = t" for n t
    by (induction n t rule: pieces.induct) (subst pieces.simps, simp)
  ultimately show ?thesis by (simp add: e comp_def)
qed

end
