(* ===== verification/Links.thy ===== *)
theory Links
  imports Search Site
begin

text \<open>
  \<open>src/src/ws_register.cpp\<close>: a directory with links to the user's workspaces, one subdirectory for each filesystem.
  Links of workspaces that are gone are removed.
\<close>

definition symlink_rule :: "path \<Rightarrow> key \<Rightarrow> world \<Rightarrow> errno + files" where
  "symlink_rule target k w =
     (case map_of (files w) k of
        Some i \<Rightarrow> Inl EEXIST
      | None \<Rightarrow> if k = [] \<or> \<not> dir_at (files w) (butlast k) then Inl ENOENT
               else Inr (fs_put k ((new_inode (Link target) 511 w)\<lparr>mode := 511\<rparr>) (files w)))"

definition fs_create_symlink :: "path \<Rightarrow> path \<Rightarrow> unit io" where
  "fs_create_symlink target link = or_throw (change_files Sys_symlink (comps link) (symlink_rule target (comps link)))"

record register_options =
  rg_directory :: path
  rg_config :: path

text \<open>The link of one entry; the lists are those of the links that are wanted and of those just made.\<close>

definition register_entry :: "ryml \<Rightarrow> database_handle \<Rightarrow> path \<Rightarrow> string \<Rightarrow> path list \<times> path list \<Rightarrow> (path list \<times> path list) io" where
  "register_entry y db fsdir i s =
     let_io (try_database (readEntry y db i False)) (\<lambda>found.
       case found of
         None \<Rightarrow> ret s
       | Some e \<Rightarrow>
           let linkpath = path_append fsdir (filename (e_workspace e)) in
           let_io (fs_exists linkpath) (\<lambda>there.
           let_io (if there then ret True else fs_is_symlink linkpath) (\<lambda>there.
             if there then ret (fst s @ [linkpath], snd s)
             else seqs_io
               [print (''creating link '' @ linkpath), fs_create_symlink (e_workspace e) linkpath]
               (ret (fst s @ [linkpath], snd s @ [linkpath])))))"

definition remove_stale :: "path \<Rightarrow> path list \<times> path list \<Rightarrow> string \<Rightarrow> unit io" where
  "remove_stale fsdir s f =
     (let fullpath = path_append fsdir f in
      let_io (fs_is_symlink fullpath) (\<lambda>link.
        if \<not> link then ret ()
        else if fullpath \<in> set (fst s) then when_io (fullpath \<notin> set (snd s)) (print (''keeping link '' @ fullpath))
        else seq_io (print (''removing link '' @ fullpath)) (let_io (fs_remove fullpath) (\<lambda>b. ret ()))))"

definition create_missing :: "path \<Rightarrow> unit io" where
  "create_missing p = let_io (fs_exists p) (\<lambda>there. if there then ret () else fs_create_directories p)"

definition register_filesystem :: "ryml \<Rightarrow> config \<Rightarrow> path \<Rightarrow> string \<Rightarrow> string list \<Rightarrow> string \<Rightarrow> unit io" where
  "register_filesystem y c directory username grouplist fs =
     (let fsdir = path_append directory fs in
      seq_io (create_missing fsdir)
        (let_io (try_database (openDB c fs)) (\<lambda>opened.
           case opened of
             None \<Rightarrow> ret ()
           | Some db \<Rightarrow>
               let_io (matchPattern y db ''*'' username grouplist False False) (\<lambda>ids.
               let_io (fold_io ids (register_entry y db fsdir) ([], [])) (\<lambda>s.
               let_io (dirEntries fsdir (username @ ''-*'') False) (\<lambda>fl.
                 for_io fl (remove_stale fsdir s)))))))"

definition ws_register :: "ryml \<Rightarrow> 'n yaml_cpp \<Rightarrow> register_options \<Rightarrow> unit io" where
  "ws_register y yc opts =
     let_io (valid_config yc (rg_config opts)) (\<lambda>c.
     let_io getUsername (\<lambda>caller.
     seq_io (create_missing (rg_directory opts))
       (let_io getUsername (\<lambda>username.
        let_io (get_io getGrouplist) (\<lambda>grouplist.
          for_io (validFilesystems c username grouplist LIST) (register_filesystem y c (rg_directory opts) username grouplist))))))"

section \<open>What a registration changes\<close>

definition links_only :: "world \<Rightarrow> world \<Rightarrow> bool" where
  "links_only w w' \<longleftrightarrow>
     (\<forall>k. map_of (files w') k = map_of (files w) k \<or>
        (case map_of (files w) k of None \<Rightarrow> True | Some i \<Rightarrow> is_link i) \<and>
        (case map_of (files w') k of None \<Rightarrow> True | Some j \<Rightarrow> is_link j \<or> is_dir j))"

lemma links_only_trans: "links_only u v \<Longrightarrow> links_only v w \<Longrightarrow> links_only u w"
  unfolding links_only_def
proof (rule allI, elim allE)
  fix k
  assume "map_of (files v) k = map_of (files u) k \<or> (case map_of (files u) k of None \<Rightarrow> True | Some i \<Rightarrow> is_link i) \<and>
      (case map_of (files v) k of None \<Rightarrow> True | Some j \<Rightarrow> is_link j \<or> is_dir j)"
    and "map_of (files w) k = map_of (files v) k \<or> (case map_of (files v) k of None \<Rightarrow> True | Some i \<Rightarrow> is_link i) \<and>
      (case map_of (files w) k of None \<Rightarrow> True | Some j \<Rightarrow> is_link j \<or> is_dir j)"
  then show "map_of (files w) k = map_of (files u) k \<or> (case map_of (files u) k of None \<Rightarrow> True | Some i \<Rightarrow> is_link i) \<and>
      (case map_of (files w) k of None \<Rightarrow> True | Some j \<Rightarrow> is_link j \<or> is_dir j)"
    by (cases "map_of (files v) k = map_of (files u) k"; cases "map_of (files w) k = map_of (files v) k") simp_all
qed

lemma links_quiet: "keeps same_files m \<Longrightarrow> keeps links_only m"
  by (auto simp: keeps_def same_files_def links_only_def)

interpretation linking: tool_relation links_only
proof
  show "links_only w w" for w by (simp add: links_only_def)
  show "links_only u v \<Longrightarrow> links_only v w \<Longrightarrow> links_only u w" for u v w by (rule links_only_trans)
qed (rule links_quiet [OF same.uid_call] links_quiet [OF same.gid_call] links_quiet [OF same.groups_call]
     links_quiet [OF same.cap_call] links_quiet [OF same.any_call] links_quiet [OF same.any_time] links_quiet [OF same.any_random]
     links_quiet [OF same.any_output] links_quiet [OF same.any_input] links_quiet [OF same.any_identity])+

lemma links_change:
  assumes "\<And>w fs k. rule w = Inr fs \<Longrightarrow> map_of fs k = map_of (files w) k \<or>
      map_of (files w) k = None \<and> (\<exists>j. map_of fs k = Some j \<and> (is_link j \<or> is_dir j))"
  shows "keeps links_only (change_files op k rule)"
  unfolding keeps_def change_files_run links_only_def
proof (intro allI)
  fix w q
  let ?w = "snd (case fault w (steps w) op k of Some t \<Rightarrow> (Done (Some (Trouble t)), snd (sys_call op k w))
     | None \<Rightarrow> (case rule (snd (sys_call op k w)) of Inl e \<Rightarrow> (Done (Some e), snd (sys_call op k w))
               | Inr fs \<Rightarrow> (Done None, (snd (sys_call op k w))\<lparr>files := fs\<rparr>)))"
  have "files (snd (sys_call op k w)) = files w" by (simp add: sys_call_def)
  then show "map_of (files ?w) q = map_of (files w) q \<or> (case map_of (files w) q of None \<Rightarrow> True | Some i \<Rightarrow> is_link i) \<and>
      (case map_of (files ?w) q of None \<Rightarrow> True | Some j \<Rightarrow> is_link j \<or> is_dir j)"
    using assms [of "snd (sys_call op k w)" _ q]
    by (cases "fault w (steps w) op k"; cases "rule (snd (sys_call op k w))") fastforce+
qed

lemma links_make: "keeps links_only (create_missing p)" "keeps links_only (fs_create_symlink t p)"
proof -
  have "keeps links_only (sys_mkdir p m)" for p m
    unfolding sys_mkdir_def
    by (rule links_change) (auto simp: mkdir_rule_def map_of_put new_inode_def is_dir_def split: option.splits if_splits)
  then have "keeps links_only (create_one p)" for p
    unfolding create_one_def or_throw_def by (intro linking.tools)
  then have "keeps links_only (fs_create_directories p)" for p
    unfolding fs_create_directories_def by (intro linking.tools)
  then show "keeps links_only (create_missing p)" unfolding create_missing_def by (intro linking.tools)
  have "keeps links_only (change_files Sys_symlink k (symlink_rule t k))" for k
    by (rule links_change) (auto simp: symlink_rule_def map_of_put new_inode_def is_link_def split: option.splits if_splits)
  then show "keeps links_only (fs_create_symlink t p)" unfolding fs_create_symlink_def or_throw_def by (intro linking.tools)
qed

lemma fs_is_symlink_Done:
  "fs_is_symlink p w = (Done True, w') \<Longrightarrow> \<exists>i. map_of (files w') (comps p) = Some i \<and> is_link i"
  by (cases "fault w (steps w) Sys_stat (comps p)"; cases "map_of (files w) (comps p)")
     (auto simp: fs_is_symlink_def fs_status_def sys_lstat_def sys_call_def io_defs split: if_splits)

lemma links_remove:
  assumes "map_of (files w) (comps p) = Some i" and "is_link i"
  shows "links_only w (snd (fs_remove p w))"
proof -
  have "\<not> is_dir i" using assms(2) by (auto simp: is_link_def is_dir_def split: kind.splits)
  then have r: "remove_rule (comps p) (files w) = Inr (fs_del (comps p) (files w))"
    using assms(1) by (simp add: remove_rule_def unlink_rule_def)
  have "files (snd (fs_remove p w)) = files w \<or> files (snd (fs_remove p w)) = fs_del (comps p) (files w)"
    by (auto simp: fs_remove_def change_files_run sys_call_def io_defs r split: option.splits)
  then show ?thesis
  proof
    assume "files (snd (fs_remove p w)) = fs_del (comps p) (files w)"
    with assms show ?thesis by (simp add: links_only_def map_of_del)
  qed (simp add: links_only_def)
qed

lemma links_stale: "keeps links_only (remove_stale fsdir s f)"
proof (rule keepsI)
  fix w r w' assume run: "remove_stale fsdir s f w = (r, w')"
  let ?p = "path_append fsdir f"
  obtain l v where l: "fs_is_symlink ?p w = (l, v)" by force
  have wv: "links_only w v" using linking.queries(6) [of ?p] l by (rule keepsD)
  have out: "links_only v (snd (print x v))" for x using linking.tool_readers(7) [of x] by (simp add: keeps_def)
  have p: "print x v = (Done (), v\<lparr>stdout := x # stdout v\<rparr>)" for x by (simp add: print_def put_io_def)
  show "links_only w w'"
  proof (cases l)
    case (Done b)
    show ?thesis
    proof (cases "b \<and> ?p \<notin> set (fst s)")
      case True
      with l Done have d: "fs_is_symlink ?p w = (Done True, v)" by simp
      from fs_is_symlink_Done [OF d] obtain i where "map_of (files v) (comps ?p) = Some i" "is_link i" by blast
      then have i: "map_of (files (v\<lparr>stdout := x # stdout v\<rparr>)) (comps ?p) = Some i" "is_link i" for x by simp_all
      have "w' = snd (fs_remove ?p (v\<lparr>stdout := (''removing link '' @ ?p) # stdout v\<rparr>))"
        using run True unfolding remove_stale_def Let_def let_io_def [of "fs_is_symlink ?p"] d
        by (auto simp: seq_io_def let_io_def ret_def p split: prod.splits outcome.splits)
      moreover have "links_only v (v\<lparr>stdout := (''removing link '' @ ?p) # stdout v\<rparr>)" using out [of "''removing link '' @ ?p"] by (simp add: p)
      ultimately show ?thesis using links_only_trans [OF wv links_only_trans [OF _ links_remove [OF i]]] by blast
    next
      case False
      then have "w' = v \<or> w' = snd (print (''keeping link '' @ ?p) v)"
        using run l Done by (cases b) (auto simp: remove_stale_def Let_def let_io_def ret_def when_io_def split: if_splits)
      then show ?thesis using wv links_only_trans [OF wv out] by blast
    qed
  qed (use run l wv in \<open>simp_all add: remove_stale_def Let_def let_io_def\<close>)
qed

section \<open>Properties\<close>

text \<open>C23. \<open>ws_register\<close> leaves every file and every directory there is as it is, whichever calls fail: only links disappear,
  and only links and directories are new.\<close>

theorem register_touches_links_only:
  assumes "map_of (files (snd (ws_register y yc opts w))) k \<noteq> map_of (files w) k"
  shows "(\<forall>i. map_of (files w) k = Some i \<longrightarrow> is_link i) \<and>
    (\<forall>j. map_of (files (snd (ws_register y yc opts w))) k = Some j \<longrightarrow> is_link j \<or> is_dir j)"
proof -
  have entry: "keeps links_only (register_entry y db fsdir i s)" for db fsdir i s
    unfolding register_entry_def Let_def seqs_io.simps
    by (intro linking.tools links_make; auto intro!: linking.tools links_make split: option.split)
  have fs: "keeps links_only (register_filesystem y c d u gs fs)" for c d u gs fs
    unfolding register_filesystem_def Let_def
    by (intro linking.tools links_make; auto intro!: linking.tools links_make entry links_stale split: option.split)
  have "keeps links_only (ws_register y yc opts)"
    unfolding ws_register_def by (intro linking.tools links_make fs)
  then have "links_only w (snd (ws_register y yc opts w))" by (simp add: keeps_def)
  then show ?thesis using assms unfolding links_only_def
    by (cases "map_of (files w) k"; cases "map_of (files (snd (ws_register y yc opts w))) k") (drule spec [of _ k], simp)+
qed

definition register_world :: world where
  "register_world = site_world 5"

definition register_run :: world where
  "register_run = snd (ws_register simple_ryml site_yaml \<lparr>rg_directory = ''/links'', rg_config = []\<rparr> register_world)"

definition register_link :: key where
  "register_link = [''links'', ''ws'', ''alice-a'']"

lemma register_touches_links_only_witness:
  "map_of (files register_run) register_link \<noteq> map_of (files register_world) register_link \<and>
   (case map_of (files register_run) register_link of None \<Rightarrow> False | Some j \<Rightarrow> is_link j \<or> is_dir j)"
proof -
  have "map_of (files register_world) register_link = None" by code_simp
  moreover have there: "map_of (files register_run) register_link \<noteq> None" by code_simp
  ultimately have d: "map_of (files register_run) register_link \<noteq> map_of (files register_world) register_link" by simp
  show ?thesis
    using d there register_touches_links_only [OF d [unfolded register_run_def]] by (auto simp: register_run_def)
qed

end
