(* ===== verification/Prepare.thy ===== *)
theory Prepare
  imports Search Site
begin

text \<open>
  \<open>src/src/ws_prepare.cpp\<close>: root creates the directories of all configured filesystems and marks the databases. What
  exists is left alone; errors of \<open>chmod\<close>, \<open>chown\<close> and of writing the mark are not noticed.
\<close>

text \<open>\<open>chmod\<close> and \<open>chown\<close> of a path, which follow links; the result is only printed.\<close>

definition change_target :: "sysop \<Rightarrow> path \<Rightarrow> (inode \<Rightarrow> inode) \<Rightarrow> unit io" where
  "change_target op p f =
     let_io (change_files op (comps p) (\<lambda>w.
       case follow 40 (files w) (comps p) of
         None \<Rightarrow> Inl ENOENT
       | Some (k, i) \<Rightarrow> Inr (fs_put k (f i) (files w)))) (\<lambda>e. ret ())"

definition prepare_dir :: "config \<Rightarrow> mode_t \<Rightarrow> path \<Rightarrow> unit io" where
  "prepare_dir c m p =
     let_io (fs_exists p) (\<lambda>there.
       if there then print ''    existed already, did not check/change permissions!''
       else seqs_io
         [catch_io (fs_create_directories p) (\<lambda>x. case x of Filesystem_error e \<Rightarrow> ret () | _ \<Rightarrow> throw x),
          change_target Sys_chmod p (\<lambda>i. i\<lparr>mode := m\<rparr>),
          change_target Sys_chown p (\<lambda>i. i\<lparr>owner := dbuid (global c), group_owner := dbgid (global c)\<rparr>)]
         (ret ()))"

definition prepare_magic :: "string \<Rightarrow> path \<Rightarrow> unit io" where
  "prepare_magic fs DBdir =
     (let magic = path_append DBdir ''.ws_db_magic'' in
      let_io (fs_exists magic) (\<lambda>there. if there then ret () else writeFile magic (fs @ [CHR 0x0A])))"

definition prepare_space :: "config \<Rightarrow> Filesystem_config \<Rightarrow> path \<Rightarrow> unit io" where
  "prepare_space c f sp =
     seqs_io
       [print (''  workspace directory: '' @ sp), prepare_dir c 493 sp,
        print (''  deleted workspace directory: '' @ path_append sp (fs_deletedPath f)),
        prepare_dir c 448 (path_append sp (fs_deletedPath f))]
       (ret ())"

definition prepare_filesystem :: "config \<Rightarrow> string \<Rightarrow> unit io" where
  "prepare_filesystem c fs =
     let_io (fs_config_or_exit c fs) (\<lambda>f.
       let DBdir = fs_database f; DBdeleted = path_append (fs_database f) (fs_deletedPath f)
       in seqs_io
            [print (''workspace: '' @ fs), print (''  DB directory: '' @ DBdir), prepare_dir c 493 DBdir,
             print (''  DB deleted directory: '' @ DBdeleted), prepare_dir c 493 DBdeleted, prepare_magic fs DBdir]
            (for_io (fs_spaces f) (prepare_space c f)))"

definition ws_prepare :: "'n yaml_cpp \<Rightarrow> path \<Rightarrow> unit io" where
  "ws_prepare yc configfile =
     let_io (get_io isRoot) (\<lambda>root.
       if \<not> root then exit_with 1
       else let_io (valid_config yc configfile) (\<lambda>c. for_io (Filesystems c) (prepare_filesystem c)))"

section \<open>What is there stays as it is\<close>

definition prepared :: "key \<Rightarrow> inode \<Rightarrow> bool" where
  "prepared k i \<longleftrightarrow> is_dir i \<or> is_reg i \<and> k \<noteq> [] \<and> last k = ''.ws_db_magic''"

text \<open>Every file is still there, unchanged, and what is new is a directory or a mark.\<close>

definition grown :: "world \<Rightarrow> world \<Rightarrow> bool" where
  "grown w v \<longleftrightarrow>
     map_of (files w) \<subseteq>\<^sub>m map_of (files v) \<and>
     (\<forall>k i. map_of (files v) k = Some i \<longrightarrow> map_of (files w) k = None \<longrightarrow> prepared k i)"

lemma grown_trans: "grown u v \<Longrightarrow> grown v w \<Longrightarrow> grown u w"
  unfolding grown_def map_le_def dom_def
  by (safe, metis (mono_tags, lifting) mem_Collect_eq option.distinct(1), metis (mono_tags, lifting) mem_Collect_eq option.exhaust option.inject)

lemma grown_quiet: "keeps same_files m \<Longrightarrow> keeps grown m"
  by (auto simp: keeps_def same_files_def grown_def)

interpretation growing: tool_relation grown
proof
  show "grown w w" for w by (simp add: grown_def)
  show "grown u v \<Longrightarrow> grown v w \<Longrightarrow> grown u w" for u v w by (rule grown_trans)
qed (rule grown_quiet [OF same.uid_call] grown_quiet [OF same.gid_call] grown_quiet [OF same.groups_call]
     grown_quiet [OF same.cap_call] grown_quiet [OF same.any_call] grown_quiet [OF same.any_time] grown_quiet [OF same.any_random]
     grown_quiet [OF same.any_output] grown_quiet [OF same.any_input] grown_quiet [OF same.any_identity])+

text \<open>A name that led nowhere can only lead to something new.\<close>

lemma follow_grown:
  "grown w v \<Longrightarrow> follow n (files w) k = None \<Longrightarrow> follow n (files v) k = Some (k', i) \<Longrightarrow>
     map_of (files w) k' = None \<and> prepared k' i"
proof (induction n arbitrary: k)
  case (Suc n)
  show ?case
  proof (cases "map_of (files w) k")
    case None
    then obtain j where j: "map_of (files v) k = Some j" using Suc.prems(3) by (auto split: option.splits)
    then have "prepared k j" using Suc.prems(1) None by (simp add: grown_def)
    then show ?thesis using j None Suc.prems(3) by (auto simp: prepared_def is_reg_def is_dir_def split: kind.splits)
  next
    case (Some j)
    then have "map_of (files v) k = Some j" using Suc.prems(1) by (force simp: grown_def map_le_def dom_def)
    then show ?thesis using Some Suc by (auto split: kind.splits)
  qed
qed simp

lemma grown_put: "grown w v \<Longrightarrow> map_of (files w) k = None \<Longrightarrow> prepared k i \<Longrightarrow> files u = fs_put k i (files v) \<Longrightarrow> grown w u"
  by (auto simp: grown_def map_le_def map_of_put dom_def split: if_splits)

lemma grown_files: "grown w v \<Longrightarrow> files u = files v \<Longrightarrow> grown w u"
  by (simp add: grown_def)

lemma change_target_grown:
  assumes "grown w v" and "follow 40 (files w) (comps p) = None" and "\<And>i. kind (f i) = kind i"
  shows "grown w (snd (change_target op p f v))"
proof -
  let ?v = "snd (sys_call op (comps p) v)"
  have v: "files ?v = files v" by (simp add: sys_call_def)
  have "grown w (?v\<lparr>files := fs_put k (f i) (files v)\<rparr>)" if "follow 40 (files v) (comps p) = Some (k, i)" for k i
    using follow_grown [OF assms(1,2) that] assms(3) by (intro grown_put [OF assms(1)]) (simp_all add: prepared_def is_reg_def is_dir_def)
  then show ?thesis
    using grown_files [OF assms(1) v] v
    by (auto simp: change_target_def let_io_def change_files_run ret_def split: option.splits sum.splits prod.splits)
qed

lemma fs_exists_cases:
  assumes "fs_exists p w = (r, v)"
  shows "files v = files w \<and> (r = Done False \<longrightarrow> follow 40 (files w) (comps p) = None)"
  using assms by (auto simp: fs_exists_def fs_status_def sys_stat_def sys_call_def io_defs split: option.splits if_splits)

lemma unless_there:
  assumes "keeps grown a" and "\<And>w :: world. follow 40 (files w) (comps p) = None \<Longrightarrow> grown w (snd (m w))"
  shows "keeps grown (let_io (fs_exists p) (\<lambda>there. if there then a else m))"
proof (rule keepsI)
  fix w r w' assume run: "let_io (fs_exists p) (\<lambda>there. if there then a else m) w = (r, w')"
  obtain t v where t: "fs_exists p w = (t, v)" by force
  note f = fs_exists_cases [OF t]
  have wv: "grown w v" using f by (simp add: grown_def)
  have "t = Done False \<Longrightarrow> grown v (snd (m v))" using f assms(2) [of v] by simp
  moreover have "grown v (snd (a v))" using assms(1) by (simp add: keeps_def)
  ultimately show "grown w w'" using run t wv grown_trans [OF wv] by (auto simp: let_io_def split: outcome.splits if_splits)
qed

lemma grown_create: "keeps grown (fs_create_directories p)"
proof -
  have "keeps grown (sys_mkdir p m)" for p m
    unfolding keeps_def sys_mkdir_def change_files_run
    by (auto simp: grown_def map_le_def map_of_put dom_def prepared_def sys_call_def mkdir_rule_def new_inode_def is_dir_def
        split: option.splits sum.splits if_splits)
  then show ?thesis
    unfolding fs_create_directories_def create_one_def or_throw_def
    by (intro growing.tools; auto intro!: growing.tools split: sum.split option.split)
qed

lemma grown_dir: "keeps grown (prepare_dir c m p)"
  unfolding prepare_dir_def
proof (rule unless_there)
  fix w :: world assume none: "follow 40 (files w) (comps p) = None"
  let ?create = "catch_io (fs_create_directories p) (\<lambda>x. case x of Filesystem_error e \<Rightarrow> ret () | _ \<Rightarrow> throw x)"
  let ?own = "\<lambda>i. i\<lparr>owner := dbuid (global c), group_owner := dbgid (global c)\<rparr>"
  have "keeps grown ?create" by (intro growing.tools grown_create; auto intro!: growing.tools split: exn.split)
  then have 1: "grown w (snd (?create w))" by (simp add: keeps_def)
  have 2: "grown w v \<Longrightarrow> grown w (snd (change_target Sys_chmod p (\<lambda>i. i\<lparr>mode := m\<rparr>) v))" for v
    by (rule change_target_grown [OF _ none]) simp_all
  have 3: "grown w v \<Longrightarrow> grown w (snd (change_target Sys_chown p ?own v))" for v
    by (rule change_target_grown [OF _ none]) simp_all
  show "grown w (snd (seqs_io [?create, change_target Sys_chmod p (\<lambda>i. i\<lparr>mode := m\<rparr>), change_target Sys_chown p ?own] (ret ()) w))"
    using 1 2 [of "snd (?create w)"] 3 [of "snd (change_target Sys_chmod p (\<lambda>i. i\<lparr>mode := m\<rparr>) (snd (?create w)))"]
    by (auto simp: seq_io_def let_io_def ret_def split: prod.splits outcome.splits)
qed (intro growing.tools)

lemma grown_magic: "keeps grown (prepare_magic fs DBdir)"
proof -
  let ?magic = "path_append DBdir ''.ws_db_magic''"
  have "grown w (snd (writeFile ?magic s w))" if none: "follow 40 (files w) (comps ?magic) = None" for w :: world and s
  proof -
    have c: "comps ?magic = comps DBdir @ [''.ws_db_magic'']" by (rule comps_append_one) (simp add: one_comp_def)
    have "ofstream_rule (comps ?magic) s (snd (sys_call Sys_open (comps ?magic) w)) = Inr fs \<Longrightarrow>
        map_of (files w) (comps ?magic) = None \<and> (\<exists>i. fs = fs_put (comps ?magic) i (files w) \<and> is_reg i)" for fs
      using none by (auto simp: ofstream_rule_def sys_call_def new_inode_def is_reg_def split: option.splits if_splits)
    then show ?thesis
      by (auto simp: writeFile_def let_io_def change_files_run ret_def grown_def prepared_def map_le_def map_of_put dom_def
          sys_call_def c split: option.splits sum.splits if_splits)
  qed
  then show ?thesis
    unfolding prepare_magic_def Let_def
    using unless_there [of "ret ()" ?magic "writeFile ?magic (fs @ [CHR 0x0A])"] by (simp add: growing.tools)
qed

section \<open>Properties\<close>

text \<open>C22. \<open>ws_prepare\<close> leaves every file and every directory there is as it is, whichever calls fail, and all it adds are
  directories and the marks of the databases.\<close>

theorem prepare_leaves_what_is_there:
  assumes "ws_prepare yc configfile w = (r, w')"
  shows "(\<forall>k i. map_of (files w) k = Some i \<longrightarrow> map_of (files w') k = Some i) \<and>
    (\<forall>k i. map_of (files w) k = None \<longrightarrow> map_of (files w') k = Some i \<longrightarrow> is_dir i \<or> is_reg i \<and> last k = ''.ws_db_magic'')"
proof -
  have "keeps grown (ws_prepare yc configfile)"
    unfolding ws_prepare_def prepare_filesystem_def prepare_space_def Let_def seqs_io.simps
    by (intro growing.tools grown_dir grown_magic)
  then have "grown w w'" using assms by (rule keepsD)
  then show ?thesis by (force simp: grown_def prepared_def map_le_def dom_def)
qed

text \<open>A site without a database: the workspaces stay, the database is created and marked.\<close>

definition bare_world :: world where
  "bare_world = (example_world
     [([''etc''], example_inode Dir), ([''etc'', ''ws.conf''], example_inode (Reg ''site'')),
      ([''ws''], example_inode Dir), ([''ws'', ''data''], example_inode (Reg ''results''))])\<lparr>cred := user_cred\<lparr>ruid := 0, euid := 0\<rparr>\<rparr>"

definition prepared_world :: world where
  "prepared_world = snd (ws_prepare site_yaml [] bare_world)"

lemma prepare_leaves_what_is_there_witness:
  "map_of (files prepared_world) [''ws'', ''data''] = Some (example_inode (Reg ''results'')) \<and>
   map_option kind (map_of (files prepared_world) [''db'', ''.ws_db_magic'']) = Some (Reg [CHR ''w'', CHR ''s'', CHR 0x0A]) \<and>
   map_option mode (map_of (files prepared_world) [''ws'', ''.removed'']) = Some 448"
proof -
  have d: "map_of (files bare_world) [''ws'', ''data''] = Some (example_inode (Reg ''results''))" by code_simp
  have r: "ws_prepare site_yaml [] bare_world = (fst (ws_prepare site_yaml [] bare_world), prepared_world)"
    by (simp add: prepared_world_def)
  have "map_option kind (map_of (files prepared_world) [''db'', ''.ws_db_magic'']) = Some (Reg [CHR ''w'', CHR ''s'', CHR 0x0A])"
    by code_simp
  moreover have "map_option mode (map_of (files prepared_world) [''ws'', ''.removed'']) = Some 448" by code_simp
  ultimately show ?thesis using prepare_leaves_what_is_there [OF r] d by simp
qed

end
