(* ===== verification/StatPool.thy ===== *)
theory StatPool
  imports Fsops WorkQueue
begin

text \<open>
  The pool of workers of \<open>src/src/ws_stat.cpp\<close> that counts what is in a workspace. Each worker has a queue of
  directories; what it does to a queue, to the shared counter and to its own result is a step, and steps of
  the workers interleave in any order. A queue is the bag its contract promises, as a list with the oldest
  item first: theory \<open>WorkQueue\<close> shows when \<open>PathWorkStealingQueue\<close> keeps that contract. A directory is the
  list of its path's components. Nobody changes the tree meanwhile.
\<close>

section \<open>Results\<close>

datatype StatResult = StatResult
  (files_found: "64 word") (softlinks_found: "64 word") (directories_found: "64 word") (bytes_found: "64 word")
  (blocks_found: "64 word")

text \<open>\<open>operator+=\<close>, which wraps around.\<close>

primrec add_result :: "StatResult \<Rightarrow> StatResult \<Rightarrow> StatResult" where
  "add_result (StatResult f s d b k) other =
     StatResult (f + files_found other) (s + softlinks_found other) (d + directories_found other)
       (b + bytes_found other) (k + blocks_found other)"

instantiation StatResult :: comm_monoid_add
begin

definition zero_StatResult :: StatResult where
  "0 = StatResult 0 0 0 0 0"

definition plus_StatResult :: "StatResult \<Rightarrow> StatResult \<Rightarrow> StatResult" where
  "a + b = add_result a b"

instance
proof
  fix a b c :: StatResult
  show "a + b + c = a + (b + c)" by (cases a; cases b; cases c) (simp add: plus_StatResult_def)
  show "a + b = b + a" by (cases a; cases b) (simp add: plus_StatResult_def)
  show "0 + a = a" by (cases a) (simp add: plus_StatResult_def zero_StatResult_def)
qed

end

text \<open>What \<open>statx\<close> says of a file, its size and its blocks; a failing call counts as an empty file.\<close>

type_synonym statx = "key \<Rightarrow> (64 word \<times> 64 word) option"

definition getfilesize :: "statx \<Rightarrow> key \<Rightarrow> 64 word \<times> 64 word" where
  "getfilesize sx k = (case sx k of None \<Rightarrow> (0, 0) | Some r \<Rightarrow> r)"

text \<open>One entry of a directory.\<close>

definition count_entry :: "statx \<Rightarrow> key \<Rightarrow> inode \<Rightarrow> StatResult" where
  "count_entry sx k i =
     (case kind i of
        Link t \<Rightarrow> StatResult 0 1 0 0 0
      | Dir \<Rightarrow> StatResult 0 0 1 0 0
      | Reg s \<Rightarrow> (case getfilesize sx k of (bytes, blocks) \<Rightarrow> StatResult 1 0 0 bytes blocks)
      | Special \<Rightarrow> 0)"

section \<open>The pool\<close>

text \<open>
  Where a worker is: at the top of its loop, trying to steal from the queue \<open>k\<close> places on, putting the rest
  of a stolen batch into its own queue, reading the counter, about to read a directory, with the entries left
  to look at, about to push a subdirectory that is counted already, and out of the loop.
\<close>

datatype worker =
    Seek | Try nat | Hold "key list" key | Check | Read key | Scan key "(string \<times> inode) list"
  | Put key key "(string \<times> inode) list" | Left

record pool =
  queues :: "key list list"
  workers :: "worker list"
  work_counter :: int
  local_results :: "StatResult list"

text \<open>What the workers find: the tree, sizes, directories whose reading may fail, and the number of items at which a push waits.\<close>

record surroundings =
  tree :: files
  sizes :: statx
  faulty :: "key \<Rightarrow> bool"
  push_limit :: nat

definition move_on :: "nat \<Rightarrow> worker \<Rightarrow> pool \<Rightarrow> pool" where
  "move_on i pc s = s\<lparr>workers := (workers s)[i := pc]\<rparr>"

definition set_queue :: "nat \<Rightarrow> key list \<Rightarrow> pool \<Rightarrow> pool" where
  "set_queue i q s = s\<lparr>queues := (queues s)[i := q]\<rparr>"

definition add_local :: "nat \<Rightarrow> StatResult \<Rightarrow> pool \<Rightarrow> pool" where
  "add_local i r s = s\<lparr>local_results := (local_results s)[i := local_results s ! i + r]\<rparr>"

definition has_room :: "surroundings \<Rightarrow> pool \<Rightarrow> nat \<Rightarrow> bool" where
  "has_room env s i \<longleftrightarrow> length (queues s ! i) < push_limit env"

text \<open>The entries of a directory, none when it is gone.\<close>

definition entries_of :: "surroundings \<Rightarrow> key \<Rightarrow> (string \<times> inode) list" where
  "entries_of env p =
     (case follow 40 (tree env) p of None \<Rightarrow> [] | Some (k, d) \<Rightarrow> if is_dir d then list_dir (tree env) k else [])"

text \<open>
  A step of worker \<open>i\<close>. When it is \<open>unlucky\<close>, the steal loses the race for the items, or reading the directory
  throws, if that can fail.
\<close>

definition worker_step :: "surroundings \<Rightarrow> nat \<Rightarrow> bool \<Rightarrow> pool \<Rightarrow> pool" where
  "worker_step env i unlucky s =
     (case workers s ! i of
        Seek \<Rightarrow>
          (let q = queues s ! i in
           if q = [] then move_on i (Try 1) s else move_on i (Read (last q)) (set_queue i (butlast q) s))
      | Try k \<Rightarrow>
          if k \<ge> length (queues s) then move_on i Check s
          else let victim = (i + k) mod length (queues s); q = queues s ! victim
               in if unlucky \<or> q = [] then move_on i (Try (k + 1)) s
                  else let n = nat (batch_size (int (length q)) 16); stolen_batch = take n q
                       in move_on i (Hold (butlast stolen_batch) (last stolen_batch)) (set_queue victim (drop n q) s)
      | Hold ps work \<Rightarrow>
          (case ps of
             [] \<Rightarrow> move_on i (Read work) s
           | p # ps \<Rightarrow> if has_room env s i then move_on i (Hold ps work) (set_queue i (queues s ! i @ [p]) s) else s)
      | Check \<Rightarrow> move_on i (if work_counter s = 0 then Left else Seek) s
      | Read work \<Rightarrow> move_on i (Scan work (if unlucky \<and> faulty env work then [] else entries_of env work)) s
      | Scan work es \<Rightarrow>
          (case es of
             [] \<Rightarrow> (move_on i Seek s)\<lparr>work_counter := work_counter s - 1\<rparr>
           | e # es \<Rightarrow>
               if unlucky \<and> faulty env work then move_on i (Scan work []) s
               else let p = work @ [fst e]; s' = add_local i (count_entry (sizes env) p (snd e)) s
                    in if is_dir (snd e) then (move_on i (Put work p es) s')\<lparr>work_counter := work_counter s + 1\<rparr>
                       else move_on i (Scan work es) s')
      | Put work p es \<Rightarrow> if has_room env s i then move_on i (Scan work es) (set_queue i (queues s ! i @ [p]) s) else s
      | Left \<Rightarrow> s)"

text \<open>The first directories, dealt out in turn; a push to a full queue waits for ever, as no worker runs yet.\<close>

definition deal_out :: "nat \<Rightarrow> nat \<Rightarrow> key list \<Rightarrow> key list list option" where
  "deal_out lim n ds =
     fold (\<lambda>(i, d) r. case r of None \<Rightarrow> None
             | Some qs \<Rightarrow> if length (qs ! (i mod n)) < lim then Some (qs[i mod n := qs ! (i mod n) @ [d]]) else None)
       (enumerate 0 ds) (Some (replicate n []))"

definition new_pool :: "key list list \<Rightarrow> pool" where
  "new_pool qs = \<lparr>queues = qs, workers = replicate (length qs) Seek, work_counter = int (sum_list (map length qs)),
     local_results = replicate (length qs) 0\<rparr>"

text \<open>A run of the pool: which worker takes a step, and whether it is unlucky.\<close>

definition run_pool :: "surroundings \<Rightarrow> (nat \<times> bool) list \<Rightarrow> pool \<Rightarrow> pool" where
  "run_pool env schedule s = fold (\<lambda>(i, unlucky) s. if i < length (workers s) then worker_step env i unlucky s else s) schedule s"

definition all_left :: "pool \<Rightarrow> bool" where
  "all_left s = list_all (\<lambda>pc. pc = Left) (workers s)"

text \<open>The states the pool can be in.\<close>

inductive pool_reached :: "surroundings \<Rightarrow> pool \<Rightarrow> pool \<Rightarrow> bool" for env s0 where
  start: "pool_reached env s0 s0"
| step: "pool_reached env s0 s \<Longrightarrow> i < length (workers s) \<Longrightarrow> pool_reached env s0 (worker_step env i unlucky s)"

lemma run_pool_reached: "pool_reached env s0 s \<Longrightarrow> pool_reached env s0 (run_pool env schedule s)"
  unfolding run_pool_def by (induction schedule arbitrary: s) (auto simp: pool_reached.step)

section \<open>What is below a directory\<close>

definition sum_below :: "(key \<Rightarrow> inode \<Rightarrow> 'a::comm_monoid_add) \<Rightarrow> files \<Rightarrow> key \<Rightarrow> 'a" where
  "sum_below f fs d = (\<Sum>x\<leftarrow>filter (\<lambda>x. below d (fst x)) fs. f (fst x) (snd x))"

definition entry_and_below :: "(key \<Rightarrow> inode \<Rightarrow> 'a::comm_monoid_add) \<Rightarrow> files \<Rightarrow> key \<Rightarrow> string \<times> inode \<Rightarrow> 'a" where
  "entry_and_below f fs d x = f (d @ [fst x]) (snd x) + (if is_dir (snd x) then sum_below f fs (d @ [fst x]) else 0)"

lemma sum_filter_distinct: "distinct (map fst fs) \<Longrightarrow> (\<Sum>x\<leftarrow>filter P fs. F x) = (\<Sum>x\<in>{x \<in> set fs. P x}. F x)"
proof -
  assume "distinct (map fst fs)"
  then have "distinct fs" by (simp add: distinct_map)
  then show ?thesis by (subst sum.distinct_set_conv_list [symmetric]) simp_all
qed

lemma below_cons: "below d k \<longleftrightarrow> (\<exists>n r. k = d @ n # r)"
proof
  show "below d k \<Longrightarrow> \<exists>n r. k = d @ n # r"
    unfolding below_def by (elim strict_prefixE') blast
qed (auto simp: below_def strict_prefix_def)

lemma not_below_file:
  assumes "tree_ok fs" and "map_of fs d = Some i" and "\<not> is_dir i" and "(k, j) \<in> set fs"
  shows "\<not> below d k"
proof
  assume "below d k"
  then obtain n r where k: "k = d @ n # r" by (auto simp: below_cons)
  have "map_of fs (d @ n # r) \<noteq> None" using assms(4) k by (metis map_of_eq_None_iff image_eqI fst_conv)
  from tree_ok_ancestors [OF assms(1) this] obtain j' where "(d @ [n], j') \<in> set fs" by (auto dest: map_of_SomeD)
  from tree_ok_entry(3) [OF assms(1) this] assms(2,3) show False
    using assms(1) \<open>(d @ [n], j') \<in> set fs\<close> by (force simp: dir_at_def tree_ok_def dest: map_of_SomeD split: if_splits)
qed

lemma below_first:
  assumes "tree_ok fs"
  shows "{x \<in> set fs. below d (fst x)} =
    (\<Union>y \<in> set (list_dir fs d). insert (d @ [fst y], snd y) (if is_dir (snd y) then {x \<in> set fs. below (d @ [fst y]) (fst x)} else {}))"
    (is "?L = ?R")
proof
  show "?R \<subseteq> ?L"
    by (auto simp: below_cons list_dir_iff split: if_splits)
  show "?L \<subseteq> ?R"
  proof
    fix x assume x: "x \<in> ?L"
    then obtain n r where k: "fst x = d @ n # r" by (auto simp: below_cons)
    have "map_of fs (d @ n # r) \<noteq> None" using x unfolding k [symmetric] by (simp add: map_of_eq_None_iff)
    from tree_ok_ancestors [OF assms this] obtain j where j: "map_of fs (d @ [n]) = Some j" by auto
    then have y: "(n, j) \<in> set (list_dir fs d)" by (simp add: list_dir_iff map_of_SomeD)
    have "x = (d @ [n], j) \<or> is_dir j \<and> x \<in> set fs \<and> below (d @ [n]) (fst x)"
    proof (cases r)
      case Nil
      have "map_of fs (fst x) = Some (snd x)" using x assms by (simp add: tree_ok_def)
      with Nil k j show ?thesis by (cases x) simp
    next
      case (Cons m s)
      then have "below (d @ [n]) (fst x)" using k by (simp add: below_cons)
      with not_below_file [OF assms j] x show ?thesis by (metis (mono_tags, lifting) mem_Collect_eq prod.collapse)
    qed
    then show "x \<in> ?R" by (intro UN_I [OF y]) auto
  qed
qed

lemma sum_below_step:
  assumes "tree_ok fs"
  shows "sum_below f fs d = (\<Sum>x\<leftarrow>list_dir fs d. entry_and_below f fs d x)"
proof -
  have dist: "distinct (map fst fs)" using assms by (simp add: tree_ok_def)
  let ?B = "\<lambda>y. insert (d @ [fst y], snd y) (if is_dir (snd y) then {x \<in> set fs. below (d @ [fst y]) (fst x)} else {})"
  have under: "x \<in> ?B y \<Longrightarrow> prefix (d @ [fst y]) (fst x)" for x y by (auto simp: below_def split: if_splits)
  have "?B y \<inter> ?B z = {}" if "y \<in> set (list_dir fs d)" "z \<in> set (list_dir fs d)" "y \<noteq> z" for y z
  proof -
    have "fst y \<noteq> fst z" using list_dir_distinct [OF assms, of d] that by (metis eq_key_imp_eq_value prod.collapse)
    then have "\<not> (prefix (d @ [fst y]) k \<and> prefix (d @ [fst z]) k)" for k by (auto simp: prefix_def)
    then show ?thesis using under by blast
  qed
  then have "(\<Sum>x\<in>{x \<in> set fs. below d (fst x)}. f (fst x) (snd x)) = (\<Sum>y\<in>set (list_dir fs d). \<Sum>x\<in>?B y. f (fst x) (snd x))"
    unfolding below_first [OF assms, of d] by (intro sum.UNION_disjoint) auto
  also have "\<dots> = (\<Sum>y\<in>set (list_dir fs d). entry_and_below f fs d y)"
  proof (rule sum.cong [OF HOL.refl])
    fix y assume "y \<in> set (list_dir fs d)"
    have "(d @ [fst y], snd y) \<notin> {x \<in> set fs. below (d @ [fst y]) (fst x)}" by (simp add: below_def)
    then show "(\<Sum>x\<in>?B y. f (fst x) (snd x)) = entry_and_below f fs d y"
      by (simp add: entry_and_below_def sum_below_def sum_filter_distinct [OF dist])
  qed
  also have "\<dots> = (\<Sum>x\<leftarrow>list_dir fs d. entry_and_below f fs d x)"
    using list_dir_distinct [OF assms, of d] by (subst sum.distinct_set_conv_list) (auto simp: distinct_map)
  finally show ?thesis unfolding sum_below_def sum_filter_distinct [OF dist] .
qed

section \<open>What is still to be done\<close>

text \<open>
  The work that is left, weighed: \<open>g\<close> for a directory somebody will read, \<open>e\<close> for an entry of a directory that is
  being read, \<open>b\<close> for being busy with one.
\<close>

fun held :: "(key \<Rightarrow> 'a) \<Rightarrow> (key \<Rightarrow> string \<times> inode \<Rightarrow> 'a) \<Rightarrow> 'a \<Rightarrow> worker \<Rightarrow> 'a::comm_monoid_add" where
  "held g e b (Hold ps work) = (\<Sum>p\<leftarrow>ps. g p) + g work"
| "held g e b (Read work) = g work"
| "held g e b (Scan work es) = b + (\<Sum>x\<leftarrow>es. e work x)"
| "held g e b (Put work p es) = b + g p + (\<Sum>x\<leftarrow>es. e work x)"
| "held g e b _ = 0"

definition load :: "(key \<Rightarrow> 'a) \<Rightarrow> (key \<Rightarrow> string \<times> inode \<Rightarrow> 'a) \<Rightarrow> 'a \<Rightarrow> pool \<Rightarrow> 'a::comm_monoid_add" where
  "load g e b s = (\<Sum>q\<leftarrow>queues s. \<Sum>p\<leftarrow>q. g p) + (\<Sum>pc\<leftarrow>workers s. held g e b pc)"

definition pool_ok :: "pool \<Rightarrow> bool" where
  "pool_ok s \<longleftrightarrow> length (queues s) = length (workers s) \<and> length (local_results s) = length (workers s)"

lemma sum_list_split:
  assumes "i < length xs"
  shows "\<exists>r. \<forall>x. (\<Sum>y\<leftarrow>xs[i := x]. f y) = r + (f x :: 'a::comm_monoid_add)"
proof -
  define ys zs where "ys = take i xs" and "zs = drop (Suc i) xs"
  have "xs[i := x] = ys @ x # zs" for x using assms by (simp add: ys_def zs_def upd_conv_take_nth_drop)
  then have "(\<Sum>y\<leftarrow>xs[i := x]. f y) = ((\<Sum>y\<leftarrow>ys. f y) + (\<Sum>y\<leftarrow>zs. f y)) + f x" for x by (simp add: ac_simps)
  then show ?thesis by blast
qed

lemma load_split:
  assumes "i < length (workers s)" and "j < length (queues s)"
  shows "\<exists>r. (\<forall>pc q. load g e b (move_on i pc (set_queue j q s)) = r + (held g e b pc + (\<Sum>p\<leftarrow>q. g p))) \<and>
    load g e b s = r + (held g e b (workers s ! i) + (\<Sum>p\<leftarrow>queues s ! j. g p))"
proof -
  obtain r where r: "\<forall>pc. (\<Sum>y\<leftarrow>(workers s)[i := pc]. held g e b y) = r + held g e b pc" using sum_list_split [OF assms(1)] by blast
  obtain t where t: "\<forall>q. (\<Sum>y\<leftarrow>(queues s)[j := q]. \<Sum>p\<leftarrow>y. g p) = t + (\<Sum>p\<leftarrow>q. g p)" using sum_list_split [OF assms(2)] by blast
  show ?thesis
    using r [rule_format, of "workers s ! i"] t [rule_format, of "queues s ! j"]
    by (intro exI [of _ "r + t"]) (simp add: load_def move_on_def set_queue_def r t ac_simps)
qed

lemma set_queue_same: "set_queue j (queues s ! j) s = s"
  by (simp add: set_queue_def)

lemma load_cong: "queues s' = queues s \<Longrightarrow> workers s' = workers s \<Longrightarrow> load g e b s' = load g e b s"
  by (simp add: load_def)

lemma sum_last: "q \<noteq> [] \<Longrightarrow> (\<Sum>p\<leftarrow>butlast q. g p) + g (last q) = (\<Sum>p\<leftarrow>q. g p :: 'a::comm_monoid_add)"
  by (induction q rule: rev_induct) auto

lemma sum_take_drop: "(\<Sum>p\<leftarrow>take n q. g p) + (\<Sum>p\<leftarrow>drop n q. g p) = (\<Sum>p\<leftarrow>q. g p :: 'a::comm_monoid_add)"
  by (metis append_take_drop_id map_append sum_list_append)

lemma batch_bounds: "q \<noteq> [] \<Longrightarrow> 1 \<le> nat (batch_size (int (length q)) 16) \<and> nat (batch_size (int (length q)) 16) \<le> 16 \<and>
    take (nat (batch_size (int (length q)) 16)) q \<noteq> []"
  by (auto simp: batch_size_def)

text \<open>What a step does to the load: only reading a directory and looking at an entry change it.\<close>

definition step_load :: "surroundings \<Rightarrow> (key \<Rightarrow> 'a) \<Rightarrow> (key \<Rightarrow> string \<times> inode \<Rightarrow> 'a) \<Rightarrow> 'a::comm_monoid_add \<Rightarrow> bool \<Rightarrow> worker \<Rightarrow> 'a \<Rightarrow> 'a \<Rightarrow> bool" where
  "step_load env g e b unlucky pc before after \<longleftrightarrow>
     (\<exists>r. case pc of
        Read work \<Rightarrow> before = r + g work \<and>
          after = r + (b + (\<Sum>x\<leftarrow>(if unlucky \<and> faulty env work then [] else entries_of env work). e work x))
      | Scan work es \<Rightarrow>
          (if es = [] then before = r + b \<and> after = r
           else if unlucky \<and> faulty env work then before = r + (\<Sum>x\<leftarrow>es. e work x) \<and> after = r
           else before = r + e work (hd es) \<and> after = r + (if is_dir (snd (hd es)) then g (work @ [fst (hd es)]) else 0))
      | _ \<Rightarrow> before = r \<and> after = r)"

lemma worker_step_load:
  assumes "i < length (workers s)" and "pool_ok s"
  shows "step_load env g e b unlucky (workers s ! i) (load g e b s) (load g e b (worker_step env i unlucky s))"
proof -
  have n: "i < length (queues s)" "j mod length (queues s) < length (queues s)" for j
    using assms by (simp_all add: pool_ok_def) (metis gr_implies_not0 mod_less_divisor neq0_conv)
  obtain r where r: "\<And>pc q. load g e b (move_on i pc (set_queue i q s)) = r + (held g e b pc + (\<Sum>p\<leftarrow>q. g p))"
      "load g e b s = r + (held g e b (workers s ! i) + (\<Sum>p\<leftarrow>queues s ! i. g p))"
    using load_split [OF assms(1) n(1)] by blast
  have m: "load g e b (move_on i pc s) = r + (held g e b pc + (\<Sum>p\<leftarrow>queues s ! i. g p))" for pc
    using r(1) [of pc "queues s ! i"] by (simp add: set_queue_same)
  have upd: "load g e b (move_on i pc s\<lparr>work_counter := c\<rparr>) = load g e b (move_on i pc s)"
    "load g e b (move_on i pc (add_local i x s)) = load g e b (move_on i pc s)"
    "load g e b (move_on i pc (add_local i x s)\<lparr>work_counter := c\<rparr>) = load g e b (move_on i pc s)" for pc c x
    by (rule load_cong; simp add: move_on_def add_local_def)+
  show ?thesis
  proof (cases "workers s ! i")
    case Seek
    then show ?thesis using r m sum_last [of "queues s ! i" g]
      by (simp add: step_load_def worker_step_def Let_def ac_simps)
  next
    case (Try k)
    let ?v = "(i + k) mod length (queues s)"
    let ?q = "queues s ! ?v"
    let ?n = "nat (batch_size (int (length ?q)) 16)"
    obtain t where t: "\<And>pc q. load g e b (move_on i pc (set_queue ?v q s)) = t + (held g e b pc + (\<Sum>p\<leftarrow>q. g p))"
        "load g e b s = t + (held g e b (workers s ! i) + (\<Sum>p\<leftarrow>?q. g p))"
      using load_split [OF assms(1) n(2)] by blast
    have "load g e b (move_on i (Hold (butlast (take ?n ?q)) (last (take ?n ?q))) (set_queue ?v (drop ?n ?q) s)) = load g e b s" if "?q \<noteq> []"
      using t Try batch_bounds [OF that] sum_last [of "take ?n ?q" g] sum_take_drop [where g = g and n = ?n and q = ?q]
      by (simp add: ac_simps)
    then show ?thesis using Try m r by (simp add: step_load_def worker_step_def Let_def)
  next
    case (Hold ps work)
    then show ?thesis using r m by (cases ps) (simp_all add: step_load_def worker_step_def ac_simps)
  next
    case Check
    then show ?thesis using r m by (simp add: step_load_def worker_step_def)
  next
    case (Read work)
    show ?thesis unfolding step_load_def using Read r m
      by (intro exI [of _ "r + (\<Sum>p\<leftarrow>queues s ! i. g p)"]) (simp add: worker_step_def ac_simps)
  next
    case (Scan work es)
    show ?thesis
    proof (cases es)
      case Nil
      show ?thesis unfolding step_load_def using Nil Scan r m upd
        by (intro exI [of _ "r + (\<Sum>p\<leftarrow>queues s ! i. g p)"]) (simp add: worker_step_def ac_simps)
    next
      case (Cons x xs)
      let ?r = "if unlucky \<and> faulty env work then r + (\<Sum>p\<leftarrow>queues s ! i. g p) + b
        else r + (\<Sum>p\<leftarrow>queues s ! i. g p) + b + (\<Sum>x\<leftarrow>xs. e work x)"
      show ?thesis unfolding step_load_def using Scan Cons r m upd
        by (intro exI [of _ ?r]) (simp add: worker_step_def Let_def ac_simps)
    qed
  next
    case (Put work p es)
    then show ?thesis using r m by (simp add: step_load_def worker_step_def ac_simps)
  next
    case Left
    then show ?thesis using r by (simp add: step_load_def worker_step_def)
  qed
qed

section \<open>Invariants\<close>

lemma worker_step_ok: "pool_ok s \<Longrightarrow> pool_ok (worker_step env i unlucky s)"
  by (simp add: worker_step_def pool_ok_def move_on_def set_queue_def add_local_def Let_def split: worker.split list.split)

text \<open>What one entry adds to the counter and to the results.\<close>

definition counter_change :: "surroundings \<Rightarrow> bool \<Rightarrow> worker \<Rightarrow> int" where
  "counter_change env unlucky pc =
     (case pc of
        Scan work es \<Rightarrow> if es = [] then - 1 else if unlucky \<and> faulty env work then 0 else if is_dir (snd (hd es)) then 1 else 0
      | _ \<Rightarrow> 0)"

definition found :: "surroundings \<Rightarrow> bool \<Rightarrow> worker \<Rightarrow> StatResult" where
  "found env unlucky pc =
     (case pc of
        Scan work es \<Rightarrow> if es = [] \<or> unlucky \<and> faulty env work then 0 else count_entry (sizes env) (work @ [fst (hd es)]) (snd (hd es))
      | _ \<Rightarrow> 0)"

lemma step_counter: "work_counter (worker_step env i unlucky s) = work_counter s + counter_change env unlucky (workers s ! i)"
  by (simp add: worker_step_def counter_change_def move_on_def set_queue_def add_local_def Let_def split: worker.split list.split)

lemma sum_add_at:
  fixes x :: "'a::comm_monoid_add"
  assumes "i < length xs"
  shows "sum_list (xs[i := xs ! i + x]) = sum_list xs + x"
proof -
  obtain r where r: "\<And>x. sum_list (xs[i := x]) = r + x" using sum_list_split [OF assms, where f = "\<lambda>x. x"] by auto
  from r [of "xs ! i"] r [of "xs ! i + x"] show ?thesis by (simp add: ac_simps)
qed

lemma step_results:
  assumes "pool_ok s" and "i < length (workers s)"
  shows "sum_list (local_results (worker_step env i unlucky s)) = sum_list (local_results s) + found env unlucky (workers s ! i)"
proof -
  have "i < length (local_results s)" using assms by (simp add: pool_ok_def)
  then show ?thesis
    by (cases "workers s ! i") (auto simp: worker_step_def found_def move_on_def set_queue_def add_local_def sum_add_at Let_def split: list.split)
qed

definition open_items :: "pool \<Rightarrow> int" where
  "open_items s = load (\<lambda>p. 1) (\<lambda>d x. 0) 1 s"

text \<open>The directories that are still to be read, also those no worker has found yet.\<close>

definition pending :: "pool \<Rightarrow> key multiset" where
  "pending s = load (\<lambda>p. {#p#}) (\<lambda>d x. if is_dir (snd x) then {#d @ [fst x]#} else {#}) {#} s"

definition real_dir :: "files \<Rightarrow> key \<Rightarrow> bool" where
  "real_dir fs d \<longleftrightarrow> (case map_of fs d of None \<Rightarrow> False | Some i \<Rightarrow> is_dir i)"

lemma entries_of_real: "real_dir (tree env) d \<Longrightarrow> entries_of env d = list_dir (tree env) d"
  by (cases "map_of (tree env) d") (auto simp: real_dir_def entries_of_def is_dir_def eval_nat_numeral)

lemma real_dir_child: "tree_ok fs \<Longrightarrow> x \<in> set (list_dir fs d) \<Longrightarrow> is_dir (snd x) \<Longrightarrow> real_dir fs (d @ [fst x])"
  using tree_ok_entry(2) [of fs d "fst x" "snd x"] list_dir_iff [of "fst x" "snd x" fs d] by (simp add: real_dir_def)

lemma counter_step:
  assumes "pool_ok s" and "i < length (workers s)" and "work_counter s = open_items s"
  shows "work_counter (worker_step env i unlucky s) = open_items (worker_step env i unlucky s)"
  using worker_step_load [OF assms(2,1), of env "\<lambda>p. 1::int" "\<lambda>d x. 0" 1 unlucky] assms(3)
  unfolding open_items_def step_counter
  by (cases "workers s ! i") (auto simp: step_load_def counter_change_def split: if_splits)

lemma pending_step:
  assumes "pool_ok s" and "i < length (workers s)" and "tree_ok (tree env)" and "\<forall>d \<in># pending s. real_dir (tree env) d"
  shows "\<forall>d \<in># pending (worker_step env i unlucky s). real_dir (tree env) d"
proof -
  let ?e = "\<lambda>d x. if is_dir (snd x) then {#d @ [fst x]#} else {#}"
  have s: "step_load env (\<lambda>p. {#p#}) ?e {#} unlucky (workers s ! i) (pending s) (pending (worker_step env i unlucky s))"
    unfolding pending_def by (rule worker_step_load [OF assms(2,1)])
  show ?thesis
  proof (cases "workers s ! i")
    case (Read work)
    with s obtain r where r: "pending s = r + {#work#}"
        "pending (worker_step env i unlucky s) = r + (\<Sum>x\<leftarrow>(if unlucky \<and> faulty env work then [] else entries_of env work). ?e work x)"
      by (auto simp: step_load_def)
    then have d: "real_dir (tree env) work" using assms(4) by simp
    have "real_dir (tree env) p" if "p \<in># (\<Sum>x\<leftarrow>xs. ?e work x)" "set xs \<subseteq> set (list_dir (tree env) work)" for p xs
      using that real_dir_child [OF assms(3), of _ work] by (induction xs) (auto split: if_splits)
    with r d assms(4) show ?thesis by (auto simp: entries_of_real split: if_splits)
  next
    case (Scan work es)
    with s assms(4) show ?thesis by (auto simp: step_load_def split: if_splits)
  qed (use s assms(4) in \<open>auto simp: step_load_def\<close>)
qed

primrec idle :: "worker \<Rightarrow> bool" where
  "idle Seek = True"
| "idle (Try k) = True"
| "idle (Hold ps work) = False"
| "idle Check = True"
| "idle (Read work) = False"
| "idle (Scan work es) = False"
| "idle (Put work p es) = False"
| "idle Left = True"

definition nothing_open :: "pool \<Rightarrow> bool" where
  "nothing_open s \<longleftrightarrow> list_all (\<lambda>q. q = []) (queues s) \<and> list_all idle (workers s)"

lemma sum_list_zero:
  fixes f :: "'a \<Rightarrow> int"
  assumes "\<And>x. 0 \<le> f x"
  shows "0 \<le> (\<Sum>x\<leftarrow>xs. f x)" "(\<Sum>x\<leftarrow>xs. f x) = 0 \<longleftrightarrow> list_all (\<lambda>x. f x = 0) xs"
proof (induction xs)
  case (Cons x xs)
  with assms [of x] show "0 \<le> (\<Sum>x\<leftarrow>x # xs. f x)" "(\<Sum>x\<leftarrow>x # xs. f x) = 0 \<longleftrightarrow> list_all (\<lambda>x. f x = 0) (x # xs)"
    by (auto simp: add_nonneg_eq_0_iff)
qed simp_all

lemma open_items_zero: "0 \<le> open_items s" "open_items s = 0 \<longleftrightarrow> nothing_open s"
proof -
  have n: "0 \<le> (\<Sum>p\<leftarrow>ps. 1 :: int)" "(\<Sum>p\<leftarrow>ps. 1 :: int) = 0 \<longleftrightarrow> ps = []" for ps :: "key list"
    by (rule sum_list_zero, simp) (subst sum_list_zero(2), simp, cases ps, simp_all)
  have h: "0 \<le> held (\<lambda>p. 1) (\<lambda>d x. 0) (1::int) pc \<and> (held (\<lambda>p. 1) (\<lambda>d x. 0) (1::int) pc = 0 \<longleftrightarrow> idle pc)" for pc
  proof (cases pc)
    case (Hold ps work)
    then show ?thesis using n(1) [of ps] by (simp del: sum_list_triv map_replicate_const)
  qed (simp_all add: sum_list_triv)
  note q = sum_list_zero [of "\<lambda>q. \<Sum>p\<leftarrow>q. 1" "queues s", OF n(1)]
  note w = sum_list_zero [of "held (\<lambda>p. 1) (\<lambda>d x. 0) 1" "workers s", OF conjunct1 [OF h]]
  show "0 \<le> open_items s" unfolding open_items_def load_def using q(1) w(1) by (rule add_nonneg_nonneg)
  show "open_items s = 0 \<longleftrightarrow> nothing_open s"
    unfolding open_items_def load_def nothing_open_def add_nonneg_eq_0_iff [OF q(1) w(1)] q(2) w(2) n(2) conjunct2 [OF h] ..
qed

lemma load_zero: "nothing_open s \<Longrightarrow> load g e b s = 0"
proof -
  assume n: "nothing_open s"
  have "(\<Sum>q\<leftarrow>queues s. \<Sum>p\<leftarrow>q. g p) = (\<Sum>q\<leftarrow>queues s. 0)" using n by (intro arg_cong [where f = sum_list] map_cong) (auto simp: nothing_open_def list_all_iff)
  moreover have "held g e b pc = 0" if "idle pc" for pc using that by (cases pc) auto
  then have "(\<Sum>pc\<leftarrow>workers s. held g e b pc) = (\<Sum>pc\<leftarrow>workers s. 0)"
    using n by (intro arg_cong [where f = sum_list] map_cong) (auto simp: nothing_open_def list_all_iff)
  ultimately show ?thesis by (simp add: load_def)
qed

text \<open>The counter is the number of open directories, and it is zero once a worker has left.\<close>

definition pool_inv :: "surroundings \<Rightarrow> pool \<Rightarrow> bool" where
  "pool_inv env s \<longleftrightarrow> pool_ok s \<and> work_counter s = open_items s \<and> (\<forall>d \<in># pending s. real_dir (tree env) d) \<and>
     (Left \<in> set (workers s) \<longrightarrow> work_counter s = 0)"

lemma step_leaves:
  assumes "i < length (workers s)" and "Left \<in> set (workers (worker_step env i unlucky s))"
  shows "Left \<in> set (workers s) \<or> work_counter s = 0"
proof -
  have "(workers s)[i := workers (worker_step env i unlucky s) ! i] = workers (worker_step env i unlucky s)"
    by (cases "workers s ! i")
       (auto simp: worker_step_def move_on_def set_queue_def add_local_def Let_def assms(1) list_update_same_conv split: list.split)
  with assms(2) have "Left \<in> set (workers s) \<or> workers (worker_step env i unlucky s) ! i = Left"
    by (metis insert_iff set_update_subset_insert subsetD)
  moreover have "workers s ! i = Left \<or> work_counter s = 0" if "workers (worker_step env i unlucky s) ! i = Left"
    using that assms(1)
    by (cases "workers s ! i") (auto simp: worker_step_def move_on_def set_queue_def add_local_def Let_def split: list.splits if_splits)
  ultimately show ?thesis using assms(1) nth_mem by metis
qed

lemma pool_inv_step:
  assumes "pool_inv env s" and "i < length (workers s)" and "tree_ok (tree env)"
  shows "pool_inv env (worker_step env i unlucky s)"
proof -
  from assms(1) have ok: "pool_ok s" and c: "work_counter s = open_items s" and p: "\<forall>d \<in># pending s. real_dir (tree env) d"
    and l: "Left \<in> set (workers s) \<Longrightarrow> work_counter s = 0" by (auto simp: pool_inv_def)
  have "work_counter (worker_step env i unlucky s) = 0" if "Left \<in> set (workers (worker_step env i unlucky s))"
  proof -
    have z: "work_counter s = 0" using step_leaves [OF assms(2) that] l by blast
    with c have "nothing_open s" by (simp add: open_items_zero(2) [symmetric])
    then have "idle (workers s ! i)" using assms(2) by (simp add: nothing_open_def list_all_length)
    with z show ?thesis unfolding step_counter by (cases "workers s ! i") (auto simp: counter_change_def)
  qed
  with worker_step_ok [OF ok] counter_step [OF ok assms(2) c] pending_step [OF ok assms(2,3) p] show ?thesis
    by (simp add: pool_inv_def)
qed

lemma pool_inv_new: "\<forall>d \<in> set (concat qs). real_dir (tree env) d \<Longrightarrow> pool_inv env (new_pool qs)"
proof -
  assume d: "\<forall>d \<in> set (concat qs). real_dir (tree env) d"
  have h: "(\<Sum>pc\<leftarrow>replicate n Seek. held g e b pc) = 0" for n g e and b :: "'a::comm_monoid_add" by (induction n) auto
  have one: "(\<Sum>p\<leftarrow>q. {#p#}) = mset q" for q :: "key list" by (induction q) auto
  have "(\<Sum>q\<leftarrow>qs. \<Sum>p\<leftarrow>q. {#p#}) = mset (concat qs)" by (induction qs) (auto simp: one)
  then have "pending (new_pool qs) = mset (concat qs)" using h by (simp add: pending_def load_def new_pool_def del: map_replicate)
  moreover have "(\<Sum>q\<leftarrow>qs. \<Sum>p\<leftarrow>q. 1 :: int) = int (sum_list (map length qs))"
    by (induction qs) (auto simp: sum_list_triv)
  then have "open_items (new_pool qs) = int (sum_list (map length qs))" using h by (simp add: open_items_def load_def new_pool_def del: map_replicate)
  ultimately show ?thesis using d by (auto simp: pool_inv_def pool_ok_def new_pool_def)
qed

lemma pool_reached_inv:
  assumes "pool_reached env s0 s" and "pool_inv env s0" and "tree_ok (tree env)"
  shows "pool_inv env s"
  using assms(1) by induction (use assms(2,3) pool_inv_step in auto)

section \<open>The result\<close>

definition count_below :: "surroundings \<Rightarrow> key \<Rightarrow> StatResult" where
  "count_below env d = sum_below (count_entry (sizes env)) (tree env) d"

definition left_to_count :: "surroundings \<Rightarrow> pool \<Rightarrow> StatResult" where
  "left_to_count env s = load (count_below env) (entry_and_below (count_entry (sizes env)) (tree env)) 0 s"

lemma pending_real:
  assumes "pool_inv env s" and "i < length (workers s)" and "workers s ! i = Read work"
  shows "real_dir (tree env) work"
  using worker_step_load [OF assms(2), of env "\<lambda>p. {#p#}" "\<lambda>d x. if is_dir (snd x) then {#d @ [fst x]#} else {#}" "{#}" False] assms(1,3)
  by (auto simp: pool_inv_def pending_def step_load_def)

text \<open>Reading a directory and looking at an entry, for a weight that a directory's entries add up to.\<close>

lemma step_below:
  fixes f :: "key \<Rightarrow> inode \<Rightarrow> 'a::comm_monoid_add"
  assumes "pool_inv env s" and "i < length (workers s)" and "tree_ok (tree env)"
    and g: "\<And>d. g d = c + sum_below f (tree env) d"
  shows "\<exists>r. case workers s ! i of
      Read work \<Rightarrow> load g (entry_and_below f (tree env)) b s = r + c + (\<Sum>x\<leftarrow>entries_of env work. entry_and_below f (tree env) work x) \<and>
        load g (entry_and_below f (tree env)) b (worker_step env i unlucky s) =
          r + b + (if unlucky \<and> faulty env work then 0 else \<Sum>x\<leftarrow>entries_of env work. entry_and_below f (tree env) work x)
    | Scan work es \<Rightarrow>
        if es = [] then load g (entry_and_below f (tree env)) b s = r + b \<and> load g (entry_and_below f (tree env)) b (worker_step env i unlucky s) = r
        else if unlucky \<and> faulty env work then
          load g (entry_and_below f (tree env)) b s = r + (\<Sum>x\<leftarrow>es. entry_and_below f (tree env) work x) \<and>
          load g (entry_and_below f (tree env)) b (worker_step env i unlucky s) = r
        else let p = work @ [fst (hd es)] in
          load g (entry_and_below f (tree env)) b s = r + f p (snd (hd es)) + (if is_dir (snd (hd es)) then sum_below f (tree env) p else 0) \<and>
          load g (entry_and_below f (tree env)) b (worker_step env i unlucky s) = r + (if is_dir (snd (hd es)) then c + sum_below f (tree env) p else 0)
    | _ \<Rightarrow> load g (entry_and_below f (tree env)) b (worker_step env i unlucky s) = load g (entry_and_below f (tree env)) b s"
proof -
  have ok: "pool_ok s" using assms(1) by (simp add: pool_inv_def)
  note l = worker_step_load [OF assms(2) ok, of env g "entry_and_below f (tree env)" b unlucky]
  show ?thesis
  proof (cases "workers s ! i")
    case (Read work)
    have "g work = c + (\<Sum>x\<leftarrow>entries_of env work. entry_and_below f (tree env) work x)"
      unfolding g entries_of_real [OF pending_real [OF assms(1,2) Read]] by (simp add: sum_below_step [OF assms(3)])
    with l Read show ?thesis by (auto simp: step_load_def add.assoc)
  next
    case (Scan work es)
    show ?thesis
    proof (cases es)
      case (Cons x xs)
      with l Scan show ?thesis
        by (auto simp: step_load_def Let_def g entry_and_below_def add.assoc split: if_splits intro!: exI)
    qed (use l Scan in \<open>auto simp: step_load_def\<close>)
  qed (use l in \<open>auto simp: step_load_def\<close>)
qed

lemma total_step:
  assumes "pool_inv env s" and "i < length (workers s)" and "tree_ok (tree env)" and "\<And>d. \<not> faulty env d"
  shows "sum_list (local_results (worker_step env i unlucky s)) + left_to_count env (worker_step env i unlucky s) =
    sum_list (local_results s) + left_to_count env s"
proof -
  have ok: "pool_ok s" using assms(1) by (simp add: pool_inv_def)
  note b = step_below [OF assms(1-3), of "count_below env" 0 "count_entry (sizes env)" 0 unlucky]
  show ?thesis unfolding step_results [OF ok assms(2)] left_to_count_def
  proof (cases "workers s ! i")
    case (Scan work es)
    show "sum_list (local_results s) + found env unlucky (workers s ! i) +
        load (count_below env) (entry_and_below (count_entry (sizes env)) (tree env)) 0 (worker_step env i unlucky s) =
      sum_list (local_results s) + load (count_below env) (entry_and_below (count_entry (sizes env)) (tree env)) 0 s"
    proof (cases es)
      case (Cons x xs)
      let ?p = "work @ [fst x]"
      let ?c = "count_entry (sizes env) ?p (snd x)" and ?d = "if is_dir (snd x) then count_below env ?p else 0"
      have "\<exists>r. load (count_below env) (entry_and_below (count_entry (sizes env)) (tree env)) 0 s = r + ?c + ?d \<and>
        load (count_below env) (entry_and_below (count_entry (sizes env)) (tree env)) 0 (worker_step env i unlucky s) = r + ?d"
        using b Scan Cons assms(4) by (cases "is_dir (snd x)") (simp_all add: count_below_def Let_def)
      with Scan Cons assms(4) show ?thesis by (auto simp: found_def ac_simps)
    qed (use b Scan in \<open>auto simp: found_def count_below_def\<close>)
  qed (use b assms(4) in \<open>auto simp: found_def count_below_def\<close>)
qed

text \<open>The invariant of the totals, from the start of the pool on.\<close>

lemma total_reached:
  assumes "pool_reached env s0 s" and "pool_inv env s0" and "tree_ok (tree env)" and "\<And>d. \<not> faulty env d"
  shows "sum_list (local_results s) + left_to_count env s = sum_list (local_results s0) + left_to_count env s0"
  using assms(1)
proof induction
  case (step s i unlucky)
  show ?case
    using total_step [OF pool_reached_inv [OF step.hyps(1) assms(2,3)] step.hyps(2) assms(3,4)] step.IH by simp
qed simp

lemma idle_sum: "(\<Sum>pc\<leftarrow>replicate n Seek. held g e b pc) = 0"
  by (induction n) auto

lemma new_pool_load: "load g e b (new_pool qs) = (\<Sum>d\<leftarrow>concat qs. g d)"
proof -
  have "(\<Sum>q\<leftarrow>qs. \<Sum>p\<leftarrow>q. g p) = (\<Sum>d\<leftarrow>concat qs. g d)" by (induction qs) auto
  then show ?thesis using idle_sum [of g e b "length qs"] by (simp add: load_def new_pool_def del: map_replicate)
qed

lemma new_pool_results: "sum_list (local_results (new_pool qs)) = 0"
  unfolding new_pool_def by (induction qs) auto

lemma all_left_open: "pool_inv env s \<Longrightarrow> all_left s \<Longrightarrow> workers s \<noteq> [] \<Longrightarrow> nothing_open s"
  by (cases "workers s") (auto simp: pool_inv_def all_left_def simp flip: open_items_zero(2))

lemma pool_total:
  assumes "pool_reached env (new_pool qs) s" and "\<forall>d \<in> set (concat qs). real_dir (tree env) d" and "tree_ok (tree env)"
    and "\<And>d. \<not> faulty env d" and "all_left s" and "qs \<noteq> []"
  shows "sum_list (local_results s) = (\<Sum>d\<leftarrow>concat qs. count_below env d)"
proof -
  have len: "workers s \<noteq> []" using assms(1)
  proof induction
    case (step s i unlucky)
    have "length (workers (worker_step env i unlucky s)) = length (workers s)"
      by (simp add: worker_step_def move_on_def set_queue_def add_local_def Let_def split: worker.split list.split)
    with step show ?case by force
  qed (use assms(6) in \<open>simp add: new_pool_def\<close>)
  note inv = pool_reached_inv [OF assms(1) pool_inv_new [OF assms(2)] assms(3)]
  have "left_to_count env s = 0" unfolding left_to_count_def by (rule load_zero [OF all_left_open [OF inv assms(5) len]])
  then show ?thesis
    using total_reached [OF assms(1) pool_inv_new [OF assms(2)] assms(3,4)]
    by (simp add: new_pool_results) (simp add: left_to_count_def new_pool_load)
qed

section \<open>Going on to the end\<close>

text \<open>The directories that are queued, to be queued or to be found; a queue is no longer than that.\<close>

definition directories_left :: "surroundings \<Rightarrow> pool \<Rightarrow> nat" where
  "directories_left env s = load (\<lambda>d. 1 + sum_below (\<lambda>k i. if is_dir i then 1 else 0) (tree env) d)
     (entry_and_below (\<lambda>k i. if is_dir i then 1 else 0) (tree env)) 0 s"

definition work_left :: "surroundings \<Rightarrow> pool \<Rightarrow> nat" where
  "work_left env s = load (\<lambda>d. 2 + sum_below (\<lambda>k i. 3) (tree env) d) (entry_and_below (\<lambda>k i. 3) (tree env)) 1 s"

lemma weight_step:
  fixes f :: "key \<Rightarrow> inode \<Rightarrow> nat"
  assumes "pool_inv env s" and "i < length (workers s)" and "tree_ok (tree env)"
    and g: "\<And>d. g d = c + sum_below f (tree env) d" and "b \<le> c" and "\<And>k i. is_dir i \<Longrightarrow> c \<le> f k i"
  shows "load g (entry_and_below f (tree env)) b (worker_step env i unlucky s) \<le> load g (entry_and_below f (tree env)) b s"
    and "workers s ! i = Read work \<and> b < c \<or> workers s ! i = Scan work es \<and> \<not> (unlucky \<and> faulty env work) \<and> 0 < b \<and> (\<forall>k i. (if is_dir i then c else 0) < f k i) \<Longrightarrow>
      load g (entry_and_below f (tree env)) b (worker_step env i unlucky s) < load g (entry_and_below f (tree env)) b s"
proof -
  note s = step_below [OF assms(1-3) g, of b unlucky]
  have d: "is_dir i \<Longrightarrow> c + x \<le> f k i + x" for k i x using assms(6) by simp
  show "load g (entry_and_below f (tree env)) b (worker_step env i unlucky s) \<le> load g (entry_and_below f (tree env)) b s"
  proof (cases "workers s ! i")
    case (Scan work es)
    then show ?thesis using s d [of "snd (hd es)" _ "work @ [fst (hd es)]"] by (auto simp: Let_def split: if_splits)
  qed (use s assms(5) in auto)
  show "load g (entry_and_below f (tree env)) b (worker_step env i unlucky s) < load g (entry_and_below f (tree env)) b s"
    if h: "workers s ! i = Read work \<and> b < c \<or> workers s ! i = Scan work es \<and> \<not> (unlucky \<and> faulty env work) \<and> 0 < b \<and> (\<forall>k i. (if is_dir i then c else 0) < f k i)"
    using h
  proof (elim disjE conjE)
    assume w: "workers s ! i = Scan work es" "\<not> (unlucky \<and> faulty env work)" "0 < b" and f: "\<forall>k i. (if is_dir i then c else 0) < f k i"
    moreover have "(if is_dir (snd (hd es)) then c else 0) < f (work @ [fst (hd es)]) (snd (hd es))" using f by blast
    ultimately show ?thesis using s by (auto simp: Let_def split: if_splits)
  qed (use s in auto)
qed

lemma directories_step:
  assumes "pool_inv env s" and "i < length (workers s)" and "tree_ok (tree env)"
  shows "directories_left env (worker_step env i unlucky s) \<le> directories_left env s"
  unfolding directories_left_def by (rule weight_step(1) [OF assms]) auto

text \<open>Every step of a worker that reads or looks at entries gets some work done, the others do not add any.\<close>

lemma work_step:
  assumes "pool_inv env s" and "i < length (workers s)" and "tree_ok (tree env)"
  shows "work_left env (worker_step env i unlucky s) \<le> work_left env s"
    and "workers s ! i = Read work \<or> workers s ! i = Scan work es \<and> \<not> (unlucky \<and> faulty env work) \<Longrightarrow>
      work_left env (worker_step env i unlucky s) < work_left env s"
proof -
  show "work_left env (worker_step env i unlucky s) \<le> work_left env s"
    unfolding work_left_def by (rule weight_step(1) [OF assms, where c = 2]) simp_all
  assume h: "workers s ! i = Read work \<or> workers s ! i = Scan work es \<and> \<not> (unlucky \<and> faulty env work)"
  show "work_left env (worker_step env i unlucky s) < work_left env s"
    unfolding work_left_def
    by (rule weight_step(2) [OF assms, where c = 2 and work = work and es = es]) (use h in auto)
qed

text \<open>
  When no work gets done, a worker is nearer to reading a directory, or nearer to looking at its queue again,
  or, with nothing left, nearer to leaving.
\<close>

primrec rank :: "worker \<Rightarrow> nat" where
  "rank Seek = 17"
| "rank (Try k) = 17"
| "rank (Hold ps work) = 1 + length ps"
| "rank Check = 17"
| "rank (Read work) = 0"
| "rank (Scan work es) = 0"
| "rank (Put work p es) = 1"
| "rank Left = 0"

primrec distance :: "worker \<Rightarrow> nat \<Rightarrow> bool \<Rightarrow> nat" where
  "distance Seek n finished = (if finished then n + 2 else 0)"
| "distance (Try k) n finished = n - k + 2"
| "distance (Hold ps work) n finished = 0"
| "distance Check n finished = 1"
| "distance (Read work) n finished = 0"
| "distance (Scan work es) n finished = 0"
| "distance (Put work p es) n finished = 0"
| "distance Left n finished = 0"

definition pool_measure :: "surroundings \<Rightarrow> pool \<Rightarrow> nat \<times> nat \<times> nat" where
  "pool_measure env s = (work_left env s, (\<Sum>pc\<leftarrow>workers s. rank pc),
     (\<Sum>pc\<leftarrow>workers s. distance pc (length (workers s)) (work_counter s = 0)))"

definition nearer :: "((nat \<times> nat \<times> nat) \<times> nat \<times> nat \<times> nat) set" where
  "nearer = less_than <*lex*> less_than <*lex*> less_than"

lemma sum_list_decreases:
  fixes f :: "'a \<Rightarrow> nat"
  assumes "i < length xs"
  shows "f x < f (xs ! i) \<Longrightarrow> (\<Sum>y\<leftarrow>xs[i := x]. f y) < (\<Sum>y\<leftarrow>xs. f y)"
    and "f x = f (xs ! i) \<Longrightarrow> (\<Sum>y\<leftarrow>xs[i := x]. f y) = (\<Sum>y\<leftarrow>xs. f y)"
proof -
  obtain r where "\<And>x. (\<Sum>y\<leftarrow>xs[i := x]. f y) = r + f x" using sum_list_split [OF assms] by blast
  from this [of x] this [of "xs ! i"]
  show "f x < f (xs ! i) \<Longrightarrow> (\<Sum>y\<leftarrow>xs[i := x]. f y) < (\<Sum>y\<leftarrow>xs. f y)"
    "f x = f (xs ! i) \<Longrightarrow> (\<Sum>y\<leftarrow>xs[i := x]. f y) = (\<Sum>y\<leftarrow>xs. f y)" by simp_all
qed

lemma nearer_step:
  assumes "pool_inv env s" and "i < length (workers s)" and "tree_ok (tree env)"
    and w: "workers (worker_step env i unlucky s) = (workers s)[i := pc]"
    and "rank pc < rank (workers s ! i) \<or> rank pc = rank (workers s ! i) \<and> work_counter (worker_step env i unlucky s) = work_counter s \<and>
      distance pc (length (workers s)) (work_counter s = 0) < distance (workers s ! i) (length (workers s)) (work_counter s = 0)"
  shows "(pool_measure env (worker_step env i unlucky s), pool_measure env s) \<in> nearer"
  using work_step(1) [OF assms(1-3), of unlucky] assms(5)
    sum_list_decreases [OF assms(2), of rank pc]
    sum_list_decreases(1) [OF assms(2), of "\<lambda>pc. distance pc (length (workers s)) (work_counter s = 0)" pc]
  by (auto simp: nearer_def pool_measure_def w)

text \<open>A queue is shorter than the number of directories as long as its owner has one to push.\<close>

lemma load_part:
  fixes g :: "key \<Rightarrow> nat"
  assumes "pool_ok s" and "i < length (workers s)"
  shows "(\<Sum>p\<leftarrow>queues s ! i. g p) + held g e b (workers s ! i) \<le> load g e b s"
proof -
  have "i < length (queues s)" using assms by (simp add: pool_ok_def)
  with load_split [OF assms(2), of i g e b] obtain r where
    "load g e b s = r + (held g e b (workers s ! i) + (\<Sum>p\<leftarrow>queues s ! i. g p))" by blast
  then show ?thesis by simp
qed

lemma room_to_push:
  assumes "pool_ok s" and "i < length (workers s)" and "directories_left env s \<le> push_limit env"
    and "(\<exists>p ps work. workers s ! i = Hold (p # ps) work) \<or> (\<exists>work p es. workers s ! i = Put work p es)"
  shows "has_room env s i"
proof -
  let ?g = "\<lambda>d. 1 + sum_below (\<lambda>k i. if is_dir i then 1 else 0) (tree env) d"
  have "length q \<le> (\<Sum>p\<leftarrow>q. ?g p)" for q by (induction q) auto
  moreover have "0 < held ?g (entry_and_below (\<lambda>k i. if is_dir i then 1 else 0) (tree env)) (0 :: nat) (workers s ! i)"
    using assms(4) by auto
  ultimately show ?thesis
    using load_part [OF assms(1,2), of ?g "entry_and_below (\<lambda>k i. if is_dir i then 1 else 0) (tree env)" 0] assms(3)
    unfolding has_room_def directories_left_def by (meson add_less_cancel_left le_trans less_le_trans add_le_cancel_right not_less le_less_trans less_add_same_cancel1)
qed

lemma step_workers:
  assumes "i < length (workers s)" and "\<not> (\<exists>p ps work. workers s ! i = Hold (p # ps) work) \<and> \<not> (\<exists>work p es. workers s ! i = Put work p es) \<or> has_room env s i"
  shows "workers (worker_step env i unlucky s) = (workers s)[i := workers (worker_step env i unlucky s) ! i]"
    and "length (workers (worker_step env i unlucky s)) = length (workers s)"
proof -
  show l: "length (workers (worker_step env i unlucky s)) = length (workers s)"
    by (simp add: worker_step_def move_on_def set_queue_def add_local_def Let_def split: worker.split list.split)
  have "(workers s)[i := workers (worker_step env i unlucky s) ! i] = workers (worker_step env i unlucky s)"
    using assms by (cases "workers s ! i")
       (auto simp: worker_step_def move_on_def set_queue_def add_local_def Let_def list_update_same_conv split: list.split)
  then show "workers (worker_step env i unlucky s) = (workers s)[i := workers (worker_step env i unlucky s) ! i]" by simp
qed

lemma busy_step:
  assumes "pool_inv env s" and "i < length (workers s)" and "tree_ok (tree env)" and "directories_left env s \<le> push_limit env"
    and "\<not> idle (workers s ! i)"
  shows "(pool_measure env (worker_step env i False s), pool_measure env s) \<in> nearer"
proof (cases "(\<exists>work. workers s ! i = Read work) \<or> (\<exists>work es. workers s ! i = Scan work es)")
  case True
  then have "work_left env (worker_step env i False s) < work_left env s" using work_step(2) [OF assms(1-3)] by blast
  then show ?thesis by (simp add: nearer_def pool_measure_def)
next
  case False
  have ok: "pool_ok s" using assms(1) by (simp add: pool_inv_def)
  have room: "has_room env s i" if "(\<exists>p ps work. workers s ! i = Hold (p # ps) work) \<or> (\<exists>work p es. workers s ! i = Put work p es)"
    by (rule room_to_push [OF ok assms(2,4) that])
  have "rank (workers (worker_step env i False s) ! i) < rank (workers s ! i)"
    using False assms(2,5) room
    by (cases "workers s ! i") (auto simp: worker_step_def move_on_def set_queue_def split: list.splits)
  with room step_workers(1) [OF assms(2), of env False] show ?thesis
    by (intro nearer_step [OF assms(1-3)]) blast+
qed

lemma idle_step:
  assumes "pool_inv env s" and "i < length (workers s)" and "tree_ok (tree env)" and "idle (workers s ! i)" and "workers s ! i \<noteq> Left"
    and "queues s ! i \<noteq> [] \<and> work_counter s \<noteq> 0 \<or> work_counter s = 0 \<and> queues s ! i = []"
  shows "(pool_measure env (worker_step env i True s), pool_measure env s) \<in> nearer"
proof -
  have ok: "length (queues s) = length (workers s)" using assms(1) by (simp add: pool_inv_def pool_ok_def)
  have c: "work_counter (worker_step env i True s) = work_counter s"
    unfolding step_counter using assms(4) by (cases "workers s ! i") (auto simp: counter_change_def)
  have "rank (workers (worker_step env i True s) ! i) < rank (workers s ! i) \<or>
      rank (workers (worker_step env i True s) ! i) = rank (workers s ! i) \<and>
      distance (workers (worker_step env i True s) ! i) (length (workers s)) (work_counter s = 0) <
        distance (workers s ! i) (length (workers s)) (work_counter s = 0)"
    using assms(2,4-6) ok
    by (cases "workers s ! i") (auto simp: worker_step_def move_on_def set_queue_def Let_def split: if_splits)
  moreover have "workers (worker_step env i True s) = (workers s)[i := workers (worker_step env i True s) ! i]"
    using assms(4) by (intro step_workers(1) [OF assms(2)]) auto
  ultimately show ?thesis using c by (intro nearer_step [OF assms(1-3)]) blast+
qed

lemma somebody_goes_on:
  assumes "pool_inv env s" and "tree_ok (tree env)" and "directories_left env s \<le> push_limit env" and "\<not> all_left s"
  shows "\<exists>i unlucky. i < length (workers s) \<and> (pool_measure env (worker_step env i unlucky s), pool_measure env s) \<in> nearer"
proof (cases "list_all idle (workers s)")
  case False
  then obtain i where "i < length (workers s)" "\<not> idle (workers s ! i)" by (auto simp: list_all_length)
  with busy_step [OF assms(1) _ assms(2,3)] show ?thesis by blast
next
  case idle: True
  have ok: "length (queues s) = length (workers s)" and c: "work_counter s = open_items s"
    and l: "Left \<in> set (workers s) \<Longrightarrow> work_counter s = 0" using assms(1) by (auto simp: pool_inv_def pool_ok_def)
  show ?thesis
  proof (cases "work_counter s = 0")
    case True
    then have q: "list_all (\<lambda>q. q = []) (queues s)" using c open_items_zero(2) [of s] by (simp add: nothing_open_def)
    from assms(4) obtain i where "i < length (workers s)" "workers s ! i \<noteq> Left" by (auto simp: all_left_def list_all_length)
    moreover from this q ok have "queues s ! i = []" "idle (workers s ! i)" using idle by (simp_all add: list_all_length)
    ultimately show ?thesis using idle_step [OF assms(1) _ assms(2)] True by blast
  next
    case False
    with c idle have "\<not> list_all (\<lambda>q. q = []) (queues s)" using open_items_zero(2) [of s] by (simp add: nothing_open_def)
    then obtain i where i: "i < length (workers s)" "queues s ! i \<noteq> []" using ok by (auto simp: list_all_length)
    moreover have "workers s ! i \<noteq> Left" using l False i(1) nth_mem by metis
    moreover have "idle (workers s ! i)" using idle i(1) by (simp add: list_all_length)
    ultimately show ?thesis using idle_step [OF assms(1) _ assms(2)] False by blast
  qed
qed

lemma can_finish:
  assumes "pool_inv env s" and "tree_ok (tree env)" and "directories_left env s \<le> push_limit env"
  shows "\<exists>schedule. all_left (run_pool env schedule s)"
proof -
  have "wf nearer" by (auto simp: nearer_def)
  then show ?thesis using assms(1,3)
  proof (induction "pool_measure env s" arbitrary: s rule: wf_induct_rule)
    case (less s)
    show ?case
    proof (cases "all_left s")
      case True
      then show ?thesis by (intro exI [of _ "[]"]) (simp add: run_pool_def)
    next
      case False
      from somebody_goes_on [OF less.prems(1) assms(2) less.prems(2) False] obtain i unlucky where
        i: "i < length (workers s)" "(pool_measure env (worker_step env i unlucky s), pool_measure env s) \<in> nearer" by blast
      from less.hyps [OF i(2) pool_inv_step [OF less.prems(1) i(1) assms(2)]]
        directories_step [OF less.prems(1) i(1) assms(2), of unlucky] less.prems(2)
      obtain schedule where "all_left (run_pool env schedule (worker_step env i unlucky s))" by force
      then show ?thesis using i(1) by (intro exI [of _ "(i, unlucky) # schedule"]) (simp add: run_pool_def)
    qed
  qed
qed

section \<open>Workers that wait for each other\<close>

text \<open>
  A worker that has to push more directories than its queue takes waits until somebody steals; if all of them do,
  nobody is left to steal.
\<close>

definition subdirectories :: "(string \<times> inode) list \<Rightarrow> nat" where
  "subdirectories es = length (filter (\<lambda>x. is_dir (snd x)) es)"

definition swamped_worker :: "nat \<Rightarrow> key \<Rightarrow> key list \<Rightarrow> worker \<Rightarrow> bool" where
  "swamped_worker lim d q pc \<longleftrightarrow>
     (case pc of
        Seek \<Rightarrow> q = [d]
      | Read work \<Rightarrow> work = d \<and> q = []
      | Scan work es \<Rightarrow> lim < length q + subdirectories es \<and> length q \<le> lim
      | Put work p es \<Rightarrow> lim < length q + 1 + subdirectories es \<and> length q \<le> lim
      | _ \<Rightarrow> False)"

definition swamped :: "surroundings \<Rightarrow> key list \<Rightarrow> pool \<Rightarrow> bool" where
  "swamped env ds s \<longleftrightarrow> length (queues s) = length ds \<and> length (workers s) = length ds \<and>
     (\<forall>i < length ds. swamped_worker (push_limit env) (ds ! i) (queues s ! i) (workers s ! i))"

lemma swamped_step:
  assumes "swamped env ds s" and "i < length (workers s)" and "\<And>d. \<not> faulty env d"
    and "\<forall>d \<in> set ds. push_limit env < subdirectories (entries_of env d)"
  shows "swamped env ds (worker_step env i unlucky s)"
proof -
  let ?s = "worker_step env i unlucky s"
  have len: "i < length ds" "length (queues s) = length ds" "length (workers s) = length ds"
    and here: "swamped_worker (push_limit env) (ds ! i) (queues s ! i) (workers s ! i)"
    using assms(1,2) by (auto simp: swamped_def)
  have d: "push_limit env < subdirectories (entries_of env (ds ! i))" using assms(4) len(1) by simp
  have "(queues s)[i := queues ?s ! i] = queues ?s \<and> (workers s)[i := workers ?s ! i] = workers ?s \<and>
      swamped_worker (push_limit env) (ds ! i) (queues ?s ! i) (workers ?s ! i)"
    using here d len assms(3)
    by (cases "workers s ! i")
       (auto simp: swamped_worker_def worker_step_def move_on_def set_queue_def add_local_def Let_def has_room_def subdirectories_def
          list_update_same_conv split: list.splits if_splits)
  moreover have "swamped_worker (push_limit env) (ds ! j) (queues s ! j) (workers s ! j)" if "j < length ds" for j
    using assms(1) that by (simp add: swamped_def)
  ultimately show ?thesis using len unfolding swamped_def by (metis length_list_update nth_list_update_neq)
qed

lemma swamped_reached:
  assumes "pool_reached env (new_pool (map (\<lambda>d. [d]) ds)) s" and "\<And>d. \<not> faulty env d"
    and "\<forall>d \<in> set ds. push_limit env < subdirectories (entries_of env d)"
  shows "swamped env ds s"
  using assms(1)
proof induction
  case start
  show ?case by (simp add: swamped_def new_pool_def swamped_worker_def)
qed (use assms(2,3) swamped_step in blast)

lemma swamped_no_worker_leaves: "swamped env ds s \<Longrightarrow> Left \<notin> set (workers s)"
proof
  assume s: "swamped env ds s" and "Left \<in> set (workers s)"
  then obtain i where "i < length ds" "workers s ! i = Left" by (auto simp: in_set_conv_nth swamped_def)
  with s show False by (force simp: swamped_def swamped_worker_def)
qed

section \<open>Properties\<close>

text \<open>The counter detects the end: whatever the order of the steps, the steals that fail and the directories that
  cannot be read, once a worker has left its loop no directory is queued, held or being read by anybody.\<close>

theorem workers_leave_last:
  assumes "pool_reached env (new_pool qs) s" and "tree_ok (tree env)" and "\<forall>d \<in> set (concat qs). real_dir (tree env) d"
    and "Left \<in> set (workers s)"
  shows "list_all (\<lambda>q. q = []) (queues s) \<and> list_all idle (workers s) \<and> work_counter s = 0"
  using pool_reached_inv [OF assms(1) pool_inv_new [OF assms(3)] assms(2)] assms(4) open_items_zero(2) [of s]
  by (simp add: pool_inv_def nothing_open_def)

definition two_workers :: surroundings where
  "two_workers = \<lparr>tree = example_tree, sizes = (\<lambda>k. None), faulty = (\<lambda>d. True), push_limit = 922\<rparr>"

definition early_schedule :: "(nat \<times> bool) list" where
  "early_schedule = [(0, False), (0, True), (0, True), (1, False), (1, True), (1, False), (1, False)]"

lemma workers_leave_last_witness:
  "list_all idle (workers (run_pool two_workers early_schedule (new_pool [[[''ws'', ''a'']], []])))"
proof -
  let ?s = "run_pool two_workers early_schedule (new_pool [[[''ws'', ''a'']], []])"
  have r: "pool_reached two_workers (new_pool [[[''ws'', ''a'']], []]) ?s" by (rule run_pool_reached [OF pool_reached.start])
  have t: "tree_ok (tree two_workers)" by code_simp
  have d: "\<forall>d \<in> set (concat [[[''ws'', ''a'']], []]). real_dir (tree two_workers) d" by code_simp
  have l: "Left \<in> set (workers ?s)"
    by (simp add: early_schedule_def two_workers_def run_pool_def new_pool_def worker_step_def move_on_def set_queue_def)
  show ?thesis using workers_leave_last [OF r t d l] by blast
qed

end
