(* ===== verification/Entries.thy ===== *)
theory Entries
  imports Search
begin

text \<open>
  What the listing tools share (\<open>ws_list\<close>, \<open>ws_stat\<close>): the number of threads, the filesystems that are looked at
  and the order of the entries.
\<close>

section \<open>Threads\<close>

text \<open>\<open>std::stoul\<close>: a negative number wraps around; \<open>None\<close> is one of its exceptions.\<close>

definition stoul :: "string \<Rightarrow> int option" where
  "stoul s =
     (case leading_number s of
        None \<Rightarrow> None
      | Some v \<Rightarrow> if \<bar>v\<bar> < 2 ^ 64 then Some (v mod 2 ^ 64) else None)"

text \<open>
  The option, else the variable \<open>WS_THREADS\<close> of the environment, else the number of processors; the result of
  \<open>stoul\<close> is cut to an \<open>unsigned int\<close>.
\<close>

definition thread_count :: "nat \<Rightarrow> string option \<Rightarrow> nat \<Rightarrow> nat" where
  "thread_count given env_threads hardware_concurrency =
     (let default = (if hardware_concurrency = 0 then 1 else hardware_concurrency) in
      if given \<noteq> 0 then given
      else (case env_threads of
              None \<Rightarrow> default
            | Some s \<Rightarrow>
                if s = [] then default
                else (case stoul s of
                        None \<Rightarrow> default
                      | Some v \<Rightarrow> let n = nat (v mod 2 ^ 32) in if n = 0 then 1 else n)))"

lemma thread_count_pos: "0 < thread_count given env hw"
  by (simp add: thread_count_def Let_def split: option.split)

section \<open>Filesystems\<close>

definition listed_filesystems :: "string \<Rightarrow> string list \<Rightarrow> string list" where
  "listed_filesystems filesystem validfs =
     (if filesystem \<noteq> [] then if filesystem \<in> set validfs then [filesystem] else [] else validfs)"

section \<open>Order\<close>

text \<open>
  \<open>std::sort\<close> and \<open>std::reverse\<close>. The order of equal elements is not specified: \<open>ties\<close> is the order in which they
  are left, a rearrangement. The remaining time is the expiration less the time, the same for all entries.
\<close>

datatype sort_by = By_remaining | By_creation | By_name | Unsorted

definition sorting :: "bool \<Rightarrow> bool \<Rightarrow> bool \<Rightarrow> sort_by" where
  "sorting remaining creation name =
     (if remaining then By_remaining else if creation then By_creation else if name then By_name else Unsorted)"

definition sort_entries :: "(entry list \<Rightarrow> entry list) \<Rightarrow> sort_by \<Rightarrow> entry list \<Rightarrow> entry list" where
  "sort_entries ties by es =
     (case by of
        By_remaining \<Rightarrow> sort_key e_expiration (ties es)
      | By_creation \<Rightarrow> sort_key e_creation (ties es)
      | By_name \<Rightarrow> sort_key e_id (ties es)
      | Unsorted \<Rightarrow> es)"

end
