(* ===== verification/Stat.thy ===== *)
theory Stat
  imports StatPool Entries Site
begin

text \<open>
  \<open>src/src/ws_stat.cpp\<close>: the count of one workspace, with the pool of theory \<open>StatPool\<close>, and the tool. The way the
  threads are scheduled is an argument, as is what \<open>statx\<close> answers and which directories cannot be read by the
  workers. A count that does not come to an end with the given schedule is \<open>None\<close>.
\<close>

section \<open>One workspace\<close>

text \<open>The first level is read by the caller; an exception leaves what was counted so far.\<close>

definition collect_level :: "statx \<Rightarrow> path \<Rightarrow> StatResult \<Rightarrow> (StatResult \<times> key list) io" where
  "collect_level sx path result =
     let_io (fs_is_directory path) (\<lambda>d.
       if \<not> d then ret (result, [])
       else catch_io
         (let_io (fs_directory_iterator path) (\<lambda>entries.
            ret (fold (\<lambda>e (result, subdirs).
                let p = comps path @ [fst e]
                in (result + count_entry sx p (snd e), if is_dir (snd e) then subdirs @ [p] else subdirs)) entries (result, []))))
         (\<lambda>x. ret (result, [])))"

definition pool_limit :: nat where
  "pool_limit = nat (limit (new_queue DEFAULT_CAPACITY 0 :: key queue))"

definition stat_workspace :: "statx \<Rightarrow> (key \<Rightarrow> bool) \<Rightarrow> (nat \<times> bool) list \<Rightarrow> nat \<Rightarrow> path \<Rightarrow> StatResult option io" where
  "stat_workspace sx bad schedule worker_count wspath =
     let_io (fs_is_directory wspath) (\<lambda>d.
       if \<not> d then ret (Some 0)
       else let_io (catch_io (collect_level sx wspath 0) (\<lambda>x. ret (0, []))) (\<lambda>(result, subdirs).
         if subdirs = [] then ret (Some result)
         else get_io (\<lambda>w.
           case deal_out pool_limit worker_count subdirs of
             None \<Rightarrow> None
           | Some worker_queues \<Rightarrow>
               let env = \<lparr>tree = files w, sizes = sx, faulty = bad, push_limit = pool_limit\<rparr>;
                   s = run_pool env schedule (new_pool worker_queues)
               in if all_left s then Some (result + sum_list (local_results s)) else None)))"

section \<open>The tool\<close>

record stat_options =
  st_filesystem :: string
  st_user :: string
  st_config :: path
  st_pattern :: string
  st_groupname :: bool
  st_name :: bool
  st_creation :: bool
  st_remaining :: bool
  st_reverted :: bool
  st_threads :: nat

text \<open>Large numbers as the locale writes them, and \<open>utils::prettyBytes\<close>, which uses floating point.\<close>

record number_format =
  grouped :: "64 word \<Rightarrow> string"
  prettyBytes :: "64 word \<Rightarrow> string"

definition isqrt :: "nat \<Rightarrow> nat" where
  "isqrt n = length (filter (\<lambda>k. k * k \<le> n) [1..<Suc n])"

definition stat_threads :: "nat \<Rightarrow> nat" where
  "stat_threads n = (if n < 4 then 4 else n)"

text \<open>The threads for each of several workspaces that are counted at once.\<close>

definition nested_threads :: "nat \<Rightarrow> nat" where
  "nested_threads threads = (let n = isqrt threads; n = (if n < 2 then 2 else n) in if n > threads then threads else n)"

definition print_result :: "number_format \<Rightarrow> entry \<Rightarrow> StatResult \<Rightarrow> unit io" where
  "print_result nf e r =
     seqs_io
       [print (''Id: '' @ e_id e),
        print (''    workspace directory : '' @ e_workspace e @ '' ''),
        print (''    files               : '' @ show_nat (unat (files_found r))),
        print (''    softlinks           : '' @ show_nat (unat (softlinks_found r))),
        print (''    directories         : '' @ show_nat (unat (directories_found r))),
        print (''    bytes               : '' @ grouped nf (bytes_found r) @ '' ('' @ prettyBytes nf (bytes_found r) @ '')''),
        print (''    blocks              : '' @ grouped nf (blocks_found r))]
       (ret ())"

definition stat_entries :: "ryml \<Rightarrow> config \<Rightarrow> stat_options \<Rightarrow> string list \<Rightarrow> string \<Rightarrow> string list \<Rightarrow> entry list io" where
  "stat_entries y c opts fslist userpattern grouplist =
     fold_io fslist (\<lambda>fs entrylist.
       let_io (try_database (openDB c fs)) (\<lambda>opened.
         case opened of
           None \<Rightarrow> ret entrylist
         | Some db \<Rightarrow>
             let_io (matchPattern y db (if st_pattern opts = [] then ''*'' else st_pattern opts) userpattern grouplist False (st_groupname opts)) (\<lambda>matches.
             fold_io matches (\<lambda>i es.
               let_io (try_database (readEntry y db i False)) (\<lambda>r.
                 ret (case r of None \<Rightarrow> es | Some e \<Rightarrow> es @ [e]))) entrylist))) []"

text \<open>The workspaces one after the other; the tool hangs, and prints nothing more, when one of them does not come to an end.\<close>

definition stat_all :: "statx \<Rightarrow> (key \<Rightarrow> bool) \<Rightarrow> (path \<Rightarrow> (nat \<times> bool) list) \<Rightarrow> number_format \<Rightarrow> nat \<Rightarrow> entry list \<Rightarrow> bool io" where
  "stat_all sx bad schedules nf workers_each es =
     fold_io es (\<lambda>e going.
       if \<not> going then ret False
       else let_io (stat_workspace sx bad (schedules (e_workspace e)) workers_each (e_workspace e)) (\<lambda>result.
         case result of
           None \<Rightarrow> ret False
         | Some r \<Rightarrow> seq_io (print_result nf e r) (ret True))) True"

definition ws_stat :: "ryml \<Rightarrow> 'n yaml_cpp \<Rightarrow> statx \<Rightarrow> (key \<Rightarrow> bool) \<Rightarrow> (path \<Rightarrow> (nat \<times> bool) list) \<Rightarrow> number_format \<Rightarrow>
    (entry list \<Rightarrow> entry list) \<Rightarrow> string option \<Rightarrow> nat \<Rightarrow> stat_options \<Rightarrow> bool io" where
  "ws_stat y yc sx bad schedules nf order env_threads hardware_concurrency opts =
     (let threads = stat_threads (thread_count (st_threads opts) env_threads hardware_concurrency);
          by = sorting (st_remaining opts) (st_creation opts) (st_name opts)
      in let_io (valid_config yc (st_config opts)) (\<lambda>c.
         let_io getUsername (\<lambda>username.
         let_io (user_pattern c (st_user opts)) (\<lambda>userpattern.
         let_io (get_io getGrouplist) (\<lambda>grouplist.
         let_io (stat_entries y c opts (listed_filesystems (st_filesystem opts) (validFilesystems c username grouplist LIST)) userpattern grouplist) (\<lambda>entrylist.
           let sorted_list = sort_entries order by entrylist;
               entrylist = (if st_reverted opts then rev sorted_list else sorted_list)
           in if by = Unsorted \<and> length entrylist > 1
              then stat_all sx bad schedules nf (nested_threads threads) (order entrylist)
              else stat_all sx bad schedules nf threads entrylist))))))"

section \<open>The count without failing calls\<close>

definition level_result :: "statx \<Rightarrow> key \<Rightarrow> (string \<times> inode) list \<Rightarrow> StatResult" where
  "level_result sx k es = (\<Sum>x\<leftarrow>es. count_entry sx (k @ [fst x]) (snd x))"

definition level_dirs :: "key \<Rightarrow> (string \<times> inode) list \<Rightarrow> key list" where
  "level_dirs k es = map (\<lambda>x. k @ [fst x]) (filter (\<lambda>x. is_dir (snd x)) es)"

lemma level_fold:
  "fold (\<lambda>e (result, subdirs).
      let p = k @ [fst e] in (result + count_entry sx p (snd e), if is_dir (snd e) then subdirs @ [p] else subdirs)) es (r, ds) =
    (r + level_result sx k es, ds @ level_dirs k es)"
  by (induction es arbitrary: r ds) (auto simp: level_result_def level_dirs_def Let_def ac_simps)

definition counted :: "statx \<Rightarrow> (key \<Rightarrow> bool) \<Rightarrow> (nat \<times> bool) list \<Rightarrow> nat \<Rightarrow> files \<Rightarrow> key \<Rightarrow> StatResult option" where
  "counted sx bad schedule n fs k =
     (let es = list_dir fs k; result = level_result sx k es in
      if level_dirs k es = [] then Some result
      else (case deal_out pool_limit n (level_dirs k es) of
              None \<Rightarrow> None
            | Some qs \<Rightarrow>
                let s = run_pool \<lparr>tree = fs, sizes = sx, faulty = bad, push_limit = pool_limit\<rparr> schedule (new_pool qs)
                in if all_left s then Some (result + sum_list (local_results s)) else None))"

lemma stat_workspace_run:
  assumes "no_faults w" and "map_of (files w) (comps p) = Some i" and "is_dir i"
  shows "\<exists>w'. stat_workspace sx bad schedule n p w = (Done (counted sx bad schedule n (files w) (comps p)), w')"
proof -
  have f: "fault w = (\<lambda>n op k. None)" using assms(1) by (simp add: no_faults_def)
  have d: "follow 40 (files w) (comps p) = Some (comps p, i)" using assms(2,3) by (simp add: eval_nat_numeral is_dir_def)
  have dir: "fs_is_directory p v = (Done True, v\<lparr>steps := Suc (steps v), trace := (euid (cred v), Sys_stat, comps p) # trace v\<rparr>)"
    if "files v = files w" "fault v = fault w" for v
    using that d assms(3) f by (simp add: fs_is_directory_def fs_status_def sys_stat_def sys_call_def io_defs)
  have iter: "fs_directory_iterator p v =
      (Done (list_dir (files w) (comps p)), v\<lparr>steps := Suc (steps v), trace := (euid (cred v), Sys_readdir, comps p) # trace v\<rparr>)"
    if "files v = files w" "fault v = fault w" for v
    using that d assms(3) f by (simp add: fs_directory_iterator_def sys_call_def io_defs)
  show ?thesis
    by (simp add: stat_workspace_def collect_level_def counted_def io_defs dir iter level_fold [unfolded Let_def] Let_def split: option.split)
qed

lemma deal_out_bag:
  assumes "deal_out lim n ds = Some qs" and "0 < n"
  shows "length qs = n \<and> mset (concat qs) = mset ds"
proof -
  let ?f = "\<lambda>(i, d) r. case r of None \<Rightarrow> None
    | Some qs \<Rightarrow> if length (qs ! (i mod n)) < lim then Some (qs[i mod n := qs ! (i mod n) @ [d]]) else None"
  have none: "fold ?f xs None = None" for xs :: "(nat \<times> key) list" by (induction xs) auto
  have put: "mset (concat (qs[j := qs ! j @ [d]])) = add_mset d (mset (concat qs))" if "j < length qs" for qs :: "key list list" and j d
  proof -
    have "concat (qs[j := qs ! j @ [d]]) = concat (take j qs) @ (qs ! j @ [d]) @ concat (drop (Suc j) qs)"
      using that by (simp add: upd_conv_take_nth_drop)
    moreover have "concat qs = concat (take j qs) @ qs ! j @ concat (drop (Suc j) qs)"
      using that by (metis concat_append concat.simps(2) id_take_nth_drop)
    ultimately show ?thesis by simp
  qed
  have "fold ?f (enumerate k ds) (Some qs0) = Some qs \<Longrightarrow> length qs0 = n \<Longrightarrow> length qs = n \<and> mset (concat qs) = mset (concat qs0) + mset ds" for k qs0
  proof (induction ds arbitrary: k qs0)
    case (Cons d ds)
    then show ?case using assms(2) by (auto simp: none put split: if_splits)
  qed simp
  from this [of 0 "replicate n []"] assms(1) show ?thesis by (simp add: deal_out_def)
qed

lemma deal_out_room:
  assumes "length ds \<le> lim" and "0 < n"
  shows "deal_out lim n ds \<noteq> None"
proof -
  let ?f = "\<lambda>(i, d) r. case r of None \<Rightarrow> None
    | Some qs \<Rightarrow> if length (qs ! (i mod n)) < lim then Some (qs[i mod n := qs ! (i mod n) @ [d]]) else None"
  have "length qs0 = n \<Longrightarrow> \<forall>q \<in> set qs0. length q + length ds \<le> lim \<Longrightarrow> fold ?f (enumerate k ds) (Some qs0) \<noteq> None" for k and qs0 :: "key list list"
  proof (induction ds arbitrary: k qs0)
    case (Cons d ds)
    have k: "k mod n < n" using assms(2) by simp
    with Cons.prems have "length (qs0 ! (k mod n)) + length (d # ds) \<le> lim" by (metis nth_mem)
    then have l: "length (qs0 ! (k mod n)) < lim" by simp
    have "\<forall>q \<in> set (qs0[k mod n := qs0 ! (k mod n) @ [d]]). length q + length ds \<le> lim"
    proof
      fix q assume "q \<in> set (qs0[k mod n := qs0 ! (k mod n) @ [d]])"
      then have "q \<in> set qs0 \<or> q = qs0 ! (k mod n) @ [d]" by (metis insert_iff set_update_subset_insert subsetD)
      then show "length q + length ds \<le> lim" using Cons.prems(2) \<open>length (qs0 ! (k mod n)) + length (d # ds) \<le> lim\<close> by auto
    qed
    with Cons.IH [of "qs0[k mod n := qs0 ! (k mod n) @ [d]]" "Suc k"] Cons.prems(1) l show ?case by simp
  qed simp
  from this [of "replicate n []" 0] assms show ?thesis by (simp add: deal_out_def)
qed

lemma deal_out_one_each: "0 < lim \<Longrightarrow> deal_out lim (length ds) ds = Some (map (\<lambda>d. [d]) ds)"
proof -
  assume lim: "0 < lim"
  let ?f = "\<lambda>(i, d) r. case r of None \<Rightarrow> None
    | Some qs \<Rightarrow> if length (qs ! (i mod length ds)) < lim then Some (qs[i mod length ds := qs ! (i mod length ds) @ [d]]) else None"
  have "fold ?f (enumerate (length as) bs) (Some (map (\<lambda>d. [d]) as @ replicate (length bs) [])) = Some (map (\<lambda>d. [d]) (as @ bs))"
    if "length as + length bs = length ds" for as bs
    using that
  proof (induction bs arbitrary: as)
    case (Cons b bs)
    from Cons.prems have m: "length as mod length ds = length as" by simp
    have "(map (\<lambda>d. [d]) as @ replicate (length (b # bs)) []) [length as := [b]] = map (\<lambda>d. [d]) (as @ [b]) @ replicate (length bs) []"
      by (simp add: list_update_append)
    moreover have "(map (\<lambda>d. [d]) as @ replicate (length (b # bs)) []) ! length as = []" by (simp add: nth_append)
    ultimately show ?case using Cons.IH [of "as @ [b]"] Cons.prems lim m by simp
  qed simp
  from this [of "[]" ds] show ?thesis by (simp add: deal_out_def)
qed

lemma pool_limit_value: "pool_limit = 922"
  by (simp add: pool_limit_def limit_def new_queue_def DEFAULT_CAPACITY_def)

lemma level_dirs_real:
  assumes "tree_ok fs" and "d \<in> set (level_dirs k (list_dir fs k))"
  shows "real_dir fs d"
  using real_dir_child [OF assms(1)] assms(2) by (auto simp: level_dirs_def)

lemma level_dirs_length: "length (level_dirs k es) = (\<Sum>x\<leftarrow>es. if is_dir (snd x) then 1 else 0)"
  by (induction es) (auto simp: level_dirs_def)

lemma level_sum:
  "(\<Sum>x\<leftarrow>es. entry_and_below f fs k x) = (\<Sum>x\<leftarrow>es. f (k @ [fst x]) (snd x)) + (\<Sum>d\<leftarrow>level_dirs k es. sum_below f fs d)"
  by (induction es) (auto simp: entry_and_below_def level_dirs_def ac_simps)

lemma sum_list_same_bag: "mset xs = mset ys \<Longrightarrow> (\<Sum>x\<leftarrow>xs. f x) = (\<Sum>x\<leftarrow>ys. f x :: 'a::comm_monoid_add)"
proof -
  have "(\<Sum>x\<leftarrow>xs. f x) = sum_mset (image_mset f (mset xs))" for xs by (simp only: mset_map [symmetric] sum_mset_sum_list)
  then show "mset xs = mset ys \<Longrightarrow> ?thesis" by simp
qed

lemma counted_total:
  assumes "tree_ok fs" and "\<And>d. \<not> bad d" and "0 < n" and "counted sx bad schedule n fs k = Some r"
  shows "r = sum_below (count_entry sx) fs k"
proof (cases "level_dirs k (list_dir fs k) = []")
  case True
  with assms(4) show ?thesis
    by (simp add: counted_def Let_def sum_below_step [OF assms(1), of _ k] level_sum level_result_def)
next
  case False
  let ?env = "\<lparr>tree = fs, sizes = sx, faulty = bad, push_limit = pool_limit\<rparr>"
  from assms(4) False obtain qs where qs: "deal_out pool_limit n (level_dirs k (list_dir fs k)) = Some qs"
    and left: "all_left (run_pool ?env schedule (new_pool qs))"
    and r: "r = level_result sx k (list_dir fs k) + sum_list (local_results (run_pool ?env schedule (new_pool qs)))"
    by (auto simp: counted_def Let_def split: option.splits if_splits)
  from deal_out_bag [OF qs assms(3)] have bag: "mset (concat qs) = mset (level_dirs k (list_dir fs k))" and ne: "qs \<noteq> []"
    using assms(3) by auto
  have real: "\<forall>d \<in> set (concat qs). real_dir (tree ?env) d"
    using level_dirs_real [OF assms(1)] mset_eq_setD [OF bag] by auto
  have "sum_list (local_results (run_pool ?env schedule (new_pool qs))) = (\<Sum>d\<leftarrow>concat qs. count_below ?env d)"
    by (rule pool_total [OF run_pool_reached [OF pool_reached.start] real]) (use assms(1,2) left ne in auto)
  also have "\<dots> = (\<Sum>d\<leftarrow>level_dirs k (list_dir fs k). sum_below (count_entry sx) fs d)"
    unfolding sum_list_same_bag [OF bag] by (simp add: count_below_def [abs_def])
  finally show ?thesis unfolding r by (simp add: sum_below_step [OF assms(1), of _ k] level_sum level_result_def)
qed

lemma counted_ends:
  assumes "tree_ok fs" and "0 < n" and "sum_below (\<lambda>k i. if is_dir i then 1 else 0) fs k \<le> pool_limit"
  shows "\<exists>more r. counted sx bad (schedule @ more) n fs k = Some r"
proof (cases "level_dirs k (list_dir fs k) = []")
  case True
  then show ?thesis by (simp add: counted_def Let_def)
next
  case False
  let ?env = "\<lparr>tree = fs, sizes = sx, faulty = bad, push_limit = pool_limit\<rparr>"
  let ?dirs = "level_dirs k (list_dir fs k)" and ?one = "\<lambda>k i. if is_dir i then 1 else 0 :: nat"
  have total: "sum_below ?one fs k = length ?dirs + (\<Sum>d\<leftarrow>?dirs. sum_below ?one fs d)"
    by (simp add: sum_below_step [OF assms(1), of _ k] level_sum level_dirs_length)
  with assms(3) have "length ?dirs \<le> pool_limit" by simp
  with deal_out_room [OF _ assms(2)] obtain qs where qs: "deal_out pool_limit n ?dirs = Some qs" by blast
  from deal_out_bag [OF qs assms(2)] have bag: "mset (concat qs) = mset ?dirs" by simp
  have real: "\<forall>d \<in> set (concat qs). real_dir (tree ?env) d"
    using level_dirs_real [OF assms(1)] mset_eq_setD [OF bag] by auto
  have t: "tree_ok (tree ?env)" using assms(1) by simp
  have "(\<Sum>d\<leftarrow>ds. 1 + sum_below ?one fs d) = length ds + (\<Sum>d\<leftarrow>ds. sum_below ?one fs d)" for ds by (induction ds) auto
  then have start: "directories_left ?env (new_pool qs) \<le> push_limit ?env"
    using total assms(3) mset_eq_length [OF bag] by (simp add: directories_left_def new_pool_load sum_list_same_bag [OF bag] del: sum_list_addf)
  let ?s = "run_pool ?env schedule (new_pool qs)"
  have r: "pool_reached ?env (new_pool qs) ?s" by (rule run_pool_reached [OF pool_reached.start])
  have "directories_left ?env s \<le> push_limit ?env" if "pool_reached ?env (new_pool qs) s" for s
    using that
  proof induction
    case (step s i unlucky)
    show ?case
      by (rule order.trans [OF directories_step [OF pool_reached_inv [OF step.hyps(1) pool_inv_new [OF real] t] step.hyps(2) t] step.IH])
  qed (rule start)
  from can_finish [OF pool_reached_inv [OF r pool_inv_new [OF real] t] t this [OF r]] obtain more
    where "all_left (run_pool ?env more ?s)" by blast
  then have "all_left (run_pool ?env (schedule @ more) (new_pool qs))" by (simp add: run_pool_def)
  with False qs show ?thesis by (intro exI [of _ more]) (simp add: counted_def Let_def)
qed

section \<open>Properties\<close>





text \<open>C28. A workspace with as many first-level directories as there are workers, each with more than 922 subdirectories, is
  never counted: every worker waits for room in its own queue, and nobody is left who could steal from one.\<close>

theorem stat_hangs_on_wide_directories:
  assumes "no_faults w" and "tree_ok (files w)" and "map_of (files w) (comps p) = Some i" and "is_dir i" and "\<forall>d. \<not> bad d"
    and "n = length (level_dirs (comps p) (list_dir (files w) (comps p)))" and "0 < n"
    and "\<forall>d \<in> set (level_dirs (comps p) (list_dir (files w) (comps p))). 922 < subdirectories (list_dir (files w) d)"
  shows "fst (stat_workspace sx bad schedule n p w) = Done None"
proof -
  let ?ds = "level_dirs (comps p) (list_dir (files w) (comps p))"
  let ?env = "\<lparr>tree = files w, sizes = sx, faulty = bad, push_limit = pool_limit\<rparr>"
  let ?s = "run_pool ?env schedule (new_pool (map (\<lambda>d. [d]) ?ds))"
  have wide: "\<forall>d \<in> set ?ds. push_limit ?env < subdirectories (entries_of ?env d)"
    using assms(8) level_dirs_real [OF assms(2)] by (simp add: pool_limit_value entries_of_real)
  have ok: "\<And>d. \<not> faulty ?env d" using assms(5) by simp
  have sw: "swamped ?env ?ds ?s" by (rule swamped_reached [OF run_pool_reached [OF pool_reached.start] ok wide])
  then have "workers ?s \<noteq> []" using assms(6,7) by (auto simp: swamped_def)
  then have "\<not> all_left ?s" using swamped_no_worker_leaves [OF sw] by (cases "workers ?s") (auto simp: all_left_def)
  moreover have "deal_out pool_limit n ?ds = Some (map (\<lambda>d. [d]) ?ds)"
    unfolding assms(6) by (rule deal_out_one_each) (simp add: pool_limit_value)
  ultimately have "counted sx bad schedule n (files w) (comps p) = None" using assms(6,7) by (simp add: counted_def Let_def)
  then show ?thesis using stat_workspace_run [OF assms(1,3,4), of sx bad schedule n] by auto
qed

definition wide_tree :: files where
  "wide_tree =
     [([''ws''], example_inode Dir), ([''ws'', ''a''], example_inode Dir), ([''ws'', ''b''], example_inode Dir)] @
     map (\<lambda>j. ([''ws'', ''a'', show_nat j], example_inode Dir)) [0..<923] @
     map (\<lambda>j. ([''ws'', ''b'', show_nat j], example_inode Dir)) [0..<923]"

lemma show_nat_valid: "valid_comp (show_nat j)"
  using show_nat_digits [of j] show_nat_no_slash [of j] by (auto simp: valid_comp_def real_comp_def is_digit_def list_all_iff)

lemma wide_tree_ok: "tree_ok wide_tree"
proof -
  have "valid_comp ''ws''" "valid_comp ''a''" "valid_comp ''b''" by code_simp+
  moreover have "distinct (map fst wide_tree)"
    unfolding wide_tree_def by (auto simp: distinct_map inj_on_def num_simps)
  moreover have "dir_at wide_tree []" "dir_at wide_tree [''ws'']" "dir_at wide_tree [''ws'', ''a'']" "dir_at wide_tree [''ws'', ''b'']"
    by (simp_all add: dir_at_def wide_tree_def is_dir_def example_inode_def)
  ultimately show ?thesis by (auto simp: tree_ok_def wide_tree_def show_nat_valid butlast_append)
qed

lemma stat_hangs_on_wide_directories_witness:
  "\<forall>schedule. fst (stat_workspace (\<lambda>k. None) (\<lambda>d. False) schedule 2 ''/ws'' (example_world wide_tree)) = Done None"
proof (intro allI, rule stat_hangs_on_wide_directories)
  have f: "files (example_world wide_tree) = wide_tree" and c: "comps ''/ws'' = [''ws'']" by (simp add: example_world_def) code_simp
  have one: "filter (\<lambda>e. child_of [''ws''] (fst e)) (map (\<lambda>j. ([''ws'', x, show_nat j], i)) js) = []" for x i js
    by (induction js) (simp_all add: child_of_def)
  have same: "filter (\<lambda>e. child_of [''ws'', x] (fst e)) (map (\<lambda>j. ([''ws'', x, show_nat j], i)) js) =
      map (\<lambda>j. ([''ws'', x, show_nat j], i)) js" for x i js by (induction js) (simp_all add: child_of_def)
  have other: "x \<noteq> y \<Longrightarrow> filter (\<lambda>e. child_of [''ws'', x] (fst e)) (map (\<lambda>j. ([''ws'', y, show_nat j], i)) js) = []" for x y i js
    by (induction js) (simp_all add: child_of_def)
  have l: "list_dir wide_tree [''ws''] = [(''a'', example_inode Dir), (''b'', example_inode Dir)]"
    unfolding list_dir_def wide_tree_def filter_append one by (simp add: child_of_def)
  have sub: "list_dir wide_tree [''ws'', ''a''] = map (\<lambda>j. (show_nat j, example_inode Dir)) [0..<923]"
    "list_dir wide_tree [''ws'', ''b''] = map (\<lambda>j. (show_nat j, example_inode Dir)) [0..<923]"
    unfolding list_dir_def wide_tree_def filter_append same by (simp_all add: other child_of_def comp_def)
  have n: "subdirectories (map (\<lambda>j. (show_nat j, example_inode Dir)) js) = length js" for js
    by (induction js) (simp_all add: subdirectories_def is_dir_def example_inode_def)
  have d: "level_dirs [''ws''] (list_dir wide_tree [''ws'']) = [[''ws'', ''a''], [''ws'', ''b'']]"
    by (simp add: l level_dirs_def is_dir_def example_inode_def)
  show "no_faults (example_world wide_tree)" by (simp add: no_faults_def example_world_def)
  show "tree_ok (files (example_world wide_tree))" unfolding f by (rule wide_tree_ok)
  show "map_of (files (example_world wide_tree)) (comps ''/ws'') = Some (example_inode Dir)" unfolding f c by (simp add: wide_tree_def)
  show "is_dir (example_inode Dir)" by (simp add: is_dir_def example_inode_def)
  show "2 = length (level_dirs (comps ''/ws'') (list_dir (files (example_world wide_tree)) (comps ''/ws'')))"
    unfolding f c d by simp
  show "\<forall>d \<in> set (level_dirs (comps ''/ws'') (list_dir (files (example_world wide_tree)) (comps ''/ws''))).
      922 < subdirectories (list_dir (files (example_world wide_tree)) d)"
    unfolding f c d using sub n by simp
qed simp_all

end
