(* ===== verification/Find.thy ===== *)
theory Find
  imports Search Site
begin

text \<open>
  \<open>src/src/ws_find.cpp\<close>: the path of a workspace. The first entry that can be read ends the search.
\<close>

record find_options =
  fi_filesystem :: string
  fi_user :: string
  fi_name :: string
  fi_group :: bool
  fi_config :: path

text \<open>Errors of the database are skipped for a single entry; every other exception ends the tool.\<close>

definition find_in :: "ryml \<Rightarrow> database_handle \<Rightarrow> find_options \<Rightarrow> string \<Rightarrow> string list \<Rightarrow> unit io" where
  "find_in y db opts userpattern grouplist =
     catch_io
       (let_io (matchPattern y db (fi_name opts) userpattern grouplist False (fi_group opts)) (\<lambda>ids.
          for_io ids (\<lambda>i.
            let_io (try_database (readEntry y db i False)) (\<lambda>found.
              case found of
                None \<Rightarrow> ret ()
              | Some e \<Rightarrow> seq_io (print (e_workspace e)) (exit_with 0)))))
       (\<lambda>x. exit_with (- 2))"

definition ws_find :: "ryml \<Rightarrow> 'n yaml_cpp \<Rightarrow> find_options \<Rightarrow> unit io" where
  "ws_find y yc opts =
     (if fi_name opts = [] then exit_with (- 4)
      else let_io (valid_config yc (fi_config opts)) (\<lambda>c.
        let_io getUsername (\<lambda>username.
        let_io (user_pattern c (fi_user opts)) (\<lambda>userpattern.
        let_io (get_io getGrouplist) (\<lambda>grouplist.
          let validfs = validFilesystems c username grouplist USE
          in if fi_filesystem opts \<noteq> [] \<and> fi_filesystem opts \<notin> set validfs then exit_with (- 3)
             else seq_io
               (for_io (if fi_filesystem opts \<noteq> [] then [fi_filesystem opts] else validfs) (\<lambda>fs.
                  let_io (try_database (openDB c fs)) (\<lambda>opened.
                    case opened of None \<Rightarrow> ret () | Some db \<Rightarrow> find_in y db opts userpattern grouplist)))
               (exit_with (- 1)))))))"

section \<open>A search without failing calls\<close>

definition calm :: "world \<Rightarrow> world \<Rightarrow> bool" where
  "calm u w \<longleftrightarrow> no_faults w \<and> files w = files u \<and> stdout w = stdout u"

lemma calm_stat: "calm u w \<Longrightarrow> (\<And>w'. calm u w' \<Longrightarrow> Q (map_option snd (follow 40 (files u) (comps p))) w') \<Longrightarrow> returns (fs_status (sys_stat p)) w Q"
  by (auto simp: calm_def no_faults_def returns_def fs_status_def sys_stat_def sys_call_def io_defs split: option.split)

lemma calm_contents:
  "calm u w \<Longrightarrow> map_of (files u) (comps p) = Some i \<Longrightarrow> kind i = Reg t \<Longrightarrow> (\<And>w'. calm u w' \<Longrightarrow> Q t w') \<Longrightarrow> returns (getFileContents p) w Q"
  by (auto simp: calm_def no_faults_def returns_def getFileContents_def sys_call_def io_defs eval_nat_numeral)

lemma calm_openDB:
  assumes "calm u w" and f: "getFsConfig c name = Some f"
    and magic: "map_of (files u) (comps (fs_database f) @ [''.ws_db_magic'']) = Some i" "kind i = Reg t" "getFirstLine t = name"
    and "\<And>w'. calm u w' \<Longrightarrow> Q \<lparr>db_config = c, db_fs = name\<rparr> w'"
  shows "returns (openDB c name) w Q"
proof -
  have one: "one_comp ''.ws_db_magic''" by (simp add: one_comp_def)
  have k: "comps (path_append (fs_database f) ''.ws_db_magic'') = comps (fs_database f) @ [''.ws_db_magic'']"
      "comps (fs_database f @ ''/.ws_db_magic'') = comps (fs_database f) @ [''.ws_db_magic'']"
    using comps_append_one [OF one] comps_one [OF one] by (simp_all add: comps_slash)
  have there: "follow 40 (files u) (comps (path_append (fs_database f) ''.ws_db_magic'')) \<noteq> None"
    using magic by (simp add: k eval_nat_numeral)
  have "returns (fs_config_or_exit c name) w (\<lambda>g w'. g = f \<and> calm u w')"
    using assms(1) f by (simp add: fs_config_or_exit_def returns_ret)
  then show ?thesis
    unfolding openDB_def returns_let
  proof (rule returns_mono)
    fix g v assume g: "g = f \<and> calm u v"
    then have v: "calm u v" by simp
    show "returns (fs_exists (path_append (fs_database g) ''.ws_db_magic'')) v
        (\<lambda>there w'. returns (if \<not> there then throw DatabaseException
           else let_io (getFileContents (fs_database g @ ''/.ws_db_magic'')) (\<lambda>text.
             if getFirstLine text \<noteq> name then throw DatabaseException else ret \<lparr>db_config = c, db_fs = name\<rparr>)) w' Q)"
      unfolding conjunct1 [OF g] fs_exists_def returns_let
    proof (rule calm_stat [OF v])
      fix v1 assume v1: "calm u v1"
      show "returns (ret (map_option snd (follow 40 (files u) (comps (path_append (fs_database f) ''.ws_db_magic''))) \<noteq> None)) v1
        (\<lambda>there w'. returns (if \<not> there then throw DatabaseException
           else let_io (getFileContents (fs_database f @ ''/.ws_db_magic'')) (\<lambda>text.
             if getFirstLine text \<noteq> name then throw DatabaseException else ret \<lparr>db_config = c, db_fs = name\<rparr>)) w' Q)"
        using there magic(3) assms(6)
        by (auto simp: returns_ret returns_let intro!: calm_contents [OF v1 magic(1) [folded k(2)] magic(2)])
    qed
  qed
qed

text \<open>The regular files and links of a directory that match, in its order.\<close>

definition matching :: "files \<Rightarrow> key \<Rightarrow> string \<Rightarrow> string list" where
  "matching fs d pat = map fst (filter (\<lambda>e. (is_link (snd e) \<or> is_reg (snd e)) \<and> glob_match pat (fst e)) (list_dir fs d))"

lemma calm_listing_fold:
  assumes "calm u w" and "\<And>w'. calm u w' \<Longrightarrow> Q (fl @ map fst (filter (\<lambda>e. (is_link (snd e) \<or> is_reg (snd e)) \<and> glob_match pat (fst e)) es)) w'"
  shows "returns (fold_io es (\<lambda>e fl. let_io (entry_listed p False e) (\<lambda>b. ret (if b \<and> glob_match pat (fst e) then fl @ [fst e] else fl))) fl) w Q"
  using assms
proof (induction es arbitrary: fl w)
  case (Cons e es)
  have "returns (entry_listed p False e) w (\<lambda>b w'. b = (is_link (snd e) \<or> is_reg (snd e)) \<and> calm u w')"
    using Cons.prems(1)
    by (auto simp: entry_listed_def fs_is_regular_file_def returns_let returns_ret intro!: calm_stat [where u = u])
  then show ?case
    unfolding fold_io.simps returns_let returns_ret
    by (rule returns_mono) (use Cons in \<open>auto\<close>)
qed (simp add: returns_ret)

lemma calm_dirEntries:
  assumes "calm u w" and d: "follow 40 (files u) (comps p) = Some (d, i)" "is_dir i" and "\<And>w'. calm u w' \<Longrightarrow> Q (matching (files u) d pat) w'"
  shows "returns (dirEntries p pat False) w Q"
  unfolding dirEntries_def fs_is_directory_def returns_let
proof (rule calm_stat [OF assms(1)])
  fix v assume v: "calm u v"
  have iter: "returns (fs_directory_iterator p) v (\<lambda>es w'. es = list_dir (files u) d \<and> calm u w')"
    using v d by (simp add: calm_def no_faults_def returns_def fs_directory_iterator_def sys_call_def io_defs)
  show "returns (ret (case map_option snd (follow 40 (files u) (comps p)) of None \<Rightarrow> False | Some i \<Rightarrow> is_dir i)) v
     (\<lambda>d w'. returns (if \<not> d then ret [] else let_io (fs_directory_iterator p) (\<lambda>entries. fold_io entries (\<lambda>e fl.
        let_io (entry_listed p False e) (\<lambda>b. ret (if b \<and> glob_match pat (fst e) then fl @ [fst e] else fl))) [])) w' Q)"
    using d by (simp add: returns_ret returns_let)
      (rule returns_mono [OF iter], auto intro!: calm_listing_fold assms(4) simp: matching_def [symmetric])
qed

lemma matching_one:
  assumes "glob_plain n" and "map_of fs (d @ [n]) = Some i" and "is_reg i"
  shows "\<exists>ns. matching fs d n = n # ns"
proof -
  have "(n, i) \<in> set (list_dir fs d)" using assms(2) by (simp add: list_dir_iff map_of_SomeD)
  then have "set (matching fs d n) = {n}" using assms(1,3) by (force simp: matching_def glob_match_plain)
  then show ?thesis by (cases "matching fs d n") auto
qed

lemma calm_readEntry:
  assumes "ryml_ok y" and "calm u w" and "one_comp i" and "database c name = p"
    and "map_of (files u) (comps p @ [i]) = Some j" and "kind j = Reg (entry_text y e)"
    and "\<And>w'. calm u w' \<Longrightarrow> Q (stored e ((blank_entry \<lparr>db_config = c, db_fs = name\<rparr>)\<lparr>e_id := i, e_filesystem := name, e_dbfilepath := path_append p i\<rparr>)) w'"
  shows "returns (readEntry y \<lparr>db_config = c, db_fs = name\<rparr> i False) w Q"
proof -
  have k: "map_of (files w) (comps (path_append p i)) = Some j" using assms(2,5) comps_append_one [OF assms(3), of p] by (simp add: calm_def)
  have nf: "no_faults w" using assms(2) by (simp add: calm_def)
  from read_back [OF assms(1) nf k assms(6), of i name "blank_entry \<lparr>db_config = c, db_fs = name\<rparr>"] obtain w' where
    w': "readFromFile y i name (path_append p i) (blank_entry \<lparr>db_config = c, db_fs = name\<rparr>) w =
      (Done (stored e ((blank_entry \<lparr>db_config = c, db_fs = name\<rparr>)\<lparr>e_id := i, e_filesystem := name, e_dbfilepath := path_append p i\<rparr>)), w')"
      "files w' = files w" "no_faults w'" by blast
  have "keeps silent (readEntry y \<lparr>db_config = c, db_fs = name\<rparr> i False)" by (rule silent.database_readers)
  moreover have r: "readEntry y \<lparr>db_config = c, db_fs = name\<rparr> i False w =
      (Done (stored e ((blank_entry \<lparr>db_config = c, db_fs = name\<rparr>)\<lparr>e_id := i, e_filesystem := name, e_dbfilepath := path_append p i\<rparr>)), w')"
    using w'(1) assms(3,4) by (simp add: readEntry_def checkID_def one_comp_def entry_path_def seq_io_def let_io_def ret_def)
  ultimately have "silent w w'" by (rule keepsD)
  then have "calm u w'" using assms(2) w'(2,3) by (simp add: silent_def calm_def)
  then show ?thesis using r assms(7) by (simp add: returns_def)
qed

lemma after_Done: "m w = (Done a, v) \<Longrightarrow> f a v = r \<Longrightarrow> let_io m f w = r" "m w = (Done a, v) \<Longrightarrow> try_database m w = (Done (Some a), v)"
  by (simp_all add: let_io_def try_database_def catch_io_def ret_def)

lemma after_Exit: "m w = (Exit n, v) \<Longrightarrow> let_io m f w = (Exit n, v)" "m w = (Exit n, v) \<Longrightarrow> catch_io m h w = (Exit n, v)"
  "m w = (Exit n, v) \<Longrightarrow> seq_io m m' w = (Exit n, v)"
  by (simp_all add: let_io_def catch_io_def seq_io_def)

lemma find_in_hit:
  assumes "ryml_ok y" and w: "calm u w" and f: "getFsConfig c name = Some f"
    and dir: "map_of (files u) (comps (fs_database f)) = Some i" "is_dir i"
    and n: "one_comp (user @ ''-'' @ fi_name opts)" "glob_plain (user @ ''-'' @ fi_name opts)" "\<not> fi_group opts"
    and entry: "map_of (files u) (comps (fs_database f) @ [user @ ''-'' @ fi_name opts]) = Some j" "kind j = Reg (entry_text y e)"
  shows "\<exists>w'. find_in y \<lparr>db_config = c, db_fs = name\<rparr> opts user gs w = (Exit 0, w') \<and> stdout w' = e_workspace e # stdout u \<and> files w' = files u"
proof -
  let ?db = "\<lparr>db_config = c, db_fs = name\<rparr>" and ?id = "user @ ''-'' @ fi_name opts" and ?d = "comps (fs_database f)"
  have p: "database c name = fs_database f" using f by (simp add: database_def getFsConfig_def)
  have "follow 40 (files u) ?d = Some (?d, i)" using dir by (simp add: eval_nat_numeral is_dir_def)
  moreover obtain ns where "matching (files u) ?d ?id = ?id # ns"
    using matching_one [OF n(2) entry(1)] entry(2) by (auto simp: is_reg_def)
  ultimately have "returns (dirEntries (fs_database f) ?id False) w (\<lambda>ids w'. ids = ?id # ns \<and> calm u w')"
    using dir(2) by (intro calm_dirEntries [OF w]) simp_all
  then have "returns (matchPattern y ?db (fi_name opts) user gs False (fi_group opts)) w (\<lambda>ids w'. ids = ?id # ns \<and> calm u w')"
    using n(3) by (simp add: matchPattern_def Let_def p) (rule returns_catch)
  then obtain w1 where w1: "matchPattern y ?db (fi_name opts) user gs False (fi_group opts) w = (Done (?id # ns), w1)" "calm u w1"
    by (auto simp: returns_def)
  have "returns (readEntry y ?db ?id False) w1 (\<lambda>e' w'. e_workspace e' = e_workspace e \<and> calm u w')"
    by (rule calm_readEntry [OF assms(1) w1(2) n(1) p entry]) (simp add: stored_def)
  then obtain e' w2 where w2: "readEntry y ?db ?id False w1 = (Done e', w2)" "e_workspace e' = e_workspace e" "calm u w2"
    by (auto simp: returns_def)
  have read: "try_database (readEntry y ?db ?id False) w1 = (Done (Some e'), w2)" by (rule after_Done(2)) (rule w2(1))
  let ?w = "w2\<lparr>stdout := e_workspace e' # stdout w2\<rparr>"
  have hit: "let_io (try_database (readEntry y ?db ?id False)) (\<lambda>found. case found of None \<Rightarrow> ret ()
      | Some e \<Rightarrow> seq_io (print (e_workspace e)) (exit_with 0)) w1 = (Exit 0, ?w)"
    by (rule after_Done(1), rule read) (simp add: seq_io_def let_io_def print_def put_io_def exit_with_def)
  have "find_in y ?db opts user gs w = (Exit 0, ?w)"
    unfolding find_in_def
    by (rule after_Exit(2), rule after_Done(1), rule w1(1), unfold for_io.simps, rule after_Exit(3)) (rule hit)
  with w2(2,3) show ?thesis by (simp add: calm_def)
qed

lemma ws_find_hit:
  assumes "ryml_ok y" and "no_faults w"
    and c: "valid_config yc (fi_config opts) w = (Done c, v)" "no_faults v"
    and user: "getpwuid (accounts w) (ruid (cred w)) = Some pw" "\<not> isRoot w" "\<not> isAdmin c (pw_name pw)"
    and where_to: "fi_filesystem opts = [] \<and> validFilesystems c (pw_name pw) (getGrouplist v) USE = name # rest \<or>
      fi_filesystem opts = name \<and> name \<noteq> [] \<and> name \<in> set (validFilesystems c (pw_name pw) (getGrouplist v) USE)"
    and f: "getFsConfig c name = Some f"
    and magic: "map_of (files w) (comps (fs_database f) @ [''.ws_db_magic'']) = Some m" "kind m = Reg t" "getFirstLine t = name"
    and dir: "map_of (files w) (comps (fs_database f)) = Some i" "is_dir i"
    and n: "fi_name opts \<noteq> []" "one_comp (pw_name pw @ ''-'' @ fi_name opts)" "glob_plain (pw_name pw @ ''-'' @ fi_name opts)" "\<not> fi_group opts"
    and entry: "map_of (files w) (comps (fs_database f) @ [pw_name pw @ ''-'' @ fi_name opts]) = Some j" "kind j = Reg (entry_text y e)"
  shows "\<exists>w'. ws_find y yc opts w = (Exit 0, w') \<and> stdout w' = e_workspace e # stdout w \<and> files w' = files w"
proof -
  have wv: "silent w v" using silent_config c(1) by (rule keepsD)
  note me = own_pattern [OF wv user]
  have v: "calm w v" using wv c(2) by (simp add: calm_def silent_def untouched_def)
  have "returns (openDB c name) v (\<lambda>db w'. db = \<lparr>db_config = c, db_fs = name\<rparr> \<and> calm w w')"
    by (rule calm_openDB [OF v f magic]) simp
  then obtain w1 where w1: "openDB c name v = (Done \<lparr>db_config = c, db_fs = name\<rparr>, w1)" "calm w w1" by (auto simp: returns_def)
  from find_in_hit [OF assms(1) w1(2) f dir n(2-4) entry] obtain w' where
    w': "find_in y \<lparr>db_config = c, db_fs = name\<rparr> opts (pw_name pw) (getGrouplist v) w1 = (Exit 0, w')"
      "stdout w' = e_workspace e # stdout w" "files w' = files w" by blast
  have opened: "try_database (openDB c name) v = (Done (Some \<lparr>db_config = c, db_fs = name\<rparr>), w1)" by (rule after_Done(2)) (rule w1(1))
  have first: "for_io (name # xs) (\<lambda>fs. let_io (try_database (openDB c fs)) (\<lambda>opened. case opened of None \<Rightarrow> ret ()
      | Some db \<Rightarrow> find_in y db opts (pw_name pw) (getGrouplist v))) v = (Exit 0, w')" for xs
    unfolding for_io.simps by (rule after_Exit(3), rule after_Done(1), rule opened) (simp add: w'(1))
  have search: "seq_io (for_io (if fi_filesystem opts \<noteq> [] then [fi_filesystem opts] else validFilesystems c (pw_name pw) (getGrouplist v) USE)
      (\<lambda>fs. let_io (try_database (openDB c fs)) (\<lambda>opened. case opened of None \<Rightarrow> ret ()
      | Some db \<Rightarrow> find_in y db opts (pw_name pw) (getGrouplist v)))) (exit_with (- 1)) v = (Exit 0, w')"
    using where_to by (intro after_Exit(3)) (elim disjE conjE; simp only: if_True if_False first simp_thms)
  have "ws_find y yc opts w = (Exit 0, w')"
    unfolding ws_find_def Let_def if_not_P [OF n(1)]
  proof (rule after_Done(1), rule c(1), rule after_Done(1), rule me(1), rule after_Done(1), rule me(2), rule after_Done(1), simp add: get_io_def)
    show "(if fi_filesystem opts \<noteq> [] \<and> fi_filesystem opts \<notin> set (validFilesystems c (pw_name pw) (getGrouplist v) USE) then exit_with (- 3)
      else seq_io (for_io (if fi_filesystem opts \<noteq> [] then [fi_filesystem opts] else validFilesystems c (pw_name pw) (getGrouplist v) USE)
        (\<lambda>fs. let_io (try_database (openDB c fs)) (\<lambda>opened. case opened of None \<Rightarrow> ret ()
        | Some db \<Rightarrow> find_in y db opts (pw_name pw) (getGrouplist v)))) (exit_with (- 1))) v = (Exit 0, w')"
      using where_to search by auto
  qed
  with w' show ?thesis by blast
qed

section \<open>Properties\<close>

text \<open>C20. \<open>ws_find\<close> finds: when the filesystem named, or the first one the user may use, has an entry of the user's with that
  name, as \<open>writeEntry\<close> writes it, and no call fails, the tool prints the path of its workspace and nothing else, and
  ends with status 0.\<close>

theorem entry_is_found:
  assumes "ryml_ok y" and "no_faults w"
    and c: "valid_config yc (fi_config opts) w = (Done c, v)" "no_faults v"
    and user: "getpwuid (accounts w) (ruid (cred w)) = Some pw" "\<not> isRoot w" "\<not> isAdmin c (pw_name pw)"
    and where_to: "fi_filesystem opts = [] \<and> validFilesystems c (pw_name pw) (getGrouplist v) USE = name # rest \<or>
      fi_filesystem opts = name \<and> name \<noteq> [] \<and> name \<in> set (validFilesystems c (pw_name pw) (getGrouplist v) USE)"
    and f: "getFsConfig c name = Some f"
    and magic: "map_of (files w) (comps (fs_database f) @ [''.ws_db_magic'']) = Some m" "kind m = Reg t" "getFirstLine t = name"
    and dir: "map_of (files w) (comps (fs_database f)) = Some i" "is_dir i"
    and n: "fi_name opts \<noteq> []" "one_comp (pw_name pw @ ''-'' @ fi_name opts)" "glob_plain (pw_name pw @ ''-'' @ fi_name opts)" "\<not> fi_group opts"
    and entry: "map_of (files w) (comps (fs_database f) @ [pw_name pw @ ''-'' @ fi_name opts]) = Some j" "kind j = Reg (entry_text y e)"
  shows "\<exists>w'. ws_find y yc opts w = (Exit 0, w') \<and> stdout w' = e_workspace e # stdout w \<and> files w' = files w"
  by (rule ws_find_hit; fact assms)

definition find_a :: find_options where
  "find_a = \<lparr>fi_filesystem = [], fi_user = [], fi_name = ''a'', fi_group = False, fi_config = []\<rparr>"

lemma entry_is_found_witness:
  "\<exists>w'. ws_find simple_ryml site_yaml find_a (site_world 5) = (Exit 0, w') \<and> stdout w' = [''/ws/alice-a''] \<and> files w' = site_files"
proof -
  let ?w = "site_world 5" and ?v = "snd (valid_config site_yaml [] (site_world 5))" and ?f = "the (getFsConfig site_config ''ws'')"
  let ?alice = "\<lparr>pw_name = ''alice'', pw_uid = 1000, pw_gid = 100, pw_dir = ''/home/alice''\<rparr>"
  have "fst (valid_config site_yaml [] ?w) = Done site_config" by code_simp
  then have c: "valid_config site_yaml (fi_config find_a) ?w = (Done site_config, ?v)" by (simp add: find_a_def) (metis prod.collapse)
  have w: "no_faults ?w" "files ?w = site_files" "stdout ?w = []" by (simp_all add: site_world_def example_world_def no_faults_def)
  have "silent ?w ?v" using silent_config c by (rule keepsD)
  then have v: "no_faults ?v" using w(1) by (simp add: silent_def untouched_def same_setup_def no_faults_def)
  have fs: "fi_filesystem find_a = [] \<and> validFilesystems site_config (pw_name ?alice) (getGrouplist ?v) USE = ''ws'' # []" by code_simp
  have f: "getFsConfig site_config ''ws'' = Some ?f" by code_simp
  have user: "getpwuid (accounts ?w) (ruid (cred ?w)) = Some ?alice" "\<not> isRoot ?w" "\<not> isAdmin site_config (pw_name ?alice)"
    and magic: "map_of (files ?w) (comps (fs_database ?f) @ [''.ws_db_magic'']) = Some (example_inode (Reg ''ws''))"
      "getFirstLine ''ws'' = ''ws''"
    and dir: "map_of (files ?w) (comps (fs_database ?f)) = Some (example_inode Dir)"
    and n: "fi_name find_a \<noteq> []" "one_comp (pw_name ?alice @ ''-'' @ fi_name find_a)" "glob_plain (pw_name ?alice @ ''-'' @ fi_name find_a)" "\<not> fi_group find_a"
    by code_simp+
  have entry: "map_of (files ?w) (comps (fs_database ?f) @ [pw_name ?alice @ ''-'' @ fi_name find_a]) =
      Some (example_inode (Reg (entry_text simple_ryml (site_entry ''alice-a'' 99))))"
  proof -
    have "comps (fs_database ?f) @ [pw_name ?alice @ ''-'' @ fi_name find_a] = [''db'', ''alice-a'']" by code_simp
    then show ?thesis unfolding w(2) by (simp add: site_files_def)
  qed
  have k: "kind (example_inode x) = x" for x by (simp add: example_inode_def)
  have d: "is_dir (example_inode Dir)" by (simp add: is_dir_def k)
  from entry_is_found [OF simple_ryml_ok w(1) c v user _ f magic(1) k magic(2) dir d n entry k] fs
  obtain w' where "ws_find simple_ryml site_yaml find_a ?w = (Exit 0, w')"
      "stdout w' = e_workspace (site_entry ''alice-a'' 99) # stdout ?w" "files w' = files ?w" by blast
  then show ?thesis using w by (simp add: site_entry_def)
qed

end
