(* ===== verification/Validate.thy ===== *)
theory Validate
  imports Search Site
begin

text \<open>
  \<open>src/src/ws_validate_config.cpp\<close>: a check of the configuration and of the directories it names. The model returns the
  list of warnings; an error ends the tool with status 1. The values go to standard output on the way; how
  \<open>fmt\<close> prints a list of strings is the argument \<open>fl\<close>.
\<close>

unbundle bit_operations_syntax

datatype remark =
    No_smtphost | No_mail_from | Missing path | Missing_in path string | Wrong_permissions path | Wrong_owner path

definition perm0755 :: mode_t where "perm0755 = 256 OR 128 OR 64 OR 32 OR 8 OR 4 OR 1"

definition perm0700 :: mode_t where "perm0700 = 256 OR 128 OR 64"

definition perm0644 :: mode_t where "perm0644 = 256 OR 128 OR 32 OR 4"

section \<open>Checks of a path\<close>

definition check_exists :: "path \<Rightarrow> remark \<Rightarrow> remark list io" where
  "check_exists p r = let_io (fs_exists p) (\<lambda>there. ret (if there then [] else [r]))"

text \<open>The permissions of a missing file are \<open>perms::unknown\<close>, which is none of those asked for.\<close>

definition check_perms :: "path \<Rightarrow> mode_t \<Rightarrow> remark list io" where
  "check_perms p perm =
     let_io (fs_status (sys_stat p)) (\<lambda>i.
       ret (case i of None \<Rightarrow> [Wrong_permissions p] | Some i \<Rightarrow> if mode i AND 4095 \<noteq> perm then [Wrong_permissions p] else []))"

definition check_owner :: "config \<Rightarrow> path \<Rightarrow> remark list io" where
  "check_owner c p =
     let_io (sys_stat p) (\<lambda>r.
       ret (case r of
              Inl e \<Rightarrow> []
            | Inr i \<Rightarrow> if owner i \<noteq> dbuid (global c) \<or> group_owner i \<noteq> dbgid (global c) then [Wrong_owner p] else []))"

definition check_all :: "remark list io list \<Rightarrow> remark list io" where
  "check_all checks = fold_io checks (\<lambda>check rs. let_io check (\<lambda>r. ret (rs @ r))) []"

definition check_space :: "config \<Rightarrow> string \<Rightarrow> path \<Rightarrow> remark list io" where
  "check_space c deleted space =
     (let deletedpath = space @ ''/'' @ deleted in
      check_all
        [check_exists space (Missing space), check_exists deletedpath (Missing_in space deleted),
         check_perms space perm0755, check_owner c space, check_perms deletedpath perm0700, check_owner c deletedpath])"

definition check_database :: "config \<Rightarrow> string \<Rightarrow> path \<Rightarrow> remark list io" where
  "check_database c deleted db =
     (let wsdbmagicpath = db @ ''/.ws_db_magic''; deletedpath = db @ ''/'' @ deleted in
      check_all
        [check_exists db (Missing db), check_exists wsdbmagicpath (Missing_in db ''.ws_db_magic''),
         check_exists deletedpath (Missing_in db deleted), check_perms db perm0755, check_owner c db,
         check_perms wsdbmagicpath perm0644, check_owner c wsdbmagicpath, check_perms deletedpath perm0755,
         check_owner c deletedpath])"

section \<open>The tool\<close>

definition show_flag :: "bool \<Rightarrow> string" where
  "show_flag b = (if b then ''true'' else ''false'')"

definition print_value :: "string \<Rightarrow> string \<Rightarrow> unit io" where
  "print_value label value = print (label @ '': '' @ value)"

definition print_list :: "(string list \<Rightarrow> string) \<Rightarrow> string \<Rightarrow> string list \<Rightarrow> unit io" where
  "print_list fl label xs =
     (if xs \<noteq> [] then print_value (''    '' @ label) (fl xs) else print (''    No '' @ label @ '' found, continuing''))"

definition print_policy :: "(string list \<Rightarrow> string) \<Rightarrow> Filesystem_config \<Rightarrow> unit io" where
  "print_policy fl ws =
     seqs_io
       [print_list fl ''groupdefault'' (fs_groupdefault ws), print_list fl ''userdefault'' (fs_userdefault ws),
        print_list fl ''user_acl'' (fs_user_acl ws), print_list fl ''group_acl'' (fs_group_acl ws),
        print_value ''    keeptime'' (show_int (fs_keeptime ws)),
        print_value ''    releasekeeptime'' (show_int (fs_releasekeeptime ws)),
        when_io (fs_keeptime ws < fs_releasekeeptime ws) (print ''    keeptime < releasekeeptime, continuing''),
        print_value ''    maxduration'' (show_int (fs_maxduration ws)),
        print_value ''    maxextensions'' (show_int (fs_maxextensions ws)),
        print_value ''    allocatable'' (show_flag (fs_allocatable ws)),
        print_value ''    extendable'' (show_flag (fs_extendable ws)),
        print_value ''    restorable'' (show_flag (fs_restorable ws))]
       (ret ())"

definition check_filesystem :: "(string list \<Rightarrow> string) \<Rightarrow> config \<Rightarrow> string \<Rightarrow> remark list io" where
  "check_filesystem fl c name =
     let_io (fs_config_or_exit c name) (\<lambda>ws.
       if fs_name ws = [] then exit_with 1
       else if fs_deletedPath ws = [] then exit_with 1
       else seq_io (print_value ''    deleted'' (fs_deletedPath ws))
         (if fs_spaces ws = [] then exit_with 1
          else seq_io (print_value ''    spaces'' (fl (fs_spaces ws)))
            (let_io (check_all (map (check_space c (fs_deletedPath ws)) (fs_spaces ws))) (\<lambda>rs.
             seq_io (if fs_spaceselection ws \<noteq> [] then print_value ''    spaceselection'' (fs_spaceselection ws)
                     else print (''    No spaceselection found, defaults to '' @ CHR 0x27 # ''random'' @ CHR 0x27 # '', continuing''))
               (if fs_database ws = [] then exit_with 1
                else seq_io (print_value ''    workspace database directory'' (fs_database ws))
                  (let_io (check_database c (fs_deletedPath ws) (fs_database ws)) (\<lambda>rs'.
                   seq_io (print_policy fl ws) (ret (rs @ rs')))))))))"

text \<open>The numbers of the global part, then who administrates, and the place of the log.\<close>

definition print_limits :: "Global_config \<Rightarrow> unit io" where
  "print_limits g =
     seqs_io
       [print_value ''maxduration'' (show_int (maxduration g)), print_value ''durationdefault'' (show_int (durationdefault g)),
        print_value ''reminderdefault'' (show_int (reminderdefault g)), print_value ''maxextensions'' (show_int (maxextensions g)),
        print_value ''dbuid'' (show_int (uint (dbuid g))), print_value ''dbgid'' (show_int (uint (dbgid g)))]
       (ret ())"

definition check_admins :: "(string list \<Rightarrow> string) \<Rightarrow> Global_config \<Rightarrow> remark list io" where
  "check_admins fl g =
     (if admins g = [] then exit_with 1
      else seq_io (print_value ''admins'' (fl (admins g)))
        (if adminmail g = [] then exit_with 1
         else seq_io (print_value ''adminmail'' (fl (adminmail g)))
           (if expirerlogpath g = [] then seq_io (print ''No expirerlogpath found, continuing'') (ret [])
            else seq_io (print_value ''expirerlogpath'' (expirerlogpath g))
              (check_exists (expirerlogpath g) (Missing (expirerlogpath g))))))"

definition check_global :: "(string list \<Rightarrow> string) \<Rightarrow> config \<Rightarrow> remark list io" where
  "check_global fl c =
     (let g = global c; wsnames = Filesystems c in
      if wsnames = [] then exit_with 1
      else if clustername g = [] then exit_with 1
      else seqs_io
        [print_value ''clustername'' (clustername g),
         when_io (smtphost g \<noteq> []) (print_value ''smtphost'' (smtphost g)),
         when_io (mail_from g \<noteq> []) (print_value ''mail_from'' (mail_from g))]
        (let rs = (if smtphost g = [] then [No_smtphost] else []) @ (if mail_from g = [] then [No_mail_from] else [])
         in if defaultWorkspace g = [] then exit_with 1
            else seq_io (print_value ''default'' (defaultWorkspace g))
              (if defaultWorkspace g \<notin> set wsnames then exit_with 1
               else seq_io (print_limits g) (let_io (check_admins fl g) (\<lambda>r. ret (rs @ r))))))"

definition ws_validate_config :: "(string list \<Rightarrow> string) \<Rightarrow> 'n yaml_cpp \<Rightarrow> path \<Rightarrow> remark list io" where
  "ws_validate_config fl yc configfile =
     let_io (get_io (\<lambda>w. isRoot w \<or> isusermode (caps w))) (\<lambda>may_choose.
     let_io (Config_files yc (config_pathes configfile may_choose)) (\<lambda>c.
     let_io getUsername (\<lambda>username.
     let_io (check_global fl c) (\<lambda>rs.
     let_io (check_all (map (check_filesystem fl c) (Filesystems c))) (\<lambda>rs'. ret (rs @ rs'))))))"

section \<open>What a configuration is\<close>

lemma validate_again: "fst (validate (c\<lparr>isvalid := b\<rparr>)) = fst (validate c)"
  by (simp add: validate_iff)

lemma config_file_ok: "read_config_file yc p c w = (Done c', w') \<Longrightarrow> omap_ok (filesystems c) \<Longrightarrow> omap_ok (filesystems c')"
  by (auto simp: read_config_file_def Done_iffs throw_def dest: readYAML_omap_ok split: option.splits)

lemma config_dir_ok:
  assumes "read_config_dir yc p c w = (Done c', w')" and "omap_ok (filesystems c)"
  shows "omap_ok (filesystems c')"
proof -
  from assms(1) obtain es v where "fold_io es (\<lambda>cfile c. let_io (fs_is_regular_file cfile) (\<lambda>reg. if reg then read_config_file yc cfile c else ret c)) c v = (Done c', w')"
    by (auto simp: read_config_dir_def let_io_Done)
  then show ?thesis
    by (rule fold_io_preserves [where I = "\<lambda>c. omap_ok (filesystems c)"])
       (use assms(2) config_file_ok in \<open>auto simp: Done_iffs split: if_splits\<close>)
qed

lemma first_config_ok:
  "first_config yc ps c w = (Done c', w') \<Longrightarrow> filesystems c = [] \<Longrightarrow> omap_ok (filesystems c') \<and> isvalid c' = fst (validate c')"
proof (induction ps arbitrary: w)
  case Nil
  then have "c' = c\<lparr>isvalid := False\<rparr>" by (simp add: ret_Done)
  with Nil.prems(2) show ?case by (simp add: validate_iff omap_simps)
next
  case (Cons p ps)
  from Cons.prems(1) obtain there v where there: "fs_exists p w = (Done there, v)"
    and rest: "(if \<not> there then first_config yc ps c else let_io (fs_is_regular_file p) (\<lambda>reg.
         let_io (if reg then read_config_file yc p c else let_io (fs_is_directory p) (\<lambda>dir. if dir then read_config_dir yc p c else exit_with (- 1)))
           (\<lambda>c'. ret (snd (validate c'))))) v = (Done c', w')"
    by (auto simp: let_io_Done)
  show ?case
  proof (cases there)
    case True
    with rest obtain c0 v0 v1 where
      c0: "(\<exists>v. read_config_file yc p c v = (Done c0, v1)) \<or> (\<exists>v. read_config_dir yc p c v = (Done c0, v1))" and c': "c' = snd (validate c0)"
      by (auto simp: Done_iffs exit_with_def split: if_splits)
    have "omap_ok (filesystems c0)" using c0 Cons.prems(2) config_file_ok config_dir_ok by (metis omap_ok_Nil)
    then show ?thesis unfolding c' validate_config by (simp add: validate_again)
  next
    case False
    with rest have "first_config yc ps c v = (Done c', w')" by simp
    then show ?thesis by (rule Cons.IH) (rule Cons.prems(2))
  qed
qed

definition named_completely :: "config \<Rightarrow> bool" where
  "named_completely c \<longleftrightarrow> Filesystems c \<noteq> [] \<and> clustername (global c) \<noteq> [] \<and> defaultWorkspace (global c) \<in> set (Filesystems c) \<and>
     defaultWorkspace (global c) \<noteq> [] \<and> admins (global c) \<noteq> [] \<and> adminmail (global c) \<noteq> [] \<and>
     (\<forall>name \<in> set (Filesystems c). \<exists>f. getFsConfig c name = Some f \<and> fs_complete f)"

lemma check_global_Done: "check_global fl c w = (Done rs, w') \<Longrightarrow>
  Filesystems c \<noteq> [] \<and> clustername (global c) \<noteq> [] \<and> defaultWorkspace (global c) \<in> set (Filesystems c) \<and>
  defaultWorkspace (global c) \<noteq> [] \<and> admins (global c) \<noteq> [] \<and> adminmail (global c) \<noteq> []"
  by (auto simp: check_global_def check_admins_def Let_def Done_iffs split: if_splits)

lemma check_all_Done: "check_all checks w = (Done rs, w') \<Longrightarrow> check \<in> set checks \<Longrightarrow> \<exists>r v v'. check v = (Done r, v')"
proof -
  have "fold_io checks (\<lambda>check rs. let_io check (\<lambda>r. ret (rs @ r))) rs0 w = (Done rs, w') \<Longrightarrow> check \<in> set checks \<Longrightarrow>
      \<exists>r v v'. check v = (Done r, v')" for rs0 w
    by (induction checks arbitrary: rs0 w) (auto simp: Done_iffs)
  then show "check_all checks w = (Done rs, w') \<Longrightarrow> check \<in> set checks \<Longrightarrow> \<exists>r v v'. check v = (Done r, v')"
    unfolding check_all_def by blast
qed

lemma check_filesystem_Done:
  assumes "check_filesystem fl c name w = (Done rs, w')"
  shows "\<exists>f. getFsConfig c name = Some f \<and> fs_complete f"
proof (cases "getFsConfig c name")
  case None
  with assms show ?thesis by (simp add: check_filesystem_def fs_config_or_exit_def io_defs)
next
  case (Some f)
  with assms show ?thesis
    by (auto simp: check_filesystem_def fs_config_or_exit_def Done_iffs fs_complete_def split: if_splits)
qed

section \<open>The remarks, from the files alone\<close>

text \<open>
  On a system whose calls do not fail the remarks depend on the files only: \<open>yields fs m r\<close> says that \<open>m\<close> returns
  \<open>r\<close> in every such world with the files \<open>fs\<close> and leaves the files as they are, whatever it prints.
\<close>

definition inode_of :: "files \<Rightarrow> path \<Rightarrow> inode option" where
  "inode_of fs p = map_option snd (follow 40 fs (comps p))"

definition exists_remarks :: "files \<Rightarrow> path \<Rightarrow> remark \<Rightarrow> remark list" where
  "exists_remarks fs p r = (if inode_of fs p = None then [r] else [])"

definition perms_remarks :: "files \<Rightarrow> path \<Rightarrow> mode_t \<Rightarrow> remark list" where
  "perms_remarks fs p perm =
     (case inode_of fs p of None \<Rightarrow> [Wrong_permissions p] | Some i \<Rightarrow> if mode i AND 4095 = perm then [] else [Wrong_permissions p])"

definition owner_remarks :: "files \<Rightarrow> config \<Rightarrow> path \<Rightarrow> remark list" where
  "owner_remarks fs c p =
     (case inode_of fs p of
        None \<Rightarrow> []
      | Some i \<Rightarrow> if owner i = dbuid (global c) \<and> group_owner i = dbgid (global c) then [] else [Wrong_owner p])"

definition space_remarks :: "files \<Rightarrow> config \<Rightarrow> string \<Rightarrow> path \<Rightarrow> remark list" where
  "space_remarks fs c deleted space =
     (let d = space @ ''/'' @ deleted in
      exists_remarks fs space (Missing space) @ exists_remarks fs d (Missing_in space deleted) @
      perms_remarks fs space perm0755 @ owner_remarks fs c space @ perms_remarks fs d perm0700 @ owner_remarks fs c d)"

definition database_remarks :: "files \<Rightarrow> config \<Rightarrow> string \<Rightarrow> path \<Rightarrow> remark list" where
  "database_remarks fs c deleted db =
     (let m = db @ ''/.ws_db_magic''; d = db @ ''/'' @ deleted in
      exists_remarks fs db (Missing db) @ exists_remarks fs m (Missing_in db ''.ws_db_magic'') @
      exists_remarks fs d (Missing_in db deleted) @ perms_remarks fs db perm0755 @ owner_remarks fs c db @
      perms_remarks fs m perm0644 @ owner_remarks fs c m @ perms_remarks fs d perm0755 @ owner_remarks fs c d)"

definition filesystem_remarks :: "files \<Rightarrow> config \<Rightarrow> Filesystem_config \<Rightarrow> remark list" where
  "filesystem_remarks fs c ws =
     concat (map (space_remarks fs c (fs_deletedPath ws)) (fs_spaces ws)) @ database_remarks fs c (fs_deletedPath ws) (fs_database ws)"

definition global_remarks :: "files \<Rightarrow> Global_config \<Rightarrow> remark list" where
  "global_remarks fs g =
     (if smtphost g = [] then [No_smtphost] else []) @ (if mail_from g = [] then [No_mail_from] else []) @
     (if expirerlogpath g = [] then [] else exists_remarks fs (expirerlogpath g) (Missing (expirerlogpath g)))"

definition yields :: "files \<Rightarrow> 'a io \<Rightarrow> 'a \<Rightarrow> bool" where
  "yields fs m r \<longleftrightarrow> (\<forall>w. files w = fs \<and> no_faults w \<longrightarrow> returns m w (\<lambda>a w'. a = r \<and> files w' = fs \<and> no_faults w'))"

lemma yieldsD: "yields fs m r \<Longrightarrow> files w = fs \<Longrightarrow> no_faults w \<Longrightarrow> \<exists>w'. m w = (Done r, w') \<and> files w' = fs \<and> no_faults w'"
  by (auto simp: yields_def returns_def)

lemma yields_let: "yields fs m a \<Longrightarrow> yields fs (f a) b \<Longrightarrow> yields fs (let_io m f) b"
  unfolding yields_def returns_let by (auto elim!: returns_mono)

lemma yields_seq: "yields fs m () \<Longrightarrow> yields fs m' b \<Longrightarrow> yields fs (seq_io m m') b"
  unfolding seq_io_def by (rule yields_let)

lemma yields_ret: "a = b \<Longrightarrow> yields fs (ret a) b"
  by (simp add: yields_def returns_ret)

lemma yields_when: "yields fs m () \<Longrightarrow> yields fs (when_io b m) ()"
  by (simp add: when_io_def yields_ret)

lemma yields_if: "(b \<Longrightarrow> yields fs m r) \<Longrightarrow> (\<not> b \<Longrightarrow> yields fs m' r) \<Longrightarrow> yields fs (if b then m else m') r"
  by simp

lemma yields_print: "yields fs (print_value l v) ()" "yields fs (print s) ()" "yields fs (print_list fl l xs) ()"
  by (simp_all add: yields_def print_list_def print_value_def print_def returns_put no_faults_def)

lemmas yields_steps = yields_seq yields_when yields_print

lemma yields_print_all: "yields fs (print_policy fl ws) ()" "yields fs (print_limits g) ()"
  unfolding print_policy_def print_limits_def seqs_io.simps by (intro yields_steps yields_ret refl)+

lemma yields_stat: "yields fs (sys_stat p) (case inode_of fs p of None \<Rightarrow> Inl ENOENT | Some i \<Rightarrow> Inr i)"
  by (auto simp: yields_def returns_def sys_stat_def sys_call_def io_defs no_faults_def inode_of_def split: option.split)

lemma yields_status: "yields fs (fs_status (sys_stat p)) (inode_of fs p)"
  unfolding fs_status_def by (rule yields_let [OF yields_stat]) (auto intro: yields_ret split: option.split)

lemma yields_checks:
  "yields fs (check_exists p r) (exists_remarks fs p r)" "yields fs (check_perms p perm) (perms_remarks fs p perm)"
  "yields fs (check_owner c p) (owner_remarks fs c p)"
proof -
  have m: "yields fs (fs_exists p) (inode_of fs p \<noteq> None)"
    unfolding fs_exists_def by (rule yields_let [OF yields_status yields_ret [OF refl]])
  show "yields fs (check_exists p r) (exists_remarks fs p r)"
    unfolding check_exists_def by (rule yields_let [OF m]) (simp add: exists_remarks_def yields_ret)
  show "yields fs (check_perms p perm) (perms_remarks fs p perm)"
    unfolding check_perms_def by (rule yields_let [OF yields_status]) (auto simp: perms_remarks_def intro: yields_ret split: option.split)
  show "yields fs (check_owner c p) (owner_remarks fs c p)"
    unfolding check_owner_def by (rule yields_let [OF yields_stat]) (auto simp: owner_remarks_def intro: yields_ret split: option.split)
qed

lemma yields_check_all:
  assumes "list_all2 (yields fs) checks rss"
  shows "yields fs (check_all checks) (concat rss)"
proof -
  have "yields fs (fold_io checks (\<lambda>check rs. let_io check (\<lambda>r. ret (rs @ r))) rs) (rs @ concat rss)" for rs
    using assms
  proof (induction arbitrary: rs rule: list_all2_induct)
    case Nil
    show ?case by (simp add: yields_ret)
  next
    case (Cons check checks r rss)
    show ?case unfolding fold_io.simps
      by (rule yields_let [OF yields_let [OF Cons.hyps(1) yields_ret [OF refl]]]) (use Cons.IH [of "rs @ r"] in simp)
  qed
  from this [of "[]"] show ?thesis by (simp add: check_all_def)
qed

lemma yields_check_map: "(\<And>x. x \<in> set xs \<Longrightarrow> yields fs (f x) (g x)) \<Longrightarrow> yields fs (check_all (map f xs)) (concat (map g xs))"
  by (rule yields_check_all) (simp add: list.rel_map list.rel_refl_strong)

lemma yields_directories:
  "yields fs (check_space c d s) (space_remarks fs c d s)" "yields fs (check_database c d db) (database_remarks fs c d db)"
proof -
  have concat: "list_all2 (yields fs) checks rss \<Longrightarrow> concat rss = r \<Longrightarrow> yields fs (check_all checks) r" for checks rss r
    using yields_check_all by blast
  show "yields fs (check_space c d s) (space_remarks fs c d s)"
    unfolding check_space_def Let_def
    by (rule concat, (rule list.rel_intros yields_checks)+) (simp add: space_remarks_def Let_def)
  show "yields fs (check_database c d db) (database_remarks fs c d db)"
    unfolding check_database_def Let_def
    by (rule concat, (rule list.rel_intros yields_checks)+) (simp add: database_remarks_def Let_def)
qed

lemma yields_filesystem:
  assumes "getFsConfig c name = Some ws" and "fs_complete ws" and "fs_name ws \<noteq> []"
  shows "yields fs (check_filesystem fl c name) (filesystem_remarks fs c ws)"
proof -
  have "yields fs (fs_config_or_exit c name) ws" using assms(1) by (simp add: fs_config_or_exit_def yields_ret)
  then show ?thesis
    unfolding check_filesystem_def
    by (rule yields_let)
       (use assms(2,3) in \<open>auto simp: fs_complete_def filesystem_remarks_def
          intro!: yields_steps yields_if yields_print_all yields_ret yields_let [OF yields_check_map [OF yields_directories(1)]]
            yields_let [OF yields_directories(2)]\<close>)
qed

lemma yields_global:
  assumes "Filesystems c \<noteq> []" and "clustername (global c) \<noteq> []" and "defaultWorkspace (global c) \<in> set (Filesystems c)"
    and "defaultWorkspace (global c) \<noteq> []" and "admins (global c) \<noteq> []" and "adminmail (global c) \<noteq> []"
  shows "yields fs (check_global fl c) (global_remarks fs (global c))"
proof -
  let ?g = "global c"
  let ?log = "if expirerlogpath ?g = [] then [] else exists_remarks fs (expirerlogpath ?g) (Missing (expirerlogpath ?g))"
  have "yields fs (check_admins fl ?g) ?log"
    unfolding check_admins_def using assms(5,6) by (auto intro!: yields_steps yields_checks yields_ret)
  then show ?thesis
    unfolding check_global_def Let_def seqs_io.simps using assms
    by (auto intro!: yields_steps yields_print_all yields_ret elim!: yields_let simp: global_remarks_def)
qed

text \<open>The validator as a whole: what it says of a configuration that has all it asks for.\<close>

lemma validator_remarks:
  assumes c: "Config_files yc (config_pathes configfile (isRoot w \<or> isusermode (caps w))) w = (Done c, v)" and nf: "no_faults w"
    and user: "getpwuid (accounts w) (ruid (cred w)) \<noteq> None" and n: "named_completely c"
    and names: "\<And>name ws. getFsConfig c name = Some ws \<Longrightarrow> fs_name ws \<noteq> []"
  shows "fst (ws_validate_config fl yc configfile w) = Done (global_remarks (files w) (global c) @
    concat (map (\<lambda>name. filesystem_remarks (files w) c (the (getFsConfig c name))) (Filesystems c)))"
proof -
  have files: "files v = files w" by (rule same_filesD [OF same.database_readers(7) c])
  have set: "same_setup w v" by (rule keepsD [OF settings.database_readers(7) c])
  then have v: "no_faults v" "getpwuid (accounts v) (ruid (cred v)) \<noteq> None" using nf user by (simp_all add: same_setup_def no_faults_def)
  then obtain u where u: "getUsername v = (Done u, v)" by (cases "getpwuid (accounts v) (ruid (cred v))") (auto simp: getUsername_run)
  have g: "yields (files w) (check_global fl c) (global_remarks (files w) (global c))"
    using n by (intro yields_global) (simp_all add: named_completely_def)
  have "yields (files w) (check_filesystem fl c name) (filesystem_remarks (files w) c (the (getFsConfig c name)))"
    if "name \<in> set (Filesystems c)" for name
    using n that names yields_filesystem by (fastforce simp: named_completely_def)
  then have f: "yields (files w) (check_all (map (check_filesystem fl c) (Filesystems c)))
      (concat (map (\<lambda>name. filesystem_remarks (files w) c (the (getFsConfig c name))) (Filesystems c)))"
    by (rule yields_check_map)
  have "yields (files w) (let_io (check_global fl c) (\<lambda>rs.
      let_io (check_all (map (check_filesystem fl c) (Filesystems c))) (\<lambda>rs'. ret (rs @ rs')))) (global_remarks (files w) (global c) @
      concat (map (\<lambda>name. filesystem_remarks (files w) c (the (getFsConfig c name))) (Filesystems c)))"
    by (rule yields_let [OF g yields_let [OF f yields_ret [OF refl]]])
  from yieldsD [OF this files v(1)] show ?thesis using c u by (auto simp: ws_validate_config_def let_io_def get_io_def)
qed

section \<open>Properties\<close>

text \<open>C29. A configuration, wherever it was read from, is well-formed: its filesystems are sorted by name, each name once; and
  it is marked as valid exactly when it has an identity for the database other than root, a cluster name, a default
  workspace, and filesystems that all have a space, a database and a deleted area.\<close>

theorem configuration_well_formed:
  assumes "Config_files yc configpathes w = (Done c, w')"
  shows "sorted (Filesystems c) \<and> distinct (Filesystems c) \<and>
    (isvalid c \<longleftrightarrow> dbuid (global c) \<notin> {0, - 1} \<and> dbgid (global c) \<notin> {0, - 1} \<and> clustername (global c) \<noteq> [] \<and>
       defaultWorkspace (global c) \<noteq> [] \<and> Filesystems c \<noteq> [] \<and> (\<forall>f \<in> snd ` set (filesystems c). fs_complete f))"
  using first_config_ok [OF assms [unfolded Config_files_def]]
  by (simp add: config_initial_def omap_ok_def Filesystems_def validate_iff)

lemma configuration_well_formed_witness:
  "fst (Config_files site_yaml [''/etc/ws.conf''] (site_world 5)) = Done site_config \<and> isvalid site_config \<and> dbuid (global site_config) \<notin> {0, - 1}"
proof -
  have c: "fst (Config_files site_yaml [''/etc/ws.conf''] (site_world 5)) = Done site_config" by code_simp
  then obtain w' where run: "Config_files site_yaml [''/etc/ws.conf''] (site_world 5) = (Done site_config, w')" by (metis prod.collapse)
  have v: "isvalid site_config" by code_simp
  from configuration_well_formed [OF run] v c show ?thesis by blast
qed

text \<open>C30. What \<open>ws_validate_config\<close> accepts has all names, mail addresses and directories it asks for; but it never asks
  whether the configuration is valid, so the other tools refuse what it accepts exactly when the identity of the
  database is missing or is root.\<close>

theorem validator_verdict:
  assumes "ws_validate_config fl yc configfile w = (Done rs, w')"
  shows "\<exists>c v. Config_files yc (config_pathes configfile (isRoot w \<or> isusermode (caps w))) w = (Done c, v) \<and> named_completely c \<and>
    valid_config yc configfile w =
      (if dbuid (global c) \<notin> {0, - 1} \<and> dbgid (global c) \<notin> {0, - 1} then (Done c, v) else (Exit (- 2), v))"
proof -
  from assms obtain c v rs1 rs2 v1 v2 v3 where c: "Config_files yc (config_pathes configfile (isRoot w \<or> isusermode (caps w))) w = (Done c, v)"
      and g: "check_global fl c v1 = (Done rs1, v2)" and a: "check_all (map (check_filesystem fl c) (Filesystems c)) v2 = (Done rs2, v3)"
    by (auto simp: ws_validate_config_def let_io_Done get_io_Done)
  have f: "\<exists>f. getFsConfig c name = Some f \<and> fs_complete f" if n: "name \<in> set (Filesystems c)" for name
  proof -
    have "check_filesystem fl c name \<in> set (map (check_filesystem fl c) (Filesystems c))" using n by simp
    from check_all_Done [OF a this] show ?thesis using check_filesystem_Done by blast
  qed
  have ok: "omap_ok (filesystems c) \<and> isvalid c = fst (validate c)"
    using first_config_ok [OF c [unfolded Config_files_def]] by (simp add: config_initial_def)
  have all: "\<forall>f \<in> snd ` set (filesystems c). fs_complete f"
  proof
    fix f assume "f \<in> snd ` set (filesystems c)"
    then obtain name where "(name, f) \<in> set (filesystems c)" by auto
    moreover from this have "getFsConfig c name = Some f" using ok by (simp add: getFsConfig_def omap_ok_def)
    ultimately show "fs_complete f" using f [of name] by (force simp: Filesystems_def)
  qed
  have n: "named_completely c" unfolding named_completely_def using check_global_Done [OF g] f by blast
  then have "isvalid c \<longleftrightarrow> dbuid (global c) \<notin> {0, - 1} \<and> dbgid (global c) \<notin> {0, - 1}"
    using ok all by (auto simp: validate_iff named_completely_def Filesystems_def)
  then have "valid_config yc configfile w =
      (if dbuid (global c) \<notin> {0, - 1} \<and> dbgid (global c) \<notin> {0, - 1} then (Done c, v) else (Exit (- 2), v))"
    using c by (simp add: valid_config_def let_io_def get_io_def ret_def exit_with_def)
  with c n show ?thesis by blast
qed

text \<open>The example site with administrators, but without an identity of the database.\<close>

definition anonymous_tree :: yaml_node where
  "anonymous_tree = Mapping
     [(''clustername'', Scalar ''c''), (''default_workspace'', Scalar ''ws''), (''admins'', Strings [''root'']),
      (''adminmail'', Strings [''root@site.org'']),
      (''filesystems'', Mapping [(''ws'', Mapping
         [(''spaces'', Strings [''/ws'']), (''deleted'', Scalar ''.removed''), (''database'', Scalar ''/db'')])])]"

definition anonymous_yaml :: "yaml_node yaml_cpp" where
  "anonymous_yaml = site_yaml\<lparr>Load := (\<lambda>s. if s = [] then None else Some anonymous_tree)\<rparr>"

definition anonymous_fs :: Filesystem_config where
  "anonymous_fs = (fs_initial ''ws'')\<lparr>fs_spaces := [''/ws''], fs_spaceselection := ''random'', fs_deletedPath := ''.removed'',
     fs_database := ''/db'', fs_keeptime := 10, fs_releasekeeptime := 10, fs_maxduration := 100, fs_maxextensions := 10,
     fs_allocatable := True, fs_extendable := True, fs_restorable := True\<rparr>"

definition anonymous_config :: config where
  "anonymous_config = config_initial\<lparr>isvalid := False,
     global := (file_defaults Global_initial)\<lparr>clustername := ''c'', defaultWorkspace := ''ws'', admins := [''root''],
       adminmail := [''root@site.org'']\<rparr>,
     filesystems := [(''ws'', anonymous_fs)]\<rparr>"

lemma validator_verdict_witness:
  "fst (ws_validate_config concat anonymous_yaml ''/etc/ws.conf'' (site_world 5)) =
     Done [No_smtphost, No_mail_from, Wrong_permissions ''/ws'', Wrong_owner ''/ws'', Wrong_owner ''/ws/.removed'',
       Wrong_permissions ''/db'', Wrong_owner ''/db'', Wrong_permissions ''/db/.ws_db_magic'', Wrong_owner ''/db/.ws_db_magic'',
       Wrong_permissions ''/db/.removed'', Wrong_owner ''/db/.removed''] \<and>
   fst (valid_config anonymous_yaml ''/etc/ws.conf'' (site_world 5)) = Exit (- 2)"
proof -
  let ?w = "site_world 5"
  let ?run = "ws_validate_config concat anonymous_yaml ''/etc/ws.conf'' ?w"
  let ?remarks = "[No_smtphost, No_mail_from, Wrong_permissions ''/ws'', Wrong_owner ''/ws'', Wrong_owner ''/ws/.removed'',
       Wrong_permissions ''/db'', Wrong_owner ''/db'', Wrong_permissions ''/db/.ws_db_magic'', Wrong_owner ''/db/.ws_db_magic'',
       Wrong_permissions ''/db/.removed'', Wrong_owner ''/db/.removed'']"
  have "fst (Config_files anonymous_yaml (config_pathes ''/etc/ws.conf'' (isRoot ?w \<or> isusermode (caps ?w))) ?w) = Done anonymous_config"
    by code_simp
  then obtain v where c: "Config_files anonymous_yaml (config_pathes ''/etc/ws.conf'' (isRoot ?w \<or> isusermode (caps ?w))) ?w = (Done anonymous_config, v)"
    by (metis prod.collapse)
  have nf: "no_faults ?w" by (simp add: site_world_def example_world_def no_faults_def)
  have user: "getpwuid (accounts ?w) (ruid (cred ?w)) \<noteq> None"
    by (simp add: site_world_def example_world_def example_accounts_def user_cred_def)
  have n: "named_completely anonymous_config" and i: "dbuid (global anonymous_config) = 0"
    by (simp_all add: named_completely_def anonymous_config_def anonymous_fs_def Filesystems_def getFsConfig_def fs_complete_def file_defaults_def)
  have names: "fs_name ws \<noteq> []" if "getFsConfig anonymous_config name = Some ws" for name ws
    using that by (auto simp: anonymous_config_def anonymous_fs_def getFsConfig_def fs_initial_def split: if_splits)
  have files: "files ?w = site_files" by (simp add: site_world_def example_world_def)
  have "global_remarks site_files (global anonymous_config) @
      concat (map (\<lambda>name. filesystem_remarks site_files anonymous_config (the (getFsConfig anonymous_config name))) (Filesystems anonymous_config)) = ?remarks"
    by code_simp
  with validator_remarks [OF c nf user n names, where fl = concat] have r: "fst ?run = Done ?remarks" by (simp only: files)
  then obtain w' where run: "?run = (Done ?remarks, w')" by (metis prod.collapse)
  show ?thesis using validator_verdict [OF run] c i r by auto
qed

end
