(* ===== verification/WsList.thy ===== *)
theory WsList
  imports Entries Site "HOL-Library.Signed_Division"
begin

text \<open>
  \<open>src/src/ws_list.cpp\<close>: the lists of filesystems and of workspaces, in three formats. Threads read and print the
  entries of one filesystem, so the order in which they appear is an argument; the format of times and the colours
  of the terminal are calls of libraries and arguments too.
\<close>

unbundle bit_operations_syntax

record list_options =
  ls_filesystem :: string
  ls_user :: string
  ls_config :: path
  ls_pattern :: string
  ls_group :: bool
  ls_listfilesystems :: bool
  ls_listfilesystemdetails :: bool
  ls_short :: bool
  ls_expired :: bool
  ls_name :: bool
  ls_creation :: bool
  ls_remaining :: bool
  ls_reverted :: bool
  ls_terse :: bool
  ls_table :: bool
  ls_permissions :: bool
  ls_verbose :: bool

record terminal =
  show_time :: "int \<Rightarrow> string"
  colours :: bool
  styled :: "string \<Rightarrow> int \<Rightarrow> string"

section \<open>Names and times\<close>

text \<open>
  The name without its owner, for callers who are not administrators; \<open>getID\<close> throws on an empty id.
\<close>

definition getMaskedID :: "entry \<Rightarrow> string io" where
  "getMaskedID e =
     let_io getUsername (\<lambda>caller.
       if isAdmin (db_config (e_parent e)) caller then ret (e_id e)
       else let_io (get_io (\<lambda>w. entry_getUsername w e)) (\<lambda>owner.
         let id = e_id e in
         if owner \<noteq> [] \<and> length id > length owner + 1 \<and> take (length owner) id = owner \<and> id ! length owner = CHR ''-''
         then ret (drop (length owner + 1) id)
         else let_io (get_io (\<lambda>w. getID (user_exists w) id)) (\<lambda>r.
           case r of None \<Rightarrow> throw Out_of_range | Some name \<Rightarrow> ret name)))"

definition day :: int where
  "day = 24 * 3600"

text \<open>The time until a deleted workspace is removed for good.\<close>

definition until_deletion :: "Filesystem_config \<Rightarrow> int \<Rightarrow> entry \<Rightarrow> int" where
  "until_deletion f now e =
     (if e_released e \<noteq> 0 then e_released e + fs_releasekeeptime f * 86400 - now
      else if e_expired e = 0
      then (case timestampFromId (e_id e) of
              Some ts \<Rightarrow> ts + fs_keeptime f * 86400 - now
            | None \<Rightarrow> e_expired e + fs_keeptime f * 86400 - now)
      else e_expired e + fs_keeptime f * 86400 - now)"

definition days_hours :: "int \<Rightarrow> string" where
  "days_hours t = show_int (t sdiv day) @ '' days, '' @ show_int ((t smod day) sdiv 3600) @ '' hours''"

definition permstring :: "mode_t \<Rightarrow> string" where
  "permstring p = map (\<lambda>(op, perm). if p AND perm = 0 then CHR ''-'' else op)
     [(CHR ''r'', 256), (CHR ''w'', 128), (CHR ''x'', 64), (CHR ''r'', 32), (CHR ''w'', 16), (CHR ''x'', 8),
      (CHR ''r'', 4), (CHR ''w'', 2), (CHR ''x'', 1)]"

section \<open>The traditional format\<close>

definition print_remaining :: "bool \<Rightarrow> Filesystem_config \<Rightarrow> entry \<Rightarrow> unit io" where
  "print_remaining listexpired f e =
     (if \<not> listexpired
      then let_io (getRemaining e) (\<lambda>remaining. print (''    remaining time       : '' @ days_hours remaining))
      else seq_io (print (''    remaining time       : '' @ (if e_released e \<noteq> 0 then ''released'' else ''expired'')))
        (let_io time_now (\<lambda>now.
           let remaining = until_deletion f now e
           in if remaining \<le> 0 then print ''    until deletion       : 0 days, 0 hours''
              else print (''    until deletion       : '' @ days_hours remaining))))"

definition print_details :: "terminal \<Rightarrow> entry \<Rightarrow> unit io" where
  "print_details t e =
     seqs_io
       [when_io (e_comment e \<noteq> []) (print (''    comment              : '' @ e_comment e)),
        when_io (e_creation e > 0) (print (''    creation time        : '' @ show_time t (e_creation e))),
        print (''    expiration time      : '' @ show_time t (e_expiration e)),
        when_io (e_expired e > 0) (print (''    expired time         : '' @ show_time t (e_expired e))),
        when_io (e_released e > 0) (print (''    release time         : '' @ show_time t (e_released e))),
        when_io (e_group e \<noteq> []) (print (''    group                : '' @ e_group e)),
        print (''    filesystem name      : '' @ e_filesystem e)]
       (ret ())"

definition print_entry :: "terminal \<Rightarrow> config \<Rightarrow> list_options \<Rightarrow> entry \<Rightarrow> unit io" where
  "print_entry t c opts e =
     let_io (getMaskedID e) (\<lambda>name.
     seqs_io
       [print (''Id: '' @ name),
        print (''    workspace directory  : '' @ e_workspace e),
        let_io (fs_config_or_exit c (e_filesystem e)) (\<lambda>f. print_remaining (ls_expired opts) f e),
        when_io (\<not> ls_terse opts) (print_details t e),
        print (''    available extensions : '' @ show_int (e_extensions e)),
        when_io (ls_verbose opts)
          (seq_io (print (''    reminder             : '' @ show_time t (e_expiration e - e_reminder e * 24 * 3600)))
            (when_io (e_mailaddress e \<noteq> []) (print (''    mailaddress          : '' @ e_mailaddress e)))),
        when_io (ls_permissions opts)
          (let_io (fs_status (sys_stat (e_workspace e))) (\<lambda>i.
             print (''    permissions          : '' @ permstring (case i of None \<Rightarrow> 0xFFFF | Some i \<Rightarrow> mode i))))]
       (ret ()))"

section \<open>The table\<close>

definition print_header :: "bool \<Rightarrow> unit io" where
  "print_header terse =
     (let blank = CHR '' ''; rule = CHR ''='' in
      if terse
      then seq_io (print (pad 30 blank ''ID'' @ '' '' @ pad 50 blank ''PATH'' @ '' '' @ pad 9 blank ''REMAINING''))
             (print (pad 30 rule [] @ '' '' @ pad 50 rule [] @ '' '' @ pad 9 rule []))
      else seq_io (print (pad 30 blank ''ID'' @ '' '' @ pad 50 blank ''PATH'' @ '' '' @ pad 25 blank ''EXPIRATION'' @ '' '' @
               pad 10 blank ''EXTENSIONS'' @ '' '' @ pad 9 blank ''REMAINING''))
             (print (pad 30 rule [] @ '' '' @ pad 50 rule [] @ '' '' @ pad 25 rule [] @ '' '' @ pad 10 rule [] @ '' '' @ pad 9 rule [])))"

text \<open>A long field is followed by a line break and blanks up to the column of the next one.\<close>

definition wrapped :: "nat \<Rightarrow> nat \<Rightarrow> string \<Rightarrow> string" where
  "wrapped width column s = pad width (CHR '' '') s @ (if length s > width then pad column (CHR '' '') [CHR 0x0A] else [])"

definition remaining_colour :: "int \<Rightarrow> string" where
  "remaining_colour remaining =
     (if remaining sdiv day < 3 then ''red'' else if remaining sdiv day < 7 then ''orange'' else ''green'')"

definition print_entry_tableformat :: "terminal \<Rightarrow> config \<Rightarrow> list_options \<Rightarrow> entry \<Rightarrow> bool \<Rightarrow> bool io" where
  "print_entry_tableformat t c opts e headerprinted =
     let_io (fs_config_or_exit c (e_filesystem e)) (\<lambda>f.
     let_io (if \<not> ls_expired opts then getRemaining e else let_io time_now (\<lambda>now. ret (until_deletion f now e))) (\<lambda>remaining.
     let_io (getMaskedID e) (\<lambda>ID.
     let days = (if colours t then styled t (remaining_colour remaining) (remaining sdiv day)
                 else pad 9 (CHR '' '') (show_int (remaining sdiv day)))
     in seqs_io
          [when_io (\<not> headerprinted) (print_header (ls_terse opts)),
           print (if ls_terse opts
             then wrapped 30 31 ID @ '' '' @ wrapped 50 82 (e_workspace e) @ '' '' @ days
             else wrapped 30 31 ID @ '' '' @ wrapped 50 82 (e_workspace e) @ '' '' @ pad 25 (CHR '' '') (show_time t (e_expiration e)) @
               '' '' @ pad 10 (CHR '' '') (show_int (e_extensions e)) @ '' '' @ days)]
          (ret True))))"

text \<open>One entry in the chosen format; the flag is that of the header of the table.\<close>

definition show_entry :: "terminal \<Rightarrow> config \<Rightarrow> list_options \<Rightarrow> entry \<Rightarrow> bool \<Rightarrow> bool io" where
  "show_entry t c opts e headerprinted =
     (if ls_short opts then seq_io (let_io (getMaskedID e) print) (ret headerprinted)
      else if \<not> ls_table opts then seq_io (print_entry t c opts e) (ret headerprinted)
      else print_entry_tableformat t c opts e headerprinted)"

section \<open>The tool\<close>

definition list_filesystem_details :: "config \<Rightarrow> string \<Rightarrow> string list \<Rightarrow> unit io" where
  "list_filesystem_details c username grouplist =
     for_io (validFilesystems c username grouplist LIST) (\<lambda>fs.
       let_io (fs_config_or_exit c fs) (\<lambda>f.
         print (pad_left 10 fs @ pad_left 12 (show_int (fs_maxduration f)) @ pad_left 12 (show_int (fs_maxextensions f)) @
           pad_left 10 (show_int (fs_keeptime f)) @ pad_left 17 (show_int (fs_releasekeeptime f)) @
           pad_left 12 (show_bool (hasAccess c username grouplist fs CREATE \<and> fs_allocatable f)) @
           pad_left 12 (show_bool (hasAccess c username grouplist fs EXTEND \<and> fs_extendable f)) @
           pad_left 12 (show_bool (hasAccess c username grouplist fs RESTORE \<and> fs_restorable f)) @ ''   '' @ fs_comment f)))"

definition explanation :: "string list" where
  "explanation =
     [[], ''Explanation:'',
      ''      maxduration: maximum number of days you can specify with ws_allocate as lifetime'',
      ''       extensions: the numer of times you can extend the workspace'',
      ''         keeptime: the number of days an expired workspace can be restored (unless data was deleted)'',
      ''  releasekeeptime: the number of days a released workspace can be restored (unless data was deleted)'',
      ''      allocatable: flag if new workspaces can be created here'',
      ''       extendable: flag if workspaces can be extended here'',
      ''       restorable: flag if new workspaces can be restored here'']"

text \<open>
  The entries of one filesystem: shown at once, or kept for sorting. An exception while an entry is read or shown
  ends that entry; if it is none of the database, the entries after it in the block of the same thread are left out,
  too, which \<open>order\<close> may do as well.
\<close>

definition list_entry :: "ryml \<Rightarrow> terminal \<Rightarrow> config \<Rightarrow> list_options \<Rightarrow> database_handle \<Rightarrow> bool \<Rightarrow> string \<Rightarrow> entry list \<times> bool \<Rightarrow> (entry list \<times> bool) io" where
  "list_entry y t c opts db sorted_later i s =
     (case s of (entrylist, headerprinted) \<Rightarrow>
        catch_io
          (let_io (readEntry y db i (ls_expired opts)) (\<lambda>e.
             if sorted_later then ret (entrylist @ [e], headerprinted)
             else let_io (show_entry t c opts e headerprinted) (\<lambda>h. ret (entrylist, h))))
          (\<lambda>x. ret s))"

definition list_filesystem :: "ryml \<Rightarrow> terminal \<Rightarrow> (string list \<Rightarrow> string list) \<Rightarrow> config \<Rightarrow> list_options \<Rightarrow> string \<Rightarrow> string list \<Rightarrow> bool \<Rightarrow>
    string \<Rightarrow> entry list \<times> bool \<Rightarrow> (entry list \<times> bool) io" where
  "list_filesystem y t order c opts userpattern grouplist sorted_later fs s =
     catch_io
       (let_io (openDB c fs) (\<lambda>db.
        let_io (matchPattern y db (if ls_pattern opts = [] then ''*'' else ls_pattern opts) userpattern grouplist
                  (ls_expired opts) (ls_group opts)) (\<lambda>matchlist.
          fold_io (order matchlist) (list_entry y t c opts db sorted_later) s)))
       (\<lambda>x. case x of DatabaseException \<Rightarrow> ret s | _ \<Rightarrow> throw x)"

definition list_workspaces :: "ryml \<Rightarrow> terminal \<Rightarrow> (string list \<Rightarrow> string list) \<Rightarrow> (entry list \<Rightarrow> entry list) \<Rightarrow> config \<Rightarrow> list_options \<Rightarrow>
    string \<Rightarrow> string \<Rightarrow> string list \<Rightarrow> unit io" where
  "list_workspaces y t order ties c opts username userpattern grouplist =
     (let by = sorting (ls_remaining opts) (ls_creation opts) (ls_name opts);
          fslist = listed_filesystems (ls_filesystem opts) (validFilesystems c username grouplist LIST)
      in let_io (fold_io fslist (list_filesystem y t order c opts userpattern grouplist (by \<noteq> Unsorted)) ([], False)) (\<lambda>(entrylist, h).
           if by = Unsorted then ret ()
           else let sorted_list = sort_entries ties by entrylist
                in let_io (fold_io (if ls_reverted opts then rev sorted_list else sorted_list) (show_entry t c opts) h) (\<lambda>h. ret ())))"

definition ws_list :: "ryml \<Rightarrow> 'n yaml_cpp \<Rightarrow> terminal \<Rightarrow> (string list \<Rightarrow> string list) \<Rightarrow> (entry list \<Rightarrow> entry list) \<Rightarrow> list_options \<Rightarrow> unit io" where
  "ws_list y yc t order ties opts =
     let_io (valid_config yc (ls_config opts)) (\<lambda>c.
     let_io getUsername (\<lambda>username.
     let_io (user_pattern c (ls_user opts)) (\<lambda>userpattern.
     let_io (get_io getGrouplist) (\<lambda>grouplist.
       if ls_listfilesystems opts
       then seq_io (print ''available filesystems (sorted according to priority):'') (for_io (validFilesystems c username grouplist LIST) print)
       else if ls_listfilesystemdetails opts
       then seqs_io
         [print ''available filesystems (sorted according to priority):'', print [],
          print (pad_left 10 ''name'' @ pad_left 12 ''maxduration'' @ pad_left 12 ''extensions'' @ pad_left 10 ''keeptime'' @
            pad_left 17 ''releasekeeptime'' @ pad_left 12 ''allocatable'' @ pad_left 12 ''extendable'' @ pad_left 12 ''restorable'' @
            pad_left 10 ''comment''),
          list_filesystem_details c username grouplist,
          when_io (ls_verbose opts) (for_io explanation print)]
         (ret ())
       else list_workspaces y t order ties c opts username userpattern grouplist))))"

section \<open>What a listing shows\<close>

text \<open>The names among the entries of the area of a filesystem.\<close>

definition area_entry :: "config \<Rightarrow> files \<Rightarrow> bool \<Rightarrow> string \<Rightarrow> string \<Rightarrow> bool" where
  "area_entry c fs deleted name i \<longleftrightarrow>
     (\<exists>d j. map_option fst (follow 40 fs (comps (if deleted then path_append (database c name) (deletedPath c name) else database c name))) = Some d \<and>
        (d @ [i], j) \<in> set fs)"

lemma dirEntries_found:
  assumes "dirEntries p pat dirs w = (Done fl, w')" and "n \<in> set fl"
  shows "glob_match pat n \<and> (\<exists>d j. map_option fst (follow 40 (files w) (comps p)) = Some d \<and> (d @ [n], j) \<in> set (files w))"
proof -
  from dirEntries_run [OF assms(1)] assms(2) obtain w1 w2 d i where d: "follow 40 (files w) (comps p) = Some (d, i)"
    and f: "fold_io (list_dir (files w) d) (listing_step p pat dirs) [] w1 = (Done fl, w2)"
    by (auto split: option.splits if_splits)
  let ?names = "{m \<in> fst ` set (list_dir (files w) d). glob_match pat m}"
  from f have "set fl \<subseteq> ?names"
  proof (rule fold_io_preserves [where I = "\<lambda>s. set s \<subseteq> ?names"])
    fix e s v s' v'
    assume "e \<in> set (list_dir (files w) d)" and "set s \<subseteq> ?names" and "listing_step p pat dirs e s v = (Done s', v')"
    moreover from this(3) have "s' = s \<or> s' = s @ [fst e] \<and> glob_match pat (fst e)"
      by (auto simp: listing_step_def let_io_Done ret_Done split: if_splits)
    ultimately show "set s' \<subseteq> ?names" by auto
  qed simp
  with assms(2) d show ?thesis by (force simp: list_dir_iff)
qed

lemma matchPattern_found:
  assumes "matchPattern y db pat u gs deleted False w = (Done ids, w')" and "i \<in> set ids"
  shows "glob_match (u @ ''-'' @ pat) i \<and> area_entry (db_config db) (files w) deleted (db_fs db) i"
proof -
  let ?p = "if deleted then path_append (database (db_config db) (db_fs db)) (deletedPath (db_config db) (db_fs db)) else database (db_config db) (db_fs db)"
  have "dirEntries ?p (u @ ''-'' @ pat) False w = (Done ids, w')"
    using assms(1) by (auto simp: matchPattern_def Let_def catch_io_def throw_def split: prod.splits outcome.splits exn.splits)
  from dirEntries_found [OF this assms(2)] show ?thesis by (simp add: area_entry_def)
qed

lemma readFromString_id: "readFromString y t e w = (Done e', w') \<Longrightarrow> e_id e' = e_id e"
  by (auto simp: readFromString_def Let_def Done_iffs throw_def split: option.splits document.splits)

lemma readEntry_id:
  assumes "readEntry y db i deleted w = (Done e, w')"
  shows "e_id e = i"
proof -
  have h: "catch_io m (\<lambda>x. throw DatabaseException) v = (Done e, w') \<Longrightarrow> m v = (Done e, w')" for m :: "entry io" and v
    by (auto simp: catch_io_def throw_def split: prod.splits outcome.splits)
  from assms show ?thesis
    unfolding readEntry_def readFromFile_def Let_def by (auto simp: Done_iffs throw_def split: if_splits dest!: h readFromString_id)
qed

lemma substr_from_suffix: "substr_from n s = Some t \<Longrightarrow> suffix t s"
  by (auto simp: substr_from_def suffix_drop split: if_splits)

lemma getID_suffix: "getID known i = Some n \<Longrightarrow> suffix n i"
  by (auto simp: getID_def substr_from_suffix split: if_splits option.splits)

lemma getMaskedID_suffix: "getMaskedID e w = (Done n, w') \<Longrightarrow> suffix n (e_id e)"
  by (auto simp: getMaskedID_def Let_def Done_iffs throw_def suffix_drop split: if_splits option.splits dest: getID_suffix)

text \<open>Nothing changed but the output, and each new line is \<open>good\<close>.\<close>

definition lines_of :: "(string \<Rightarrow> bool) \<Rightarrow> world \<Rightarrow> world \<Rightarrow> bool" where
  "lines_of good w v \<longleftrightarrow> untouched w v \<and> (\<exists>new. stdout v = new @ stdout w \<and> (\<forall>line \<in> set new. good line))"

lemma untouched_trans: "untouched u v \<Longrightarrow> untouched v w \<Longrightarrow> untouched u w"
  by (auto simp: untouched_def same_setup_def)

lemma lines_silent: "lines_of good w v \<Longrightarrow> silent v u \<Longrightarrow> lines_of good w u"
  unfolding lines_of_def silent_def by (metis untouched_trans)

lemma ends_silent:
  assumes "keeps silent m" and "lines_of good w v"
    and "\<And>a v'. m v = (Done a, v') \<Longrightarrow> lines_of good w v' \<Longrightarrow> Q a v'" and "\<And>v'. lines_of good w v' \<Longrightarrow> F v'"
  shows "ends m v Q F"
  by (rule ends_keeps [OF assms(1)]) (use assms(2-4) lines_silent in blast)+

lemma ends_line: "lines_of good w v \<Longrightarrow> good x \<Longrightarrow> (\<And>v'. lines_of good w v' \<Longrightarrow> Q () v') \<Longrightarrow> ends (print x) v Q F"
proof -
  assume v: "lines_of good w v" and x: "good x" and q: "\<And>v'. lines_of good w v' \<Longrightarrow> Q () v'"
  have "lines_of good w (v\<lparr>stdout := x # stdout v\<rparr>)"
  proof -
    from v obtain new where "stdout v = new @ stdout w" "\<forall>line \<in> set new. good line" by (auto simp: lines_of_def)
    then have "stdout (v\<lparr>stdout := x # stdout v\<rparr>) = (x # new) @ stdout w" "\<forall>line \<in> set (x # new). good line" using x by simp_all
    moreover have "untouched w (v\<lparr>stdout := x # stdout v\<rparr>)" using v by (simp add: lines_of_def untouched_def same_setup_def)
    ultimately show ?thesis unfolding lines_of_def by blast
  qed
  then show ?thesis using q by (simp add: ends_def print_def put_io_def)
qed

lemma ends_masked:
  assumes "lines_of good w v" and "\<And>n. suffix n (e_id e) \<Longrightarrow> good n" and "\<And>v'. lines_of good w v' \<Longrightarrow> Q () v'"
    and "\<And>v'. lines_of good w v' \<Longrightarrow> F v'"
  shows "ends (let_io (getMaskedID e) print) v Q F"
  unfolding ends_let
proof (rule ends_silent [OF _ assms(1)])
  show "keeps silent (getMaskedID e)"
    unfolding getMaskedID_def Let_def by (intro silent.readers; auto intro!: silent.readers split: option.split)
  show "ends (print n) v' Q F" if "getMaskedID e v = (Done n, v')" "lines_of good w v'" for n v'
    using that(2) assms(2) [OF getMaskedID_suffix [OF that(1)]] assms(3) by (rule ends_line)
qed (rule assms(4))

lemma ends_short:
  assumes "lines_of good w v" and "\<And>n. suffix n (e_id e) \<Longrightarrow> good n" and "ls_short opts"
  shows "ends (show_entry t c opts e h) v (\<lambda>h. lines_of good w) (lines_of good w)"
  using assms by (simp add: show_entry_def ends_seq ends_simple) (rule ends_masked)

text \<open>The state of the list while it is read: the entries kept for sorting may be shown.\<close>

definition may_show :: "(string \<Rightarrow> bool) \<Rightarrow> world \<Rightarrow> entry list \<times> bool \<Rightarrow> world \<Rightarrow> bool" where
  "may_show good w s v \<longleftrightarrow> lines_of good w v \<and> (\<forall>e \<in> set (fst s). \<forall>n. suffix n (e_id e) \<longrightarrow> good n)"

lemma ends_list_entry:
  assumes "may_show good w s v" and "\<And>n. suffix n i \<Longrightarrow> good n" and "ls_short opts"
  shows "ends (list_entry y t c opts db later i s) v (may_show good w) (lines_of good w)"
proof (cases s)
  case (Pair es h)
  have v: "lines_of good w v" and old: "\<forall>e \<in> set es. \<forall>n. suffix n (e_id e) \<longrightarrow> good n" using assms(1) Pair by (simp_all add: may_show_def)
  have stay: "lines_of good w u \<Longrightarrow> lines_of good w u \<and> (\<forall>e. ends (ret (es, h)) u (may_show good w) (lines_of good w))" for u
    using old by (simp add: ends_simple may_show_def)
  show ?thesis
    unfolding list_entry_def Pair prod.case
  proof (rule ends_catch, unfold ends_let, rule ends_silent [OF silent.database_readers(4) v])
    fix e v' assume e: "readEntry y db i (ls_expired opts) v = (Done e, v')" and v': "lines_of good w v'"
    have good: "suffix n (e_id e) \<Longrightarrow> good n" for n using assms(2) readEntry_id [OF e] by simp
    show "ends (if later then ret (es @ [e], h) else let_io (show_entry t c opts e h) (\<lambda>h. ret (es, h))) v' (may_show good w)
        (\<lambda>w'. lines_of good w w' \<and> (\<forall>e. ends (ret (es, h)) w' (may_show good w) (lines_of good w)))"
    proof (cases later)
      case True
      then show ?thesis using v' old good by (auto simp: ends_simple may_show_def)
    next
      case False
      show ?thesis unfolding if_not_P [OF False] ends_let
        by (rule ends_mono [OF ends_short [OF v' good assms(3)]]) (use old stay in \<open>auto simp: ends_simple may_show_def\<close>)
    qed
  qed (rule stay)
qed

text \<open>The line is the end of the name of an entry of the filesystem that begins with the user's name.\<close>

definition names_entry :: "config \<Rightarrow> files \<Rightarrow> bool \<Rightarrow> string \<Rightarrow> string \<Rightarrow> string \<Rightarrow> bool" where
  "names_entry c fs deleted user name line \<longleftrightarrow>
     (\<exists>i. area_entry c fs deleted name i \<and> prefix (user @ ''-'') i \<and> suffix line i)"

lemma ends_list_filesystem:
  assumes s: "may_show good w s v" and short: "ls_short opts" and group: "\<not> ls_group opts" and plain: "glob_plain user"
    and order: "\<And>xs. set (order xs) \<subseteq> set xs" and good: "\<And>n. names_entry c (files w) (ls_expired opts) user name n \<Longrightarrow> good n"
  shows "ends (list_filesystem y t order c opts user gs later name s) v (may_show good w) (lines_of good w)"
proof -
  have v: "lines_of good w v" using s by (simp add: may_show_def)
  have stay: "lines_of good w u \<Longrightarrow> lines_of good w u \<and>
      (\<forall>x. ends (case x of DatabaseException \<Rightarrow> ret s | _ \<Rightarrow> throw x) u (may_show good w) (lines_of good w))" for u
    using s by (auto simp: ends_simple may_show_def split: exn.split)
  show ?thesis
    unfolding list_filesystem_def
  proof (rule ends_catch, unfold ends_let, rule ends_silent [OF silent.database_readers(3) v])
    fix db v1 assume db: "openDB c name v = (Done db, v1)" and v1: "lines_of good w v1"
    let ?pat = "if ls_pattern opts = [] then ''*'' else ls_pattern opts"
    show "ends (matchPattern y db ?pat user gs (ls_expired opts) (ls_group opts)) v1
        (\<lambda>ml v2. ends (fold_io (order ml) (list_entry y t c opts db later) s) v2 (may_show good w)
          (\<lambda>u. lines_of good w u \<and> (\<forall>x. ends (case x of DatabaseException \<Rightarrow> ret s | _ \<Rightarrow> throw x) u (may_show good w) (lines_of good w))))
        (\<lambda>u. lines_of good w u \<and> (\<forall>x. ends (case x of DatabaseException \<Rightarrow> ret s | _ \<Rightarrow> throw x) u (may_show good w) (lines_of good w)))"
    proof (rule ends_silent [OF silent.database_readers(5) v1])
      fix ml v2 assume ml: "matchPattern y db ?pat user gs (ls_expired opts) (ls_group opts) v1 = (Done ml, v2)" and v2: "lines_of good w v2"
      have f: "files v1 = files w" using v1 by (simp add: lines_of_def untouched_def)
      have found: "suffix n i \<Longrightarrow> good n" if i: "i \<in> set (order ml)" for i n
      proof -
        have "i \<in> set ml" using i order by blast
        moreover have "matchPattern y db ?pat user gs (ls_expired opts) False v1 = (Done ml, v2)" using ml group by simp
        ultimately have "glob_match (user @ ''-'' @ ?pat) i \<and> area_entry (db_config db) (files v1) (ls_expired opts) (db_fs db) i"
          by (intro matchPattern_found)
        with openDB_config [OF db]
        have "glob_match (user @ ''-'' @ ?pat) i" "area_entry c (files w) (ls_expired opts) name i" by (simp_all add: f)
        moreover from this(1) have "prefix (user @ ''-'') i"
          using plain glob_match_plain_prefix [of "user @ ''-''" ?pat i] by (auto simp: glob_plain_def)
        ultimately show "suffix n i \<Longrightarrow> good n" using good by (auto simp: names_entry_def)
      qed
      have "ends (fold_io (order ml) (list_entry y t c opts db later) s) v2 (may_show good w) (lines_of good w)"
        by (rule ends_fold, use s v2 in \<open>simp add: may_show_def\<close>) (erule ends_list_entry [OF _ _ short], use found in blast)
      then show "ends (fold_io (order ml) (list_entry y t c opts db later) s) v2 (may_show good w)
          (\<lambda>u. lines_of good w u \<and> (\<forall>x. ends (case x of DatabaseException \<Rightarrow> ret s | _ \<Rightarrow> throw x) u (may_show good w) (lines_of good w)))"
        by (rule ends_mono) (use stay in simp_all)
    qed (rule stay)
  qed (rule stay)
qed

lemma ends_list_workspaces:
  assumes v: "lines_of good w v" and short: "ls_short opts" and group: "\<not> ls_group opts" and plain: "glob_plain user"
    and order: "\<And>xs. set (order xs) \<subseteq> set xs" and ties: "\<And>es. set (ties es) \<subseteq> set es"
    and good: "\<And>name n. name \<in> set (validFilesystems c username gs LIST) \<Longrightarrow> names_entry c (files w) (ls_expired opts) user name n \<Longrightarrow> good n"
  shows "ends (list_workspaces y t order ties c opts username user gs) v (\<lambda>a. lines_of good w) (lines_of good w)"
proof -
  let ?by = "sorting (ls_remaining opts) (ls_creation opts) (ls_name opts)"
  let ?fslist = "listed_filesystems (ls_filesystem opts) (validFilesystems c username gs LIST)"
  have sub: "set ?fslist \<subseteq> set (validFilesystems c username gs LIST)" by (auto simp: listed_filesystems_def)
  have read: "ends (fold_io ?fslist (list_filesystem y t order c opts user gs (?by \<noteq> Unsorted)) ([], False)) v (may_show good w) (lines_of good w)"
  proof (rule ends_fold)
    show "may_show good w ([], False) v" using v by (simp add: may_show_def)
    fix name s u assume "name \<in> set ?fslist" and s: "may_show good w s u"
    then have "names_entry c (files w) (ls_expired opts) user name n \<Longrightarrow> good n" for n using sub good by blast
    with s short group plain order show "ends (list_filesystem y t order c opts user gs (?by \<noteq> Unsorted) name s) u (may_show good w) (lines_of good w)"
      by (rule ends_list_filesystem)
  qed
  show ?thesis
    unfolding list_workspaces_def Let_def ends_let
  proof (rule ends_mono [OF read])
    fix s u assume s: "may_show good w s u"
    obtain es h where es: "s = (es, h)" by (cases s)
    let ?sorted = "sort_entries ties ?by es"
    have sub: "set ?sorted \<subseteq> set es" using ties [of es] by (auto simp: sort_entries_def split: sort_by.split)
    have shown: "ends (fold_io (if ls_reverted opts then rev ?sorted else ?sorted) (show_entry t c opts) h) u (\<lambda>h. lines_of good w) (lines_of good w)"
    proof (rule ends_fold)
      show "lines_of good w u" using s by (simp add: may_show_def)
      fix e h u assume "e \<in> set (if ls_reverted opts then rev ?sorted else ?sorted)" and u: "lines_of good w u"
      then have "e \<in> set es" using sub by (auto split: if_splits)
      then have "suffix n (e_id e) \<Longrightarrow> good n" for n using s es by (simp add: may_show_def)
      with u show "ends (show_entry t c opts e h) u (\<lambda>h. lines_of good w) (lines_of good w)" using short by (rule ends_short)
    qed
    have "lines_of good w u" using s by (simp add: may_show_def)
    then show "ends (case s of (entrylist, h) \<Rightarrow> if ?by = Unsorted then ret () else
        let_io (fold_io (if ls_reverted opts then rev (sort_entries ties ?by entrylist) else sort_entries ties ?by entrylist) (show_entry t c opts) h) (\<lambda>h. ret ()))
        u (\<lambda>a. lines_of good w) (lines_of good w)"
      unfolding es prod.case ends_if ends_let using shown by (simp add: ends_simple)
  qed
qed

section \<open>Properties\<close>

text \<open>C21. The short list of \<open>ws_list\<close> changes no file and shows a user who is not root and no administrator only the names of
  entries that begin with the user's own name, in filesystems the user may list, whichever calls fail and in
  whatever order the threads come. (The names can still be those of another user, when that one's name begins with
  the caller's and a dash.)\<close>

theorem short_list_shows_own:
  assumes run: "ws_list y yc t order ties opts w = (r, w')" and mode: "ls_short opts" "\<not> ls_group opts"
      "\<not> ls_listfilesystems opts" "\<not> ls_listfilesystemdetails opts"
    and c: "valid_config yc (ls_config opts) w = (Done c, v)"
    and user: "getpwuid (accounts w) (ruid (cred w)) = Some pw" "glob_plain (pw_name pw)" "\<not> isRoot w" "\<not> isAdmin c (pw_name pw)"
    and threads: "\<And>xs. set (order xs) \<subseteq> set xs" "\<And>es. set (ties es) \<subseteq> set es"
  shows "files w' = files w \<and> (\<exists>new. stdout w' = new @ stdout w \<and> (\<forall>line \<in> set new.
    \<exists>name \<in> set (validFilesystems c (pw_name pw) (getGrouplist v) LIST). names_entry c (files w) (ls_expired opts) (pw_name pw) name line))"
proof -
  let ?u = "pw_name pw"
  let ?good = "\<lambda>line. \<exists>name \<in> set (validFilesystems c ?u (getGrouplist v) LIST). names_entry c (files w) (ls_expired opts) ?u name line"
  have wv: "silent w v" using silent_config c by (rule keepsD)
  then have v: "lines_of ?good w v" by (simp add: silent_def lines_of_def)
  note me = own_pattern [OF wv user(1,3,4)]
  have "list_workspaces y t order ties c opts ?u ?u (getGrouplist v) v = (r, w')"
    using run c me mode(3,4) by (simp add: ws_list_def let_io_def get_io_def)
  moreover have "ends (list_workspaces y t order ties c opts ?u ?u (getGrouplist v)) v (\<lambda>a. lines_of ?good w) (lines_of ?good w)"
    using v mode(1,2) user(2) threads by (rule ends_list_workspaces) blast
  ultimately have "lines_of ?good w w'" by (auto dest: endsD)
  then show ?thesis by (simp add: lines_of_def untouched_def)
qed

definition plain_terminal :: terminal where
  "plain_terminal = \<lparr>show_time = show_int, colours = False, styled = (\<lambda>c n. show_int n)\<rparr>"

definition short_options :: list_options where
  "short_options = \<lparr>ls_filesystem = [], ls_user = [], ls_config = [], ls_pattern = [], ls_group = False, ls_listfilesystems = False,
     ls_listfilesystemdetails = False, ls_short = True, ls_expired = False, ls_name = True, ls_creation = False, ls_remaining = False,
     ls_reverted = False, ls_terse = False, ls_table = False, ls_permissions = False, ls_verbose = False\<rparr>"

definition alices_list :: "unit outcome \<times> world" where
  "alices_list = ws_list simple_ryml site_yaml plain_terminal id id short_options (site_world 5)"

lemma short_list_shows_own_witness:
  "stdout (snd alices_list) = [''a''] \<and> files (snd alices_list) = site_files \<and>
   (\<exists>name. names_entry site_config site_files False ''alice'' name ''a'')"
proof -
  have v: "valid_config site_yaml [] (site_world 5) = (Done site_config, snd (valid_config site_yaml [] (site_world 5)))"
  proof -
    have "fst (valid_config site_yaml [] (site_world 5)) = Done site_config" by code_simp
    then show ?thesis by (metis prod.collapse)
  qed
  have r: "ws_list simple_ryml site_yaml plain_terminal id id short_options (site_world 5) = (fst alices_list, snd alices_list)"
    by (simp add: alices_list_def)
  have out: "stdout (snd alices_list) = [''a'']" by code_simp
  have w: "files (site_world 5) = site_files" "stdout (site_world 5) = []" by (simp_all add: site_world_def example_world_def)
  let ?alice = "\<lparr>pw_name = ''alice'', pw_uid = 1000, pw_gid = 100, pw_dir = ''/home/alice''\<rparr>"
  have user: "getpwuid (accounts (site_world 5)) (ruid (cred (site_world 5))) = Some ?alice" "glob_plain (pw_name ?alice)"
      "\<not> isRoot (site_world 5)" "\<not> isAdmin site_config (pw_name ?alice)" by code_simp+
  have "files (snd alices_list) = files (site_world 5) \<and> (\<exists>new. stdout (snd alices_list) = new @ stdout (site_world 5) \<and>
      (\<forall>line \<in> set new. \<exists>name \<in> set (validFilesystems site_config (pw_name ?alice)
          (getGrouplist (snd (valid_config site_yaml [] (site_world 5)))) LIST).
        names_entry site_config (files (site_world 5)) (ls_expired short_options) (pw_name ?alice) name line))"
    by (rule short_list_shows_own [OF r _ _ _ _ _ user]) (use v in \<open>simp_all add: short_options_def\<close>)
  then show ?thesis unfolding w by (auto simp: out short_options_def)
qed

end
