(* ===== verification/Reading.thy ===== *)
theory Reading
  imports Stat Find Validate WsList Ical
begin

text \<open>
  The tools that only read: \<open>ws_list\<close>, \<open>ws_find\<close>, \<open>ws_stat\<close>, \<open>ws_validate_config\<close> and \<open>ws_send_ical\<close> change no file.
\<close>

section \<open>Each tool\<close>

lemma find_reads: "keeps same_files (ws_find y yc opts)"
  unfolding ws_find_def find_in_def Let_def
  by (intro same.tools; auto intro!: same.tools split: option.split)

lemma validate_reads: "keeps same_files (ws_validate_config fl yc p)"
  unfolding ws_validate_config_def check_global_def check_admins_def print_limits_def check_filesystem_def print_policy_def print_list_def
    print_value_def seqs_io.simps check_space_def check_database_def check_all_def
    check_exists_def check_perms_def check_owner_def fs_status_def Let_def
  by (intro same.tools; auto intro!: same.tools split: option.split sum.split)

lemma list_reads: "keeps same_files (ws_list y yc t order ties opts)"
proof -
  have m: "keeps same_files (getMaskedID e)" for e
    unfolding getMaskedID_def Let_def by (intro same.tools; auto intro!: same.tools split: option.split)
  have r: "keeps same_files (getRemaining e)" for e unfolding getRemaining_def by (intro same.tools)
  have s: "keeps same_files (fs_status (sys_stat p))" for p unfolding fs_status_def
    by (intro same.tools; auto intro!: same.tools split: sum.split)
  have "keeps same_files (show_entry t c opts e h)" for c e h
    unfolding show_entry_def print_entry_def print_entry_tableformat_def print_remaining_def print_details_def print_header_def Let_def seqs_io.simps
    by (intro same.tools m r s)
  then show ?thesis
    unfolding ws_list_def list_workspaces_def list_filesystem_def list_entry_def list_filesystem_details_def Let_def seqs_io.simps
    by (intro same.tools; auto intro!: same.tools split: exn.split prod.split)
qed

lemma stat_reads: "keeps same_files (ws_stat y yc sx bad schedules nf order env hw opts)"
proof -
  have w: "keeps same_files (stat_workspace sx bad sch n p)" for sch n p
    unfolding stat_workspace_def collect_level_def by (intro same.tools; auto intro!: same.tools split: prod.split)
  have "keeps same_files (print_result nf e r)" for e r
    unfolding print_result_def seqs_io.simps by (intro same.tools)
  then have "keeps same_files (stat_all sx bad schedules nf n es)" for n es
    unfolding stat_all_def by (intro same.tools w; auto intro!: same.tools split: option.split)
  moreover have "keeps same_files (stat_entries y c opts fss u gs)" for c fss u gs
    unfolding stat_entries_def by (intro same.tools; auto intro!: same.tools split: option.split)
  ultimately show ?thesis unfolding ws_stat_def Let_def by (intro same.tools)
qed

lemma ical_reads: "keeps same_files (ws_send_ical y yc l ics_date opts)"
proof -
  have m: "keeps same_files (send_invitation l ics_date c to now e)" for c to now e
    unfolding send_invitation_def generateMail_def generateMessageID_def Let_def by (intro same.tools mail_frames)
  have c: "keeps same_files (ical_commandline yc opts u)" for u
    unfolding ical_commandline_def Let_def by (auto intro!: same.tools split: option.split)
  have "keeps same_files (ical_entries y c fss n u gs)" for c fss n u gs
    unfolding ical_entries_def by (intro same.tools; auto intro!: same.tools split: option.split exn.split)
  then show ?thesis
    unfolding ws_send_ical_def Let_def
    by (intro same.tools c m; auto intro!: same.tools m split: prod.split list.split)
qed

section \<open>Properties\<close>

text \<open>C24. None of the five tools that show workspaces or the configuration changes a file, whatever the options, the
  configuration and the database are, whichever calls fail and however their threads are scheduled.\<close>

theorem reading_tools_change_no_file:
  "files (snd (ws_list y yc t order ties list_opts w)) = files w \<and>
   files (snd (ws_find y yc find_opts w)) = files w \<and>
   files (snd (ws_stat y yc sx bad schedules nf by_name env hw stat_opts w)) = files w \<and>
   files (snd (ws_validate_config fl yc configfile w)) = files w \<and>
   files (snd (ws_send_ical y yc l ics_date ical_opts w)) = files w"
  by (intro conjI list_reads [unfolded keeps_def same_files_def, rule_format] find_reads [unfolded keeps_def same_files_def, rule_format]
      stat_reads [unfolded keeps_def same_files_def, rule_format] validate_reads [unfolded keeps_def same_files_def, rule_format]
      ical_reads [unfolded keeps_def same_files_def, rule_format])

end
