(* ===== verification/Store.thy ===== *)
theory Store
  imports Find
begin

text \<open>
  The interface of \<open>src/src/db.h\<close> and what \<open>dbv1.cpp\<close> promises under it: a database is a map from ids, active or
  deleted, to entries. The requests are those of the classes \<open>Database\<close> and \<open>DBEntry\<close> that work on one entry or
  list them; the specification answers them on the map, and the directory with its files is shown to refine it.
\<close>

section \<open>Requests and answers\<close>

datatype db_request =
    Create string string path int int int int bool string string string
  | Read string bool
  | Delete string bool
  | Extend string int string int string
  | List_ids string string bool

datatype answer = Finished | Refused | Found entry | Ids "string set"

text \<open>A client catches the exception of the database and goes on.\<close>

definition answer_request :: "ryml \<Rightarrow> database_handle \<Rightarrow> db_request \<Rightarrow> answer io" where
  "answer_request y db rq =
     (case rq of
        Create i username workspace creation expiration reminder extensions groupflag grp mailaddress comment \<Rightarrow>
          let_io (createEntry y db i username workspace creation expiration reminder extensions groupflag grp mailaddress comment)
            (\<lambda>u. ret Finished)
      | Read i deleted \<Rightarrow> let_io (readEntry y db i deleted) (\<lambda>e. ret (Found e))
      | Delete i deleted \<Rightarrow> let_io (deleteEntry db i deleted) (\<lambda>u. ret Finished)
      | Extend i expiration mailaddress reminder comment \<Rightarrow>
          let_io (readEntry y db i False) (\<lambda>e.
          let_io (useExtension y expiration mailaddress reminder comment e) (\<lambda>e'. ret (Found e')))
      | List_ids pattern user deleted \<Rightarrow>
          let_io (matchPattern y db pattern user [] deleted False) (\<lambda>ids. ret (Ids (set ids))))"

definition serve :: "ryml \<Rightarrow> database_handle \<Rightarrow> db_request \<Rightarrow> answer io" where
  "serve y db rq = let_io (try_database (answer_request y db rq)) (\<lambda>a. ret (case a of None \<Rightarrow> Refused | Some a \<Rightarrow> a))"

section \<open>The specification\<close>

type_synonym store = "string \<times> bool \<Rightarrow> entry option"

text \<open>The entry a client gets back for a new one: a group counts only with the group flag.\<close>

definition created :: "database_handle \<Rightarrow> path \<Rightarrow> string \<Rightarrow> string \<Rightarrow> path \<Rightarrow> int \<Rightarrow> int \<Rightarrow> int \<Rightarrow> int \<Rightarrow> bool \<Rightarrow> string \<Rightarrow> string \<Rightarrow> string \<Rightarrow> entry" where
  "created db file i username workspace creation expiration reminder extensions groupflag grp mailaddress comment =
     \<lparr>e_parent = db, e_dbversion = 0, e_id = i, e_username = username, e_filesystem = db_fs db, e_workspace = workspace,
      e_creation = creation, e_expiration = expiration, e_released = 0, e_expired = 0, e_reminder = reminder,
      e_extensions = extensions, e_groupflag = (groupflag \<and> grp \<noteq> []), e_group = (if groupflag then grp else []),
      e_mailaddress = mailaddress, e_comment = comment, e_acctcode = [], e_dbfilepath = file\<rparr>"

text \<open>A later end costs one extension, except for root; without any left the request is refused.\<close>

definition extended :: "bool \<Rightarrow> int \<Rightarrow> string \<Rightarrow> int \<Rightarrow> string \<Rightarrow> entry \<Rightarrow> entry option" where
  "extended root expiration mailaddress reminder comment e =
     (let left = e_extensions e - (if \<not> root \<and> expiration \<noteq> - 1 \<and> expiration > e_expiration e then 1 else 0)
      in if left < 0 \<and> \<not> root then None
         else Some (e\<lparr>e_mailaddress := (if mailaddress = [] then e_mailaddress e else mailaddress),
           e_reminder := (if reminder = 0 then e_reminder e else reminder),
           e_comment := (if comment = [] then e_comment e else comment),
           e_extensions := left, e_expiration := (if expiration = - 1 then e_expiration e else expiration)\<rparr>))"

fun specified :: "database_handle \<Rightarrow> bool \<Rightarrow> db_request \<Rightarrow> store \<Rightarrow> answer \<times> store" where
  "specified db root (Create i username workspace creation expiration reminder extensions groupflag grp mailaddress comment) m =
     (if \<not> one_comp i then (Refused, m)
      else (Finished, m((i, False) \<mapsto> created db (entry_path (db_config db) (db_fs db) i False) i username workspace creation
              expiration reminder extensions groupflag grp mailaddress comment)))"
| "specified db root (Read i deleted) m = (case m (i, deleted) of None \<Rightarrow> (Refused, m) | Some e \<Rightarrow> (Found e, m))"
| "specified db root (Delete i deleted) m = (if \<not> one_comp i then (Refused, m) else (Finished, m((i, deleted) := None)))"
| "specified db root (Extend i expiration mailaddress reminder comment) m =
     (case m (i, False) of
        None \<Rightarrow> (Refused, m)
      | Some e \<Rightarrow> (case extended root expiration mailaddress reminder comment e of
                     None \<Rightarrow> (Refused, m)
                   | Some e' \<Rightarrow> (Found e', m((i, False) \<mapsto> e'))))"
| "specified db root (List_ids pattern user deleted) m =
     (Ids {i. m (i, deleted) \<noteq> None \<and> glob_match (user @ ''-'' @ pattern) i}, m)"

section \<open>Sequences of requests\<close>

primrec serve_all :: "(db_request \<Rightarrow> answer io) \<Rightarrow> db_request list \<Rightarrow> answer list io" where
  "serve_all perform [] = ret []"
| "serve_all perform (rq # rqs) = let_io (perform rq) (\<lambda>a. let_io (serve_all perform rqs) (\<lambda>as. ret (a # as)))"

primrec specified_all :: "(db_request \<Rightarrow> store \<Rightarrow> answer \<times> store) \<Rightarrow> db_request list \<Rightarrow> store \<Rightarrow> answer list \<times> store" where
  "specified_all spec [] m = ([], m)"
| "specified_all spec (rq # rqs) m =
     (case spec rq m of (a, m') \<Rightarrow> (case specified_all spec rqs m' of (as, m'') \<Rightarrow> (a # as, m'')))"

text \<open>A database for its clients: requests are answered as the specification says, one after the other.\<close>

locale entry_database =
  fixes perform :: "db_request \<Rightarrow> answer io" and spec :: "db_request \<Rightarrow> store \<Rightarrow> answer \<times> store"
    and holds :: "world \<Rightarrow> store \<Rightarrow> bool" and allowed :: "db_request \<Rightarrow> bool"
  assumes step: "holds w m \<Longrightarrow> allowed rq \<Longrightarrow> returns (perform rq) w (\<lambda>a w'. a = fst (spec rq m) \<and> holds w' (snd (spec rq m)))"
begin

lemma runs:
  assumes "holds w m" and "list_all allowed rqs"
  shows "returns (serve_all perform rqs) w (\<lambda>as w'. as = fst (specified_all spec rqs m) \<and> holds w' (snd (specified_all spec rqs m)))"
  using assms
proof (induction rqs arbitrary: w m)
  case Nil
  then show ?case by (simp add: returns_ret)
next
  case (Cons rq rqs)
  have first: "returns (perform rq) w (\<lambda>a w'. a = fst (spec rq m) \<and> holds w' (snd (spec rq m)))"
    using Cons.prems by (simp add: step)
  show ?case
    unfolding serve_all.simps returns_let returns_ret
    by (rule returns_mono [OF first], rule returns_mono [OF Cons.IH]) (use Cons.prems in \<open>auto split: prod.splits\<close>)
qed

text \<open>What the clients see depends on the map only.\<close>

lemma same_answers:
  assumes "holds w m" and "holds v m" and "list_all allowed rqs"
  shows "\<exists>as w' v'. serve_all perform rqs w = (Done as, w') \<and> serve_all perform rqs v = (Done as, v')"
  using runs [OF assms(1,3)] runs [OF assms(2,3)] by (auto simp: returns_def)

end

section \<open>The files of a database\<close>

definition area :: "Filesystem_config \<Rightarrow> bool \<Rightarrow> key" where
  "area f deleted = comps (fs_database f) @ (if deleted then [fs_deletedPath f] else [])"

text \<open>The names in the database directory that are no ids.\<close>

definition reserved_name :: "Filesystem_config \<Rightarrow> string \<times> bool \<Rightarrow> bool" where
  "reserved_name f x \<longleftrightarrow> \<not> snd x \<and> (fst x = ''.ws_db_magic'' \<or> fst x = fs_deletedPath f)"

definition read_as :: "database_handle \<Rightarrow> string \<times> bool \<Rightarrow> entry \<Rightarrow> entry" where
  "read_as db x e = stored e ((blank_entry db)\<lparr>e_id := fst x, e_filesystem := db_fs db,
     e_dbfilepath := entry_path (db_config db) (db_fs db) (fst x) (snd x)\<rparr>)"

definition entry_at :: "ryml \<Rightarrow> database_handle \<Rightarrow> Filesystem_config \<Rightarrow> files \<Rightarrow> string \<times> bool \<Rightarrow> entry option \<Rightarrow> bool" where
  "entry_at y db f fs x r \<longleftrightarrow>
     (case r of
        None \<Rightarrow> reserved_name f x \<or> map_of fs (area f (snd x) @ [fst x]) = None
      | Some e \<Rightarrow> \<not> reserved_name f x \<and> one_comp (fst x) \<and>
          (\<exists>j e0. map_of fs (area f (snd x) @ [fst x]) = Some j \<and> kind j = Reg (entry_text y e0) \<and> e = read_as db x e0))"

definition dir_in :: "files \<Rightarrow> key \<Rightarrow> bool" where
  "dir_in fs k \<longleftrightarrow> (\<exists>i. map_of fs k = Some i \<and> is_dir i)"

text \<open>The files hold the map: each entry in a file of its own, and nothing else beside them.\<close>

definition represents :: "ryml \<Rightarrow> database_handle \<Rightarrow> Filesystem_config \<Rightarrow> files \<Rightarrow> store \<Rightarrow> bool" where
  "represents y db f fs m \<longleftrightarrow> distinct (map fst fs) \<and> dir_in fs (area f False) \<and> dir_in fs (area f True) \<and>
     (\<forall>x. entry_at y db f fs x (m x))"

definition keeps_database :: "database_handle \<Rightarrow> Filesystem_config \<Rightarrow> bool" where
  "keeps_database db f \<longleftrightarrow> getFsConfig (db_config db) (db_fs db) = Some f \<and> one_comp (fs_deletedPath f)"

text \<open>Requests name ids, and list those of one user, or of all.\<close>

fun proper :: "Filesystem_config \<Rightarrow> db_request \<Rightarrow> bool" where
  "proper f (Create i u ws c e r x gf g ma co) = (\<not> reserved_name f (i, False))"
| "proper f (Read i deleted) = (\<not> reserved_name f (i, deleted))"
| "proper f (Delete i deleted) = (\<not> reserved_name f (i, deleted))"
| "proper f (Extend i e ma r co) = (\<not> reserved_name f (i, False))"
| "proper f (List_ids pattern user deleted) = (glob_plain user \<or> user = ''*'')"

lemma entry_key_at:
  assumes "keeps_database db f" and "one_comp i"
  shows "comps (entry_path (db_config db) (db_fs db) i d) = area f d @ [i]"
    and "comps (fs_database f @ CHR ''/'' # i) = area f False @ [i]"
  using assms comps_append_one [OF assms(2)] comps_append_one [of "fs_deletedPath f" "fs_database f"] comps_one [OF assms(2)]
  by (simp_all add: entry_path_def area_def keeps_database_def database_def deletedPath_def getFsConfig_def comps_slash)

lemma area_other: "z \<noteq> x \<Longrightarrow> area f (snd z) @ [fst z] \<noteq> area f (snd x) @ [fst x]"
  by (cases z; cases x) (auto simp: area_def split: if_splits)

lemma area_not_id: "\<not> reserved_name f (i, d) \<Longrightarrow> area f d' \<noteq> area f d @ [i]"
  by (auto simp: area_def reserved_name_def)

lemma dir_in_put: "k \<noteq> k' \<Longrightarrow> dir_in (fs_put k' j fs) k = dir_in fs k" "k \<noteq> k' \<Longrightarrow> dir_in (fs_del k' fs) k = dir_in fs k"
  by (simp_all add: dir_in_def map_of_put map_of_del)

lemma distinct_put: "distinct (map fst fs) \<Longrightarrow> distinct (map fst (fs_put k j fs))" "distinct (map fst fs) \<Longrightarrow> distinct (map fst (fs_del k fs))"
  by (auto simp: fs_put_def fs_del_def distinct_map_filter)

lemma entry_at_other:
  assumes "entry_at y db f fs x r" and "map_of fs' (area f (snd x) @ [fst x]) = map_of fs (area f (snd x) @ [fst x])"
  shows "entry_at y db f fs' x r"
  using assms(1) unfolding entry_at_def assms(2) .

lemma represents_at: "represents y db f fs m \<Longrightarrow> entry_at y db f fs x (m x)"
  by (simp add: represents_def del: split_paired_All)

lemma represents_put:
  assumes "represents y db f fs m" and "\<not> reserved_name f x" and "one_comp (fst x)" and "kind j = Reg (entry_text y e0)"
  shows "represents y db f (fs_put (area f (snd x) @ [fst x]) j fs) (m(x \<mapsto> read_as db x e0))"
proof -
  have r: "\<not> reserved_name f (fst x, snd x)" using assms(2) by simp
  have "entry_at y db f (fs_put (area f (snd x) @ [fst x]) j fs) z ((m(x \<mapsto> read_as db x e0)) z)" for z
  proof (cases "z = x")
    case True
    with assms(2-4) show ?thesis by (auto simp: entry_at_def map_of_put)
  next
    case False
    with represents_at [OF assms(1), of z] show ?thesis by (simp, elim entry_at_other) (use area_other [OF False] in \<open>auto simp: map_of_put\<close>)
  qed
  with assms(1) area_not_id [OF r] show ?thesis by (simp add: represents_def dir_in_put distinct_put del: split_paired_All)
qed

lemma represents_del:
  assumes "represents y db f fs m" and "\<not> reserved_name f x"
  shows "represents y db f (fs_del (area f (snd x) @ [fst x]) fs) (m(x := None))"
proof -
  have r: "\<not> reserved_name f (fst x, snd x)" using assms(2) by simp
  have "entry_at y db f (fs_del (area f (snd x) @ [fst x]) fs) z ((m(x := None)) z)" for z
  proof (cases "z = x")
    case True
    then show ?thesis by (auto simp: entry_at_def map_of_del)
  next
    case False
    with represents_at [OF assms(1), of z] show ?thesis by (simp, elim entry_at_other) (use area_other [OF False] in \<open>auto simp: map_of_del\<close>)
  qed
  with assms(1) area_not_id [OF r] show ?thesis by (simp add: represents_def dir_in_put distinct_put del: split_paired_All)
qed

lemma represents_file:
  assumes "represents y db f fs m" and "m x = Some e"
  shows "\<exists>j e0. map_of fs (area f (snd x) @ [fst x]) = Some j \<and> kind j = Reg (entry_text y e0) \<and> e = read_as db x e0"
    and "one_comp (fst x)" and "\<not> reserved_name f x"
proof -
  have "entry_at y db f fs x (Some e)" using represents_at [OF assms(1), of x] by (simp add: assms(2))
  then show "\<exists>j e0. map_of fs (area f (snd x) @ [fst x]) = Some j \<and> kind j = Reg (entry_text y e0) \<and> e = read_as db x e0"
    "one_comp (fst x)" "\<not> reserved_name f x" by (simp_all add: entry_at_def)
qed

lemma represents_free:
  assumes "represents y db f fs m" and "m x = None" and "\<not> reserved_name f x"
  shows "map_of fs (area f (snd x) @ [fst x]) = None"
proof -
  have "entry_at y db f fs x None" using represents_at [OF assms(1), of x] by (simp add: assms(2))
  with assms(3) show ?thesis by (simp add: entry_at_def)
qed

section \<open>Each operation\<close>

definition same_process :: "world \<Rightarrow> world \<Rightarrow> bool" where
  "same_process w v \<longleftrightarrow> files v = files w \<and> fault v = fault w \<and> cred v = cred w \<and> caps v = caps w"

interpretation process: reading_relation same_process
  by unfold_locales (auto simp: same_process_def keeps_def sys_call_def time_now_def rand_def)

definition serving :: "ryml \<Rightarrow> database_handle \<Rightarrow> Filesystem_config \<Rightarrow> bool \<Rightarrow> world \<Rightarrow> store \<Rightarrow> bool" where
  "serving y db f root w m \<longleftrightarrow> ready db_caps (files w) w \<and> root = (ruid (cred w) = 0) \<and> represents y db f (files w) m"

lemma serving_still: "serving y db f root w m \<Longrightarrow> same_process w v \<Longrightarrow> serving y db f root v m"
  using can_act_cong [of v w db_caps] by (simp add: serving_def same_process_def ready_def no_faults_def)

lemma read_runs:
  assumes y: "ryml_ok y" and db: "keeps_database db f" and w: "serving y db f root w m" and i: "\<not> reserved_name f (i, d)"
  shows "\<exists>w'. readEntry y db i d w = (case m (i, d) of None \<Rightarrow> Throw DatabaseException | Some e \<Rightarrow> Done e, w') \<and> serving y db f root w' m"
proof -
  have st: "keeps same_process (readEntry y db i d)" by (rule process.database_readers)
  have r: "represents y db f (files w) m" and nf: "no_faults w" using w by (simp_all add: serving_def ready_def)
  have "\<exists>w'. readEntry y db i d w = (case m (i, d) of None \<Rightarrow> Throw DatabaseException | Some e \<Rightarrow> Done e, w')"
  proof (cases "one_comp i")
    case False
    with represents_file(2) [OF r, of "(i, d)"] have "m (i, d) = None" by (cases "m (i, d)") auto
    with False show ?thesis by (simp add: readEntry_def checkID_def one_comp_def seq_io_def let_io_def throw_def)
  next
    case True
    note k = entry_key_at(1) [OF db True]
    have c: "readEntry y db i d w = readFromFile y i (db_fs db) (entry_path (db_config db) (db_fs db) i d) (blank_entry db) w"
      using True by (simp add: readEntry_def checkID_def one_comp_def seq_io_def let_io_def ret_def)
    show ?thesis
    proof (cases "m (i, d)")
      case None
      from represents_free [OF r None i] have "follow 40 (files w) (area f d @ [i]) = None" by (simp add: eval_nat_numeral)
      with None nf show ?thesis
        by (simp add: c readFromFile_def getFileContents_def k let_io_def sys_call_def no_faults_def get_io_def throw_def)
    next
      case (Some e)
      with represents_file(1) [OF r Some] obtain j e0 where e0: "map_of (files w) (area f d @ [i]) = Some j"
        "kind j = Reg (entry_text y e0)" "e = read_as db (i, d) e0" by auto
      from read_back [OF y nf e0(1) [folded k] e0(2), of i "db_fs db" "blank_entry db"] Some show ?thesis
        by (auto simp: c e0(3) read_as_def)
    qed
  qed
  with serving_still [OF w] keepsD [OF st] show ?thesis by blast
qed

lemma write_runs:
  assumes db: "keeps_database db f" and w: "serving y db f root w m" and i: "\<not> reserved_name f (i, False)" "one_comp i"
    and e: "comps (e_dbfilepath e) = area f False @ [i]"
  shows "returns (writeEntry y False e) w (\<lambda>u w'. serving y db f root w' (m((i, False) \<mapsto> read_as db (i, False) e)))"
proof -
  have r: "ready db_caps (files w) w" and m: "represents y db f (files w) m" using w by (simp_all add: serving_def)
  have "writable (files w) (area f False @ [i])"
  proof (cases "m (i, False)")
    case None
    have "dir_in (files w) (area f False)" using m by (simp add: represents_def)
    with represents_free [OF m None i(1)] show ?thesis by (auto simp: writable_def dir_in_def dir_at_def)
  next
    case (Some e)
    from represents_file(1) [OF m Some] show ?thesis by (auto simp: writable_def is_reg_def)
  qed
  then have wr: "writable (files w) (comps (e_dbfilepath e))" by (simp add: e)
  have "keeps same_setup (writeEntry y False e)" by (rule settings.writeEntry_calls) simp
  then have u: "writeEntry y False e w = (a, w') \<Longrightarrow> ruid (cred w') = ruid (cred w)" for a w'
    by (auto simp: same_setup_def dest: keepsD)
  have "returns (writeEntry y False e) w (\<lambda>u w'. ready db_caps (files w') w' \<and> represents y db f (files w') (m((i, False) \<mapsto> read_as db (i, False) e)))"
  proof (rule writeEntry_returns [OF r wr])
    fix j w' assume j: "kind j = Reg (entry_text y e)" and w': "ready db_caps (fs_put (comps (e_dbfilepath e)) j (files w)) w'"
    then have "files w' = fs_put (area f False @ [i]) j (files w)" by (simp add: ready_def e)
    with w' represents_put [OF m i(1), of j e] i(2) j
    show "ready db_caps (files w') w' \<and> represents y db f (files w') (m((i, False) \<mapsto> read_as db (i, False) e))"
      by (simp add: ready_def)
  qed
  with u w show ?thesis by (auto simp: returns_def serving_def)
qed

lemma create_runs:
  assumes db: "keeps_database db f" and w: "serving y db f root w m" and i: "\<not> reserved_name f (i, False)"
  shows "\<exists>w'. answer_request y db (Create i username workspace creation expiration reminder extensions groupflag grp mailaddress comment) w =
      (if one_comp i then Done Finished else Throw DatabaseException, w') \<and>
    serving y db f root w' (snd (specified db root (Create i username workspace creation expiration reminder extensions groupflag grp mailaddress comment) m))"
proof (cases "one_comp i")
  case False
  then have "checkID i = throw DatabaseException" by (auto simp: checkID_def one_comp_def)
  then show ?thesis using False w by (simp add: answer_request_def createEntry_def new_entry_def seq_io_def let_io_def throw_def)
next
  case True
  let ?e = "(blank_entry db)\<lparr>e_id := i, e_username := username, e_workspace := workspace,
             e_creation := creation, e_expiration := expiration, e_reminder := reminder,
             e_extensions := extensions, e_groupflag := groupflag, e_group := grp,
             e_mailaddress := mailaddress, e_comment := comment,
             e_dbfilepath := fs_database f @ ''/'' @ i, e_released := 0, e_expired := 0, e_acctcode := []\<rparr>"
  have f: "fs_config_or_exit (db_config db) (db_fs db) = ret f" using db by (simp add: keeps_database_def fs_config_or_exit_def)
  have "checkID i = ret ()" using True by (simp add: checkID_def one_comp_def)
  then have c: "createEntry y db i username workspace creation expiration reminder extensions groupflag grp mailaddress comment = writeEntry y False ?e"
    by (simp add: createEntry_def new_entry_def f let_ret seq_io_def)
  have k: "comps (e_dbfilepath ?e) = area f False @ [i]" using entry_key_at(2) [OF db True] by simp
  from write_runs [OF db w i True k] obtain w' where "writeEntry y False ?e w = (Done (), w')"
      "serving y db f root w' (m((i, False) \<mapsto> read_as db (i, False) ?e))" by (auto simp: returns_def)
  moreover have "read_as db (i, False) ?e = created db (entry_path (db_config db) (db_fs db) i False) i username workspace creation
              expiration reminder extensions groupflag grp mailaddress comment"
    by (simp add: read_as_def created_def stored_def blank_entry_def)
  ultimately show ?thesis using True by (simp add: answer_request_def c let_io_def ret_def)
qed

lemma delete_runs:
  assumes db: "keeps_database db f" and w: "serving y db f root w m" and i: "\<not> reserved_name f (i, d)"
  shows "\<exists>w'. deleteEntry db i d w = (if one_comp i then Done () else Throw DatabaseException, w') \<and>
    serving y db f root w' (if one_comp i then m((i, d) := None) else m)"
proof (cases "one_comp i")
  case False
  then have "checkID i = throw DatabaseException" by (auto simp: checkID_def one_comp_def)
  then show ?thesis using False w by (simp add: deleteEntry_def seq_io_def let_io_def throw_def)
next
  case True
  let ?k = "area f d @ [i]" and ?v = "snd (sys_call Sys_unlink (area f d @ [i]) w)"
  have r: "represents y db f (files w) m" and nf: "no_faults w" using w by (simp_all add: serving_def ready_def)
  have k: "comps (entry_path (db_config db) (db_fs db) i d) = ?k" by (rule entry_key_at(1) [OF db True])
  have f: "fs_config_or_exit (db_config db) (db_fs db) = ret f" using db by (simp add: keeps_database_def fs_config_or_exit_def)
  have "checkID i = ret ()" using True by (simp add: checkID_def one_comp_def)
  then have c: "deleteEntry db i d = catch_io (let_io (fs_remove (entry_path (db_config db) (db_fs db) i d)) (\<lambda>b. ret ()))
            (\<lambda>x. case x of Filesystem_error e \<Rightarrow> throw DatabaseException | _ \<Rightarrow> throw x)"
    by (simp add: deleteEntry_def f let_ret seq_io_def)
  have v: "serving y db f root ?v m" by (rule serving_still [OF w]) (simp add: same_process_def sys_call_def)
  have nov: "files ?v = files w" "fault w n op q = None" for n op q using nf by (simp_all add: sys_call_def no_faults_def)
  show ?thesis
  proof (cases "m (i, d)")
    case None
    from represents_free [OF r None i] have "map_of (files w) ?k = None" by simp
    then have "fs_remove (entry_path (db_config db) (db_fs db) i d) w = (Done False, ?v)"
      by (simp add: fs_remove_def k change_files_run let_io_def nov remove_rule_def ret_def)
    moreover have "m((i, d) := None) = m" using None by auto
    ultimately show ?thesis using True v by (simp add: c catch_io_def let_io_def ret_def)
  next
    case (Some e)
    from represents_file(1) [OF r Some] have "\<exists>j. map_of (files w) ?k = Some j \<and> \<not> is_dir j" by (auto simp: is_dir_def)
    then have "fs_remove (entry_path (db_config db) (db_fs db) i d) w = (Done True, ?v\<lparr>files := fs_del ?k (files w)\<rparr>)"
      by (auto simp: fs_remove_def k change_files_run let_io_def nov remove_rule_def unlink_rule_def ret_def)
    moreover have "serving y db f root (?v\<lparr>files := fs_del ?k (files w)\<rparr>) (m((i, d) := None))"
      using v represents_del [OF r i] by (simp add: serving_def ready_def)
    ultimately show ?thesis using True by (simp add: c catch_io_def let_io_def ret_def)
  qed
qed

lemma use_extension:
  "useExtension y expiration mailaddress reminder comment e w =
     (case extended (ruid (cred w) = 0) expiration mailaddress reminder comment e of
        None \<Rightarrow> (Throw DatabaseException, w)
      | Some e' \<Rightarrow> seq_io (writeEntry y False e') (ret e') w)"
  by (cases "mailaddress = []"; cases "reminder = 0"; cases "comment = []"; cases "expiration = - 1"; cases "ruid (cred w) = 0";
      cases "e_expiration e < expiration"; cases "e_extensions e < 1"; cases "e_extensions e < 0")
    (simp_all add: useExtension_def extended_def getuid_def let_io_def get_io_def throw_def Let_def)

lemma read_as_update:
  "read_as db x ((read_as db x e)\<lparr>e_mailaddress := ma, e_reminder := r, e_comment := co, e_extensions := n, e_expiration := t\<rparr>) =
     (read_as db x e)\<lparr>e_mailaddress := ma, e_reminder := r, e_comment := co, e_extensions := n, e_expiration := t\<rparr>"
  by (simp add: read_as_def stored_def blank_entry_def)

lemma extended_read:
  assumes "extended root expiration mailaddress reminder comment (read_as db x e) = Some e'"
  shows "read_as db x e' = e'" and "e_dbfilepath e' = entry_path (db_config db) (db_fs db) (fst x) (snd x)"
proof -
  obtain ma r co n t where e': "e' = (read_as db x e)\<lparr>e_mailaddress := ma, e_reminder := r, e_comment := co, e_extensions := n, e_expiration := t\<rparr>"
    using assms unfolding extended_def Let_def by (metis option.distinct(1) option.inject)
  show "read_as db x e' = e'" unfolding e' by (rule read_as_update)
  show "e_dbfilepath e' = entry_path (db_config db) (db_fs db) (fst x) (snd x)"
    unfolding e' by (simp add: read_as_def stored_def blank_entry_def)
qed

lemma extend_runs:
  assumes y: "ryml_ok y" and db: "keeps_database db f" and w: "serving y db f root w m" and i: "\<not> reserved_name f (i, False)"
  shows "\<exists>w'. answer_request y db (Extend i expiration mailaddress reminder comment) w =
      (case m (i, False) of
         None \<Rightarrow> Throw DatabaseException
       | Some e \<Rightarrow> (case extended root expiration mailaddress reminder comment e of None \<Rightarrow> Throw DatabaseException | Some e' \<Rightarrow> Done (Found e')), w') \<and>
    serving y db f root w' (snd (specified db root (Extend i expiration mailaddress reminder comment) m))"
proof -
  from read_runs [OF y db w i] obtain v where v: "readEntry y db i False w = (case m (i, False) of None \<Rightarrow> Throw DatabaseException | Some e \<Rightarrow> Done e, v)"
    "serving y db f root v m" by blast
  have u: "root = (ruid (cred v) = 0)" using v(2) by (simp add: serving_def)
  show ?thesis
  proof (cases "m (i, False)")
    case None
    with v show ?thesis by (simp add: answer_request_def let_io_def)
  next
    case (Some e)
    have r: "represents y db f (files w) m" using w by (simp add: serving_def)
    from represents_file(1,2) [OF r Some] obtain e0 where e0: "e = read_as db (i, False) e0" "one_comp i" by auto
    show ?thesis
    proof (cases "extended root expiration mailaddress reminder comment e")
      case None
      with v Some show ?thesis by (simp add: answer_request_def let_io_def use_extension flip: u)
    next
      case (Some e')
      note x = extended_read [OF Some [unfolded e0(1)]]
      have k: "comps (e_dbfilepath e') = area f False @ [i]" using x(2) entry_key_at(1) [OF db e0(2)] by simp
      from write_runs [OF db v(2) i e0(2) k] obtain w' where "writeEntry y False e' v = (Done (), w')"
        "serving y db f root w' (m((i, False) \<mapsto> e'))" by (auto simp: returns_def x(1))
      with v(1) Some \<open>m (i, False) = Some e\<close> show ?thesis
        by (simp add: answer_request_def let_io_def use_extension seq_io_def ret_def flip: u)
    qed
  qed
qed

lemma pattern_has_dash:
  assumes "glob_plain user \<or> user = ''*''" and "glob_match (user @ ''-'' @ p) n"
  shows "CHR ''-'' \<in> set n"
proof -
  have d: "glob_match (''-'' @ p) s \<Longrightarrow> CHR ''-'' \<in> set s" for s
    using glob_match_plain_prefix [of "''-''" p s] by (auto simp: glob_plain_def)
  show ?thesis
  proof (cases "user = ''*''")
    case True
    with assms(2) obtain s where "suffix s n" "glob_match (''-'' @ p) s" by (auto simp: glob_match_star_prefix)
    with d show ?thesis by (auto simp: suffix_def)
  next
    case False
    with assms glob_match_plain_prefix [of user "''-'' @ p" n] d show ?thesis by auto
  qed
qed

lemma listed_ids:
  assumes r: "represents y db f fs m" and u: "glob_plain user \<or> user = ''*''"
  shows "set (matching fs (area f d) (user @ ''-'' @ p)) = {i. m (i, d) \<noteq> None \<and> glob_match (user @ ''-'' @ p) i}"
proof -
  have in_fs: "(area f d @ [n], j) \<in> set fs \<longleftrightarrow> map_of fs (area f d @ [n]) = Some j" for n j
    using r by (simp add: represents_def)
  have "(\<exists>j. map_of fs (area f d @ [n]) = Some j \<and> (is_link j \<or> is_reg j)) \<longleftrightarrow> m (n, d) \<noteq> None"
    if "glob_match (user @ ''-'' @ p) n" for n
  proof (cases "m (n, d)")
    case None
    show ?thesis
    proof (cases "reserved_name f (n, d)")
      case True
      have "n \<noteq> ''.ws_db_magic''" using pattern_has_dash [OF u that] by auto
      with True have n: "\<not> d" "n = fs_deletedPath f" by (auto simp: reserved_name_def)
      have "dir_in fs (area f True)" using r by (simp add: represents_def)
      with n None show ?thesis by (auto simp: dir_in_def area_def is_dir_def is_link_def is_reg_def split: kind.splits)
    next
      case False
      with represents_free [OF r None] None show ?thesis by simp
    qed
  next
    case (Some e)
    from represents_file(1) [OF r Some] Some show ?thesis by (auto simp: is_reg_def)
  qed
  then show ?thesis
    unfolding matching_def by (force simp: list_dir_iff in_fs image_iff)
qed

lemma list_runs:
  assumes db: "keeps_database db f" and w: "serving y db f root w m" and u: "glob_plain user \<or> user = ''*''"
  shows "returns (matchPattern y db p user [] d False) w
    (\<lambda>ids w'. set ids = {i. m (i, d) \<noteq> None \<and> glob_match (user @ ''-'' @ p) i} \<and> serving y db f root w' m)"
proof -
  let ?dir = "if d then path_append (database (db_config db) (db_fs db)) (deletedPath (db_config db) (db_fs db)) else database (db_config db) (db_fs db)"
  have r: "represents y db f (files w) m" and nf: "no_faults w" using w by (simp_all add: serving_def ready_def)
  have k: "comps ?dir = area f d"
    using db comps_append_one [of "fs_deletedPath f" "fs_database f"]
    by (simp add: area_def keeps_database_def database_def deletedPath_def getFsConfig_def)
  have "dir_in (files w) (area f d)" using r by (cases d) (simp_all add: represents_def)
  then obtain i where "follow 40 (files w) (comps ?dir) = Some (area f d, i)" "is_dir i"
    unfolding k by (auto simp: dir_in_def eval_nat_numeral is_dir_def)
  then have "returns (dirEntries ?dir (user @ ''-'' @ p) False) w (\<lambda>ids w'. ids = matching (files w) (area f d) (user @ ''-'' @ p))"
    using nf by (intro calm_dirEntries [where u = w]) (simp_all add: calm_def)
  then have "returns (matchPattern y db p user [] d False) w (\<lambda>ids w'. ids = matching (files w) (area f d) (user @ ''-'' @ p))"
    unfolding matchPattern_def Let_def if_False by (rule returns_catch)
  then obtain w' where run: "matchPattern y db p user [] d False w = (Done (matching (files w) (area f d) (user @ ''-'' @ p)), w')"
    by (auto simp: returns_def)
  have "keeps same_process (matchPattern y db p user [] d False)" by (rule process.database_readers)
  from serving_still [OF w keepsD [OF this run]] run listed_ids [OF r u] show ?thesis by (simp add: returns_def)
qed

section \<open>The database keeps the contract\<close>

definition database_holds :: "ryml \<Rightarrow> database_handle \<Rightarrow> Filesystem_config \<Rightarrow> bool \<Rightarrow> world \<Rightarrow> store \<Rightarrow> bool" where
  "database_holds y db f root w m \<longleftrightarrow> ryml_ok y \<and> keeps_database db f \<and> serving y db f root w m"

lemma serve_cases:
  "answer_request y db rq w = (Done a, w') \<Longrightarrow> serve y db rq w = (Done a, w')"
  "answer_request y db rq w = (Throw DatabaseException, w') \<Longrightarrow> serve y db rq w = (Done Refused, w')"
  by (simp_all add: serve_def try_database_def catch_io_def let_io_def ret_def)

lemma serve_step:
  assumes h: "database_holds y db f root w m" and "proper f rq"
  shows "returns (serve y db rq) w (\<lambda>a w'. a = fst (specified db root rq m) \<and> database_holds y db f root w' (snd (specified db root rq m)))"
proof -
  have y: "ryml_ok y" and db: "keeps_database db f" and w: "serving y db f root w m" using h by (simp_all add: database_holds_def)
  have "\<exists>r w'. answer_request y db rq w = (r, w') \<and> (r = Done (fst (specified db root rq m)) \<or> r = Throw DatabaseException \<and> fst (specified db root rq m) = Refused) \<and>
      serving y db f root w' (snd (specified db root rq m))"
  proof (cases rq)
    case (Create i username workspace creation expiration reminder extensions groupflag grp mailaddress comment)
    with assms(2) have "\<not> reserved_name f (i, False)" by simp
    from create_runs [OF db w this, of username workspace creation expiration reminder extensions groupflag grp mailaddress comment] Create
    show ?thesis by (cases "one_comp i") auto
  next
    case (Read i d)
    with assms(2) have "\<not> reserved_name f (i, d)" by simp
    from read_runs [OF y db w this] Read show ?thesis by (cases "m (i, d)") (auto simp: answer_request_def let_io_def ret_def)
  next
    case (Delete i d)
    with assms(2) have "\<not> reserved_name f (i, d)" by simp
    from delete_runs [OF db w this] Delete show ?thesis by (cases "one_comp i") (auto simp: answer_request_def let_io_def ret_def)
  next
    case (Extend i expiration mailaddress reminder comment)
    with assms(2) have "\<not> reserved_name f (i, False)" by simp
    from extend_runs [OF y db w this, of expiration mailaddress reminder comment] Extend show ?thesis
      by (cases "m (i, False)") (auto split: option.splits)
  next
    case (List_ids p user d)
    with assms(2) have "glob_plain user \<or> user = ''*''" by simp
    from list_runs [OF db w this, of p d] List_ids show ?thesis by (auto simp: returns_def answer_request_def let_io_def ret_def)
  qed
  with serve_cases [of y db rq w] h show ?thesis by (auto simp: returns_def database_holds_def)
qed

interpretation v1: entry_database "serve y db" "specified db root" "database_holds y db f root" "proper f" for y db root f
  by unfold_locales (rule serve_step)

section \<open>Properties\<close>

text \<open>C4. The database is a map: without failing calls, any sequence of requests, to create, read, extend and delete entries
  and to list ids, is answered as on a map from ids, active or deleted, to entries, and the files hold that map
  afterwards; what can be refused, an id that is no name, a missing entry, an extension beyond the budget, is refused
  and changes nothing.\<close>

theorem database_refines_map:
  assumes "ryml_ok y" and "keeps_database db f" and "serving y db f root w m" and "list_all (proper f) rqs"
  shows "\<exists>w'. serve_all (serve y db) rqs w = (Done (fst (specified_all (specified db root) rqs m)), w') \<and>
    serving y db f root w' (snd (specified_all (specified db root) rqs m))"
proof -
  have "database_holds y db f root w m" using assms(1-3) by (simp add: database_holds_def)
  from v1.runs [OF this assms(4)] show ?thesis by (auto simp: returns_def database_holds_def)
qed

text \<open>On the site: a second workspace comes, the first one goes.\<close>

abbreviation site_db :: database_handle where
  "site_db \<equiv> \<lparr>db_config = site_config, db_fs = ''ws''\<rparr>"

definition site_store :: store where
  "site_store = (\<lambda>x. None)((''alice-a'', False) \<mapsto> read_as site_db (''alice-a'', False) (site_entry ''alice-a'' 99))"

definition site_requests :: "db_request list" where
  "site_requests =
     [Create ''alice-b'' ''alice'' ''/ws/alice-b'' 5 90 0 1 False [] [] [], Extend ''alice-b'' 95 [] 0 [], Extend ''alice-b'' 99 [] 0 [],
      Delete ''alice-a'' False, Read ''alice-a'' False, List_ids ''*'' ''alice'' False]"

definition site_fs :: Filesystem_config where
  "site_fs = snd (hd (filesystems site_config))"

lemma site_serving: "serving simple_ryml site_db site_fs False (example_world site_files) site_store"
proof -
  have a: "area site_fs False = [''db'']" "area site_fs True = [''db'', ''.removed'']" "fs_deletedPath site_fs = ''.removed''" by code_simp+
  have d: "distinct (map fst site_files)" by code_simp
  have k: "kind (example_inode x) = x" for x by (simp add: example_inode_def)
  have "entry_at simple_ryml site_db site_fs site_files x (site_store x)" for x
  proof -
    obtain n b where x: "x = (n, b)" by (cases x)
    show ?thesis
      by (cases b; cases "n = ''.ws_db_magic''"; cases "n = ''.removed''"; cases "n = ''alice-a''")
        (simp_all add: x entry_at_def site_store_def a reserved_name_def site_files_def k one_comp_def, blast)
  qed
  then have "represents simple_ryml site_db site_fs site_files site_store"
    using d by (simp add: represents_def dir_in_def a site_files_def k is_dir_def)
  moreover have "ruid (cred (example_world site_files)) \<noteq> 0" by (simp add: example_world_def user_cred_def)
  ultimately show ?thesis
    by (simp add: serving_def ready_def example_can_act example_files_simps)
qed

lemma database_refines_map_witness:
  "\<exists>e w'. fst (serve_all (serve simple_ryml site_db) site_requests (example_world site_files)) =
      Done [Finished, Found e, Refused, Finished, Refused, Ids {''alice-b''}] \<and> e_expiration e = 95"
proof -
  have g: "glob_match ''alice-*'' ''alice-b''" by code_simp
  have "keeps_database site_db site_fs" by (simp add: keeps_database_def site_fs_def site_config_def getFsConfig_def one_comp_def)
  moreover have "list_all (proper site_fs) site_requests" by code_simp
  ultimately have run: "\<exists>w'. serve_all (serve simple_ryml site_db) site_requests (example_world site_files) =
      (Done (fst (specified_all (specified site_db False) site_requests site_store)), w')"
    using database_refines_map [OF simple_ryml_ok _ site_serving] by blast
  from g have "\<exists>e. fst (specified_all (specified site_db False) site_requests site_store) =
      [Finished, Found e, Refused, Finished, Refused, Ids {''alice-b''}] \<and> e_expiration e = 95"
    by (simp add: site_requests_def site_store_def one_comp_def created_def extended_def)
  with run show ?thesis by auto
qed

end
