(* ===== verification/Creation.thy ===== *)
theory Creation
  imports Allocate Find
begin

text \<open>
  What \<open>ws_allocate\<close> leaves behind when it creates a workspace: what it may write whichever calls fail, that the
  workspace is there for \<open>ws_find\<close> afterwards, and what happens when the entry cannot be written.
\<close>

section \<open>What a creation may write\<close>

text \<open>Changes inside \<open>A\<close>; new files also inside \<open>B\<close>.\<close>

definition made :: "(key \<Rightarrow> bool) \<Rightarrow> (key \<Rightarrow> bool) \<Rightarrow> world \<Rightarrow> world \<Rightarrow> bool" where
  "made A B w v \<longleftrightarrow> (\<forall>k. map_of (files v) k \<noteq> map_of (files w) k \<longrightarrow> A k \<or> B k \<and> map_of (files w) k = None)"

lemma made_only: "keeps (only A) m \<Longrightarrow> keeps (made A B) m"
  by (auto simp: keeps_def only_def made_def)

interpretation making: area_relation "made A B" A for A B
proof
  show "made A B w w" for w by (simp add: made_def)
  show "made A B u v \<Longrightarrow> made A B v w \<Longrightarrow> made A B u w" for u v w by (simp add: made_def) metis
  show "keeps (made A B) (fs_rename a b)" if "\<And>k. under a k \<Longrightarrow> A k" "\<And>k. under b k \<Longrightarrow> A k" for a b
    by (rule made_only [OF frame.moves]) (fact that)+
qed (intro made_only frame.tools frame.changes frame.cap_call frame.uid_call frame.gid_call frame.groups_call; assumption)+

lemma comps_key_path: "list_all valid_comp k \<Longrightarrow> comps (key_path k) = k"
proof (induction k)
  case (Cons c k)
  then have "comps (c @ key_path k) = comps c @ comps (key_path k)"
    by (cases k) (simp_all add: key_path_def comps_slash comps_Cons_slash)
  with Cons show ?case by (simp add: key_path_def comps_Cons_slash comps_single valid_comp_def)
qed (simp add: key_path_def)

lemma made_mkdir:
  assumes "A (comps p) \<or> B (comps p)"
  shows "keeps (made A B) (sys_mkdir p m)"
proof (rule keepsI)
  fix w r w' assume "sys_mkdir p m w = (r, w')"
  then show "made A B w w'"
    using assms
    by (auto simp: sys_mkdir_def change_files_run made_def sys_call_def mkdir_rule_def map_of_put split: option.splits sum.splits if_splits)
qed

lemma made_directories:
  assumes "\<And>k. prefix k (comps p) \<Longrightarrow> A k \<or> B k"
  shows "keeps (made A B) (fs_create_directories p)"
proof -
  have one: "keeps (made A B) (create_one (key_path (take n (comps p))))" for n
  proof -
    have "list_all valid_comp (take n (comps p))"
      by (auto simp: list_all_iff comps_are_valid dest: in_set_takeD)
    then have "comps (key_path (take n (comps p))) = take n (comps p)" by (rule comps_key_path)
    then show ?thesis unfolding create_one_def or_throw_def
      by (intro making.tools made_mkdir) (simp_all add: assms take_is_prefix)
  qed
  show ?thesis unfolding fs_create_directories_def by (intro making.rules) (use one in auto)
qed

lemma made_unlink: "A (comps p) \<Longrightarrow> keeps (made A B) (sys_unlink p)"
  by (rule made_only) (rule only_tree; simp)

text \<open>A directory is made on its way, then changed; only what is new is in between.\<close>

lemma made_make_workspace:
  assumes "A (comps p)" and "\<And>k. prefix k (comps p) \<Longrightarrow> A k \<or> B k"
  shows "keeps (made A B) (make_workspace p user_option groupname m u duid)"
proof -
  have umask: "keeps (made A B) (set_umask m)" for m by (simp add: set_umask_def keeps_def put_io_def made_def)
  have give_up: "keeps (made A B) (give_up p)" unfolding give_up_def by (intro making.rules made_unlink assms(1))
  have opened: "keeps (made A B) (open_directory p)" unfolding open_directory_def by (intro making.tools)
  have ids: "keeps (made A B) (target_ids user_option groupname u)"
    unfolding target_ids_def getgid_def by (intro making.tools)
  have made_dir: "keeps (made A B) (fs_create_directories p)" by (rule made_directories) (rule assms(2))
  have dir: "keeps (made A B) (make_wsdir p duid)"
    unfolding make_wsdir_def by (intro making.tools made_dir umask; auto intro!: making.tools made_dir umask split: exn.split)
  have hand: "keeps (made A B) (hand_over p x m duid)" for x
    unfolding hand_over_def by (intro making.tools making.changes give_up assms(1))
  show ?thesis unfolding make_workspace_def by (intro making.tools give_up opened ids dir hand) (auto intro!: making.tools dir)
qed

text \<open>Where a creation writes: the directory of the workspace, missing directories on the way to it, and the entry.\<close>

definition workspace_place :: "Filesystem_config \<Rightarrow> string \<Rightarrow> key \<Rightarrow> bool" where
  "workspace_place f i k \<longleftrightarrow> (\<exists>space \<in> set (fs_spaces f). k = comps (space @ ''/'' @ i))"

definition creation_area :: "Filesystem_config \<Rightarrow> string \<Rightarrow> key \<Rightarrow> bool" where
  "creation_area f i k \<longleftrightarrow> k = comps (fs_database f @ ''/'' @ i) \<or> workspace_place f i k"

definition creation_way :: "Filesystem_config \<Rightarrow> string \<Rightarrow> key \<Rightarrow> bool" where
  "creation_way f i k \<longleftrightarrow> (\<exists>space \<in> set (fs_spaces f). prefix k (comps (space @ ''/'' @ i)))"

abbreviation creation :: "Filesystem_config \<Rightarrow> string \<Rightarrow> world \<Rightarrow> world \<Rightarrow> bool" where
  "creation f i \<equiv> made (creation_area f i) (creation_way f i)"

lemma ends_making: "keeps (made A B) m \<Longrightarrow> made A B w v \<Longrightarrow> ends m v (\<lambda>a. made A B w) (made A B w)"
  by (rule ends_keeps, assumption) (rule making.trans; assumption)+

lemma made_mono: "made A B w v \<Longrightarrow> (\<And>k. A k \<Longrightarrow> A' k) \<Longrightarrow> made A' B w v"
  by (auto simp: made_def)

lemma untouched_made: "untouched w v \<Longrightarrow> made A B w v"
  by (simp add: untouched_def made_def)

lemma createWorkspace_made:
  fixes name :: string
  assumes v: "untouched w v" and u: "ruid (cred w) \<noteq> 0" and pw: "getpwuid (accounts w) (ruid (cred w)) = Some pw"
    and f: "getFsConfig (db_config db) (db_fs db) = Some f"
  defines "M \<equiv> made (workspace_place f (pw_name pw @ ''-'' @ name)) (creation_way f (pw_name pw @ ''-'' @ name))"
  shows "ends (createWorkspace db name uo gf gw gn) v (\<lambda>a. M w) (M w)"
proof -
  have make: "ends (make_workspace (workspace_path name uo (pw_name pw) (ruid (cred w)) space) uo gn m u' d) v' (\<lambda>a. M w) (M w)"
    if "untouched w v'" "space \<in> set (fs_spaces f)" for space m u' d v'
  proof -
    have "workspace_path name uo (pw_name pw) (ruid (cred w)) space = space @ ''/'' @ pw_name pw @ ''-'' @ name"
      using u by (simp add: workspace_path_def)
    then have "keeps M (make_workspace (workspace_path name uo (pw_name pw) (ruid (cred w)) space) uo gn m u' d)"
      using that(2) unfolding M_def by (intro made_make_workspace) (auto simp: workspace_place_def creation_way_def)
    then show ?thesis using untouched_made [OF that(1)] unfolding M_def by (rule ends_making)
  qed
  show ?thesis
    unfolding createWorkspace_def ends_let ends_identity(2) [OF v pw]
  proof (rule ends_untouched [OF same.database_readers(1) settings.database_readers(1) v], goal_cases)
    case (1 f' v1)
    then have f': "f' = f" using f by (simp add: fs_config_or_exit_def ret_Done)
    have sel: "keeps same_files (select_space f)" unfolding select_space_def Let_def getuid_def getgid_def by (intro same.readers)
    show ?case unfolding f'
    proof (rule ends_untouched [OF sel settings_make(6) 1(2)], goal_cases)
      case (1 n v2)
      have at: "keeps same_files (space_at (fs_spaces f) n)" unfolding space_at_def by (intro same.rules)
      show ?case unfolding ends_identity(1) [OF 1(2)]
      proof (rule ends_untouched [OF at settings_make(5) 1(2)], goal_cases)
        case (1 space v3)
        then show ?case using make space_at_Done by blast
      qed (simp add: M_def untouched_made)
    qed (simp add: M_def untouched_made)
  qed (simp add: M_def untouched_made)
qed

text \<open>A process that can act can do so after a creation.\<close>

definition active :: "world \<Rightarrow> world \<Rightarrow> bool" where
  "active w v \<longleftrightarrow> (can_act db_caps w \<longrightarrow> can_act db_caps v)"

lemma active_same: "cred v = cred w \<Longrightarrow> caps v = caps w \<Longrightarrow> active w v"
  by (simp add: active_def can_act_cong [of v w])

interpretation active: reading_relation active
proof
  show "active w w" "active u v \<Longrightarrow> active v w \<Longrightarrow> active u w" for u v w by (simp_all add: active_def)
qed (auto simp: keeps_def sys_call_def time_now_def rand_def intro!: active_same)

lemma active_calls:
  "set ds \<subseteq> set db_caps \<Longrightarrow> keeps active (raise_cap ds)" "keeps active (lower_cap ds u)"
  "(\<And>w. cred (g w) = cred w) \<Longrightarrow> (\<And>w. caps (g w) = caps w) \<Longrightarrow> keeps active (put_io g)"
  "keeps active (change_files op k rule)"
proof -
  show "set ds \<subseteq> set db_caps \<Longrightarrow> keeps active (raise_cap ds)" "keeps active (lower_cap ds u)"
    using cap_shifts(1,2) [of db_caps] by (auto simp: keeps_def active_def shifts_def) (metis snd_conv)+
  show "(\<And>w. cred (g w) = cred w) \<Longrightarrow> (\<And>w. caps (g w) = caps w) \<Longrightarrow> keeps active (put_io g)"
    by (simp add: keeps_def put_io_def active_same)
  show "keeps active (change_files op k rule)"
    by (auto simp: keeps_def change_files_run sys_call_def intro!: active_same split: option.split sum.split)
qed

lemma active_openDB: "keeps active (try_database (openDB c fs))"
  unfolding try_database_def by (intro active.rules active.database_readers) (auto intro!: active.rules split: exn.split)

text \<open>Nothing, or such a creation in a filesystem that is open for it.\<close>

definition created_in :: "config \<Rightarrow> string \<Rightarrow> string \<Rightarrow> world \<Rightarrow> world \<Rightarrow> bool" where
  "created_in c fs i w v \<longleftrightarrow> files v = files w \<or> (\<exists>f. getFsConfig c fs = Some f \<and> fs_allocatable f \<and> creation f i w v)"

lemma untouched_created: "untouched w v \<Longrightarrow> created_in c fs i w v"
  by (simp add: untouched_def created_in_def)

text \<open>The parts of \<open>create\<close> before and after the directory.\<close>

definition primary_group :: "request \<Rightarrow> string io" where
  "primary_group rq =
     (if rq_groupreadable rq \<noteq> [] then ret (rq_groupreadable rq)
      else if rq_groupwritable rq \<noteq> [] then ret (rq_groupwritable rq) else getGroupname)"

definition enter :: "ryml \<Rightarrow> config \<Rightarrow> Filesystem_config \<Rightarrow> allocate_options \<Rightarrow> request \<Rightarrow> string \<Rightarrow> database_handle \<Rightarrow> bool \<Rightarrow> string \<Rightarrow> path \<Rightarrow> bool io" where
  "enter y c f opts rq username db groupflag g wsdir =
     let_io getuid (\<lambda>u.
     let_io time_now (\<lambda>now.
     let_io time_now (\<lambda>creation.
       seqs_io
         [createEntry y db (username @ ''-'' @ rq_name rq) username wsdir creation
            (now + duration_seconds (validateDuration c f u (rq_duration rq))) (rq_reminder rq) (fs_maxextensions f) groupflag g
            (rq_mailaddress rq) (al_comment opts),
          print wsdir] (ret True))))"

lemma create_run:
  assumes "getFsConfig c fs = Some f"
  shows "create y c opts rq username fs =
    (let groupflag = al_groupreadable opts \<noteq> None \<or> al_groupwritable opts \<noteq> None
     in if \<not> fs_allocatable f then exit_with (- 2)
        else let_io (try_database (openDB c fs)) (\<lambda>opened. case opened of None \<Rightarrow> ret False
          | Some db \<Rightarrow> let_io (primary_group rq) (\<lambda>g.
              let_io (createWorkspace db (rq_name rq) (rq_user rq) groupflag (al_groupwritable opts \<noteq> None) g)
                (enter y c f opts rq username db groupflag g))))"
  unfolding create_def fs_config_or_exit_def assms option.case let_ret primary_group_def enter_def [abs_def] Let_def by (rule refl)

lemma primary_group_calls: "keeps same_files (primary_group rq)" "keeps same_setup (primary_group rq)" "keeps active (primary_group rq)"
  unfolding primary_group_def getGroupname_def
  by (intro same.readers settings.readers active.rules active.file_readers)+

lemma create_ends:
  assumes v: "untouched w v" and u: "ruid (cred w) \<noteq> 0" and pw: "getpwuid (accounts w) (ruid (cred w)) = Some pw"
  shows "ends (create y c opts rq (pw_name pw) fs) v (\<lambda>a. created_in c fs (pw_name pw @ ''-'' @ rq_name rq) w)
    (created_in c fs (pw_name pw @ ''-'' @ rq_name rq) w)"
proof (cases "getFsConfig c fs")
  case None
  with untouched_created [OF v] show ?thesis by (simp add: create_def fs_config_or_exit_def let_exit ends_simple)
next
  case (Some f)
  let ?i = "pw_name pw @ ''-'' @ rq_name rq"
  have wrote: "keeps (creation f ?i) (createEntry y db ?i u ws c' e r x gf g ma co)"
    if "db_config db = c" "db_fs db = fs" for db u ws c' e r x gf g ma co
    unfolding createEntry_def new_entry_def that fs_config_or_exit_def Some option.case let_ret
    by (intro making.tools making.let_run_step making.writeEntry_in) (auto simp: seq_io_Done ret_Done creation_area_def)
  have rest: "keeps (creation f ?i) (enter y c f opts rq (pw_name pw) db gf g wsdir)"
    if "db_config db = c" "db_fs db = fs" for db gf g wsdir
    unfolding enter_def seqs_io.simps by (intro making.tools wrote that)
  have place: "workspace_place f ?i k \<Longrightarrow> creation_area f ?i k" for k by (simp add: creation_area_def)
  show ?thesis
  proof (cases "fs_allocatable f")
    case False
    with untouched_created [OF v] show ?thesis by (simp add: create_run [OF Some] Let_def ends_simple)
  next
    case True
    have "ends (create y c opts rq (pw_name pw) fs) v (\<lambda>a. creation f ?i w) (creation f ?i w)"
      unfolding create_run [OF Some] Let_def if_not_P [OF not_not [THEN iffD2, OF True]] ends_let
    proof (rule ends_untouched [OF same.try_step [OF same.database_readers(3)] settings.try_step [OF settings.database_readers(3)] v], goal_cases)
      case (1 opened v1)
      show ?case
      proof (cases opened)
        case None
        with untouched_made [OF 1(2)] show ?thesis by (simp add: ends_simple)
      next
        case (Some db)
        note db = openDB_config [OF try_database_Some [OF 1(1) [unfolded Some]]]
        have f: "getFsConfig (db_config db) (db_fs db) = Some f" using db \<open>getFsConfig c fs = Some f\<close> by simp
        show ?thesis unfolding Some option.case ends_let
          by (rule ends_untouched [OF primary_group_calls(1,2) 1(2)], rule ends_mono [OF createWorkspace_made [OF _ u pw f]], assumption)
            (use ends_making [OF rest] db untouched_made made_mono [OF _ place] in \<open>auto simp: ends_let\<close>)
      qed
    qed (rule untouched_made)
    then show ?thesis by (rule ends_mono) (use Some True in \<open>simp_all add: created_in_def\<close>)
  qed
qed

text \<open>The configuration a tool reads before it changes anything.\<close>

definition site_read :: "'n yaml_cpp \<Rightarrow> path \<Rightarrow> world \<Rightarrow> config \<Rightarrow> bool" where
  "site_read yc p w c \<longleftrightarrow> (\<exists>v v'. untouched w v \<and> read_site yc p v = (Done c, v'))"

text \<open>The user has the right to create in that filesystem, as a member of the groups of the process.\<close>

definition may_create :: "config \<Rightarrow> string \<Rightarrow> world \<Rightarrow> string \<Rightarrow> bool" where
  "may_create c user w fs \<longleftrightarrow> (\<exists>v. untouched w v \<and> hasAccess c user (getGrouplist v) fs CREATE)"

lemma may_create_member:
  assumes "untouched w v" and "fs \<in> set (validFilesystems c user (getGrouplist v) CREATE)"
  shows "may_create c user w fs"
  using assms validFilesystems_good [of c user "getGrouplist v" CREATE] by (auto simp: may_create_def good_list_def list_all_iff)

lemma commandline_creates:
  assumes v: "untouched w v" and u: "ruid (cred w) \<noteq> 0" and pw: "getpwuid (accounts w) (ruid (cred w)) = Some pw" and e: "\<not> al_extension opts"
  shows "ends (allocate_commandline yc opts conf) v (\<lambda>rq v'. untouched w v' \<and> rq_user rq = [] \<and> al_name opts = Some (rq_name rq) \<and>
    isValidWorkspaceName (rq_name rq)) (untouched w)"
proof (cases "al_name opts")
  case None
  with v show ?thesis by (simp add: allocate_commandline_def ends_let ends_identity(1) [OF v] Let_def ends_simple)
next
  case (Some name)
  obtain gr gw where g: "group_options opts (UserConfig yc conf) = (gr, gw)" by force
  have user: "(case al_username opts of None \<Rightarrow> [] | Some n \<Rightarrow> if \<not> (al_extension opts \<or> ruid (cred w) = 0) then [] else n) = []"
    using e u by (simp split: option.split)
  show ?thesis
    unfolding allocate_commandline_def Let_def ends_let ends_identity(1) [OF v] Some option.case g prod.case user
  proof (rule ends_untouched [OF same.tool_readers(9) settings.tool_readers(9) v], goal_cases)
    case (1 c v1)
    then show ?case unfolding ends_simple ends_identity(2) [OF 1(2) pw] by (simp add: ends_if ends_simple)
  qed
qed

lemma validated_filesystem:
  assumes "validateFsAndGroup c opts user v = (Done True, v')" and "untouched w v" and "ruid (cred w) \<noteq> 0" and "al_filesystem opts = Some fs"
  shows "may_create c user w fs"
proof (rule may_create_member [OF assms(2)])
  have "ruid (cred v) \<noteq> 0" using assms(2,3) by (simp add: untouched_def same_setup_def)
  then show "fs \<in> set (validFilesystems c user (getGrouplist v) CREATE)"
    using assms(1,4) by (auto simp: validateFsAndGroup_def validateFs_def getuid_def Done_iffs split: if_splits)
qed

definition allocated :: "config \<Rightarrow> string \<Rightarrow> string \<Rightarrow> world \<Rightarrow> world \<Rightarrow> bool" where
  "allocated c user i w v \<longleftrightarrow> files v = files w \<or> (\<exists>fs. may_create c user w fs \<and> created_in c fs i w v)"

lemma untouched_allocated: "untouched w v \<Longrightarrow> allocated c user i w v"
  by (simp add: untouched_def allocated_def)

lemma allocate_creates:
  assumes v: "untouched w v" and u: "ruid (cred w) \<noteq> 0" and pw: "getpwuid (accounts w) (ruid (cred w)) = Some pw" and e: "\<not> al_extension opts"
    and rq: "rq_user rq = []"
  shows "ends (allocate y c opts rq) v (\<lambda>a. allocated c (pw_name pw) (pw_name pw @ ''-'' @ rq_name rq) w)
    (allocated c (pw_name pw) (pw_name pw @ ''-'' @ rq_name rq) w)"
proof -
  let ?P = "allocated c (pw_name pw) (pw_name pw @ ''-'' @ rq_name rq) w" and ?valid = "validFilesystems c (pw_name pw) (getGrouplist v) CREATE"
  note start = untouched_allocated
  have make: "ends (create y c opts rq (pw_name pw) fs) v' (\<lambda>a. ?P) ?P" if "untouched w v'" "may_create c (pw_name pw) w fs" for fs v'
    by (rule ends_mono [OF create_ends [OF that(1) u pw]]) (use that(2) in \<open>auto simp: allocated_def\<close>)
  have shown: "ends (seq_io (print s) (ret True)) v' (\<lambda>a. ?P) ?P" if "untouched w v'" for v' s
    unfolding ends_seq by (rule ends_untouched [OF same.tool_readers(7) settings.tool_readers(7) that]) (auto simp: ends_simple start)
  show ?thesis
  proof (cases "?valid = []")
    case True
    with start [OF v] show ?thesis by (simp add: allocate_def Let_def ends_let ends_identity(2) [OF v pw] ends_simple)
  next
    case False
    show ?thesis
      unfolding allocate_def Let_def ends_let ends_identity(2) [OF v pw] ends_simple if_not_P [OF False] if_P [OF rq] if_not_P [OF e]
    proof (rule ends_untouched [OF same.allocate_readers(2) settings.allocate_readers(2) v], goal_cases)
      case (1 valid v1)
      let ?fs = "case al_filesystem opts of None \<Rightarrow> hd (case al_filesystem opts of None \<Rightarrow> ?valid | Some fs \<Rightarrow> [fs]) | Some fs \<Rightarrow> fs"
      have may: "may_create c (pw_name pw) w ?fs" if "\<not> \<not> valid"
      proof (cases "al_filesystem opts")
        case None
        with False may_create_member [OF v, of "hd ?valid"] show ?thesis by simp
      next
        case (Some fs)
        with validated_filesystem [OF _ v u Some] 1(1) that show ?thesis by simp
      qed
      have found: "ends (case found of [] \<Rightarrow> create y c opts rq (pw_name pw) ?fs
           | [(db, e)] \<Rightarrow> let_io (ret e) (\<lambda>e'. seq_io (print (e_workspace e)) (ret True)) | _ \<Rightarrow> ret False) v' (\<lambda>a. ?P) ?P"
        if "untouched w v'" "\<not> \<not> valid" for found v'
        using make [OF that(1) may [OF that(2)]] shown [OF that(1)] start [OF that(1)]
        by (auto simp: let_ret ends_simple split: list.split prod.split)
      show ?case
      proof (cases valid)
        case False
        with start [OF 1(2)] show ?thesis by (simp add: ends_simple)
      next
        case True
        have valid: "\<not> \<not> valid" using True by simp
        show ?thesis
          unfolding if_not_P [OF valid] ends_let
        proof (rule ends_untouched [OF same.allocate_readers(3) settings.allocate_readers(3) 1(2)], goal_cases)
          case (1 many v2)
          show ?case unfolding ends_if ends_simple ends_let ends_identity(1) [OF 1(2)] allocate_id_def own_id_def rq
            by (rule if_both [OF start [OF 1(2)]], rule ends_mono [OF search_ends [OF 1(2)]])
              (use found [OF _ valid] u e in \<open>auto simp: start\<close>)
        qed (rule start)
      qed
    qed (rule start)
  qed
qed

definition tool_created :: "'n yaml_cpp \<Rightarrow> allocate_options \<Rightarrow> string \<Rightarrow> world \<Rightarrow> world \<Rightarrow> bool" where
  "tool_created yc opts user w v \<longleftrightarrow> files v = files w \<or>
     (\<exists>name c. al_name opts = Some name \<and> isValidWorkspaceName name \<and> site_read yc (al_config opts) w c \<and>
        allocated c user (user @ ''-'' @ name) w v)"

lemma ws_allocate_creates:
  assumes u: "ruid (cred w) \<noteq> 0" and pw: "getpwuid (accounts w) (ruid (cred w)) = Some pw" and e: "\<not> al_extension opts"
  shows "ends (ws_allocate y yc opts) w (\<lambda>a. tool_created yc opts (pw_name pw) w) (tool_created yc opts (pw_name pw) w)"
proof -
  let ?P = "tool_created yc opts (pw_name pw) w"
  have start: "?P v" if "untouched w v" for v using that by (simp add: tool_created_def untouched_def)
  show ?thesis
    unfolding ws_allocate_def ends_seq ends_let ends_identity(1) [OF untouched_refl]
  proof (rule ends_untouched [OF same.cap_calls(3) settings.cap_calls(3) untouched_refl], goal_cases)
    case (1 a v)
    show ?case
    proof (rule ends_untouched [OF same.tool_readers(3) settings.tool_readers(3) 1(2)], goal_cases)
      case (1 conf v1)
      show ?case
      proof (rule ends_mono [OF commandline_creates [OF 1(2) u pw e]], goal_cases)
        case (1 rq v2)
        then have v2: "untouched w v2" and rq: "rq_user rq = []" "al_name opts = Some (rq_name rq)" "isValidWorkspaceName (rq_name rq)" by blast+
        show ?case
        proof (rule ends_untouched [OF same.tool_readers(1) settings.tool_readers(1) v2], goal_cases)
          case (1 c v3)
          have c: "site_read yc (al_config opts) w c" using 1(1) v2 by (auto simp: site_read_def)
          have "ends (allocate y c opts (rq\<lparr>rq_duration := d\<rparr>)) v3 (\<lambda>a. ?P) ?P" for d
            by (rule ends_mono [OF allocate_creates [OF 1(2) u pw e]]) (use rq c in \<open>auto simp: tool_created_def\<close>)
          then show ?case unfolding Let_def ends_let ends_identity(2) [OF 1(2) pw]
            by (rule ends_mono) (simp_all add: ends_if ends_simple)
        qed (rule start)
      qed (rule start)
    qed (rule start)
  qed (rule start)
qed

section \<open>A creation without failing calls\<close>

lemma active_createWorkspace: "keeps active (createWorkspace db name uo gf gw gn)"
proof -
  note steps = active.rules active.any_call active.any_time active.any_random active.queries active.file_readers
    active.database_readers active_calls
  have umask: "keeps active (set_umask m)" for m unfolding set_umask_def by (rule active_calls) simp_all
  have dirs: "keeps active (fs_create_directories p)" for p
    unfolding fs_create_directories_def create_one_def or_throw_def sys_mkdir_def by (intro steps)
  have dir: "keeps active (make_wsdir p d)" for p d
    unfolding make_wsdir_def by (intro steps dirs umask; auto intro!: steps dirs umask split: exn.split)
  have ids: "keeps active (target_ids uo g u)" for uo g u unfolding target_ids_def getgid_def by (intro steps)
  have hand: "keeps active (hand_over p x m d)" for p x m d
    unfolding hand_over_def sys_fchown_def sys_fchmod_def give_up_def sys_unlink_def by (intro steps) simp_all
  have make: "keeps active (make_workspace p uo gn m u d)" for p m u d
    unfolding make_workspace_def seqs_io.simps open_directory_def give_up_def sys_unlink_def
    by (intro steps dir ids hand) simp_all
  show ?thesis
    unfolding createWorkspace_def select_space_def space_at_def getuid_def getgid_def Let_def by (intro steps make)
qed

lemma settings_createWorkspace: "keeps same_setup (createWorkspace db name uo gf gw gn)"
proof -
  note steps = settings.all_calls settings_make settings.database_readers settings.file_readers
  have hand: "keeps same_setup (hand_over p x m d)" for p x m d
    unfolding hand_over_def give_up_def by (intro steps TrueI)
  have make: "keeps same_setup (make_workspace p uo gn m u d)" for p m u d
    unfolding make_workspace_def seqs_io.simps target_ids_def getgid_def give_up_def by (intro steps hand TrueI)
  show ?thesis unfolding createWorkspace_def getuid_def Let_def by (intro steps make TrueI)
qed

text \<open>A caller without special rights, and the filesystem he creates in.\<close>

record client =
  cl_config :: config
  cl_name :: string
  cl_fs :: Filesystem_config
  cl_user :: passwd

definition can_create :: "client \<Rightarrow> string \<Rightarrow> world \<Rightarrow> bool" where
  "can_create x i w \<longleftrightarrow>
     can_act db_caps w \<and> ruid (cred w) \<noteq> 0 \<and> getpwuid (accounts w) (ruid (cred w)) = Some (cl_user x) \<and>
     getFsConfig (cl_config x) (cl_name x) = Some (cl_fs x) \<and> one_comp i \<and>
     (\<forall>space \<in> set (fs_spaces (cl_fs x)). apart (comps (fs_database (cl_fs x))) (comps space)) \<and>
     (\<exists>d. map_of (files w) (comps (fs_database (cl_fs x))) = Some d \<and> is_dir d) \<and>
     map_of (files w) (comps (fs_database (cl_fs x)) @ [i]) = None"

lemma database_outside:
  assumes "can_create x i w"
  shows "\<not> workspace_place (cl_fs x) i (comps (fs_database (cl_fs x)) @ q)" and "\<not> creation_way (cl_fs x) i (comps (fs_database (cl_fs x)) @ q)"
proof -
  have "\<not> prefix (comps (fs_database (cl_fs x)) @ q) (comps (space @ ''/'' @ i))" if "space \<in> set (fs_spaces (cl_fs x))" for space
  proof -
    have "apart (comps (fs_database (cl_fs x)) @ q) (comps space @ comps i)"
      using assms that by (intro apart_extend) (simp add: can_create_def)
    then show ?thesis by (simp add: apart_def comps_slash)
  qed
  then show w: "\<not> creation_way (cl_fs x) i (comps (fs_database (cl_fs x)) @ q)" by (auto simp: creation_way_def)
  show "\<not> workspace_place (cl_fs x) i (comps (fs_database (cl_fs x)) @ q)"
    using w unfolding workspace_place_def creation_way_def by (metis prefix_order.refl)
qed

lemma createWorkspace_then:
  assumes x: "can_create x i w" and i: "i = pw_name (cl_user x) @ ''-'' @ name"
    and v: "untouched w v" "can_act db_caps v" and db: "db_config db = cl_config x" "db_fs db = cl_name x"
    and run: "createWorkspace db name [] gf gw gn v = (Done p, v')"
  shows "can_act db_caps v' \<and> fault v' = fault w \<and> comps p \<noteq> comps (fs_database (cl_fs x)) @ [i] \<and>
    (\<exists>d. map_of (files v') (comps p) = Some d \<and> is_dir d \<and> owner d = ruid (cred w)) \<and>
    (\<forall>q. map_of (files v') (comps (fs_database (cl_fs x)) @ q) = map_of (files w) (comps (fs_database (cl_fs x)) @ q))"
proof -
  have u: "ruid (cred w) \<noteq> 0" and pw: "getpwuid (accounts w) (ruid (cred w)) = Some (cl_user x)"
    and f: "getFsConfig (db_config db) (db_fs db) = Some (cl_fs x)"
    using x db by (simp_all add: can_create_def)
  have m: "made (workspace_place (cl_fs x) i) (creation_way (cl_fs x) i) w v'"
    unfolding i by (rule endsDone [OF run createWorkspace_made [OF v(1) u pw f]])
  have act: "can_act db_caps v'" using keepsD [OF active_createWorkspace run] v(2) by (simp add: active_def)
  have "fault v' = fault w" using keepsD [OF settings_createWorkspace run] v(1) by (simp add: untouched_def same_setup_def)
  moreover have "map_of (files v') (comps (fs_database (cl_fs x)) @ q) = map_of (files w) (comps (fs_database (cl_fs x)) @ q)" for q
    using m database_outside [OF x] unfolding made_def by metis
  moreover obtain space d where p: "space \<in> set (fs_spaces (cl_fs x))" "p = space @ ''/'' @ i" "map_of (files v') (comps p) = Some d" "is_dir d"
      "owner d = ruid (cred w)"
    using createWorkspace_Done [OF run] f pw v(1) u by (auto simp: untouched_def same_setup_def workspace_path_def i)
  moreover have "comps p \<noteq> comps (fs_database (cl_fs x)) @ [i]"
    using database_outside(1) [OF x, of "[i]"] p(1,2) by (auto simp: workspace_place_def)
  ultimately show ?thesis using act by auto
qed

lemma createEntry_writes:
  assumes "ready db_caps fs w" and "getFsConfig (db_config db) (db_fs db) = Some f" and "one_comp i"
    and "writable fs (comps (fs_database f) @ [i])"
    and "createEntry y db i u p c x r n gf g ma co w = (Done a, w')"
  shows "\<exists>e j. kind j = Reg (entry_text y e) \<and> e_workspace e = p \<and> ready db_caps (fs_put (comps (fs_database f) @ [i]) j fs) w'"
proof -
  let ?e = "(blank_entry db)\<lparr>e_id := i, e_username := u, e_workspace := p, e_creation := c, e_expiration := x, e_reminder := r,
     e_extensions := n, e_groupflag := gf, e_group := g, e_mailaddress := ma, e_comment := co,
     e_dbfilepath := fs_database f @ ''/'' @ i, e_released := 0, e_expired := 0, e_acctcode := []\<rparr>"
  have "checkID i = ret ()" using assms(3) by (auto simp: checkID_def one_comp_def)
  then have run: "createEntry y db i u p c x r n gf g ma co = writeEntry y False ?e"
    using assms(2) by (simp add: createEntry_def new_entry_def fs_config_or_exit_def seq_io_def let_ret)
  have k: "comps (e_dbfilepath ?e) = comps (fs_database f) @ [i]" using comps_one [OF assms(3)] by (simp add: comps_slash)
  have "returns (writeEntry y False ?e) w (\<lambda>u w'. \<exists>j. kind j = Reg (entry_text y ?e) \<and> ready db_caps (fs_put (comps (fs_database f) @ [i]) j fs) w')"
    by (rule writeEntry_returns [OF assms(1)], unfold k) (use assms(4) in auto)
  with assms(5) have "\<exists>j. kind j = Reg (entry_text y ?e) \<and> ready db_caps (fs_put (comps (fs_database f) @ [i]) j fs) w'"
    by (simp add: run returns_def)
  moreover have "e_workspace ?e = p" by simp
  ultimately show ?thesis by blast
qed

text \<open>The run of \<open>create\<close> up to the directory \<open>p\<close>, made in \<open>v\<close>.\<close>

definition asks_group :: "allocate_options \<Rightarrow> bool" where
  "asks_group opts \<longleftrightarrow> al_groupreadable opts \<noteq> None \<or> al_groupwritable opts \<noteq> None"

definition directory_made :: "client \<Rightarrow> allocate_options \<Rightarrow> request \<Rightarrow> world \<Rightarrow> database_handle \<Rightarrow> string \<Rightarrow> path \<Rightarrow> world \<Rightarrow> bool" where
  "directory_made x opts rq w db g p v \<longleftrightarrow>
     (\<exists>v1 v2. try_database (openDB (cl_config x) (cl_name x)) w = (Done (Some db), v1) \<and> primary_group rq v1 = (Done g, v2) \<and>
        createWorkspace db (rq_name rq) [] (asks_group opts) (al_groupwritable opts \<noteq> None) g v2 = (Done p, v))"

lemma create_stages:
  assumes "getFsConfig (cl_config x) (cl_name x) = Some (cl_fs x)" and "rq_user rq = []" and "fs_allocatable (cl_fs x)"
    and "directory_made x opts rq w db g p v"
  shows "create y (cl_config x) opts rq user (cl_name x) w = enter y (cl_config x) (cl_fs x) opts rq user db (asks_group opts) g p v"
  using assms(2-4) unfolding create_run [OF assms(1)] directory_made_def asks_group_def
  by (auto simp: Let_def let_io_def)

lemma create_stagesE:
  assumes "getFsConfig (cl_config x) (cl_name x) = Some (cl_fs x)" and "rq_user rq = []"
    and "create y (cl_config x) opts rq user (cl_name x) w = (Done True, w1)"
  obtains db g p v where "directory_made x opts rq w db g p v"
    and "enter y (cl_config x) (cl_fs x) opts rq user db (asks_group opts) g p v = (Done True, w1)"
  using assms(2,3) unfolding create_run [OF assms(1)] directory_made_def asks_group_def
  by (auto simp: Done_iffs Let_def split: option.splits if_splits)

lemma directory_made_then:
  assumes x: "can_create x i w" and i: "i = pw_name (cl_user x) @ ''-'' @ rq_name rq" and made: "directory_made x opts rq w db g p v"
  shows "can_act db_caps v" and "fault v = fault w" and "comps p \<noteq> comps (fs_database (cl_fs x)) @ [i]"
    and "\<exists>d. map_of (files v) (comps p) = Some d \<and> is_dir d \<and> owner d = ruid (cred w)"
    and "map_of (files v) (comps (fs_database (cl_fs x)) @ q) = map_of (files w) (comps (fs_database (cl_fs x)) @ q)"
    and "getFsConfig (db_config db) (db_fs db) = Some (cl_fs x)"
proof -
  from made obtain v1 v2 where opened: "try_database (openDB (cl_config x) (cl_name x)) w = (Done (Some db), v1)"
    and group: "primary_group rq v1 = (Done g, v2)"
    and make: "createWorkspace db (rq_name rq) [] (asks_group opts) (al_groupwritable opts \<noteq> None) g v2 = (Done p, v)"
    by (auto simp: directory_made_def)
  have "untouched w v1"
    using same_filesD [OF same.try_step [OF same.database_readers(3)] opened] keepsD [OF settings.try_step [OF settings.database_readers(3)] opened]
    by (simp add: untouched_def)
  then have v2: "untouched w v2"
    using same_filesD [OF primary_group_calls(1) group] keepsD [OF primary_group_calls(2) group] settings.trans
    by (auto simp: untouched_def)
  have act: "can_act db_caps v2"
    using x keepsD [OF active_openDB opened] keepsD [OF primary_group_calls(3) group] by (simp add: can_create_def active_def)
  have db: "db_config db = cl_config x" "db_fs db = cl_name x" using openDB_config [OF try_database_Some [OF opened]] by simp_all
  then show "getFsConfig (db_config db) (db_fs db) = Some (cl_fs x)" using x by (simp add: can_create_def)
  from createWorkspace_then [OF x i v2 act db make]
  show "can_act db_caps v" "fault v = fault w" "comps p \<noteq> comps (fs_database (cl_fs x)) @ [i]"
    "\<exists>d. map_of (files v) (comps p) = Some d \<and> is_dir d \<and> owner d = ruid (cred w)"
    "map_of (files v) (comps (fs_database (cl_fs x)) @ q) = map_of (files w) (comps (fs_database (cl_fs x)) @ q)" by blast+
qed

text \<open>Without failing calls entry and directory are there, and the database is otherwise as it was.\<close>

lemma create_writes:
  assumes x: "can_create x i w" "no_faults w" and i: "i = pw_name (cl_user x) @ ''-'' @ rq_name rq" and rq: "rq_user rq = []"
    and run: "create y (cl_config x) opts rq (pw_name (cl_user x)) (cl_name x) w = (Done True, w1)"
  shows "\<exists>e j d. map_of (files w1) (comps (fs_database (cl_fs x)) @ [i]) = Some j \<and> kind j = Reg (entry_text y e) \<and>
    map_of (files w1) (comps (e_workspace e)) = Some d \<and> is_dir d \<and> owner d = ruid (cred w) \<and>
    (\<forall>q. q \<noteq> [i] \<longrightarrow> map_of (files w1) (comps (fs_database (cl_fs x)) @ q) = map_of (files w) (comps (fs_database (cl_fs x)) @ q))"
proof -
  let ?D = "comps (fs_database (cl_fs x))"
  have f: "getFsConfig (cl_config x) (cl_name x) = Some (cl_fs x)" and one: "one_comp i" using x(1) by (simp_all add: can_create_def)
  from create_stagesE [OF f rq run] obtain db g p v where made: "directory_made x opts rq w db g p v"
    and rest: "enter y (cl_config x) (cl_fs x) opts rq (pw_name (cl_user x)) db (asks_group opts) g p v = (Done True, w1)" .
  from rest obtain v5 v6 c e rem n ma co where times: "\<exists>t v4. time_now v = (Done t, v4) \<and> time_now v4 = (Done c, v5)"
    and wrote: "createEntry y db i (pw_name (cl_user x)) p c e rem n (asks_group opts) g ma co v5 = (Done (), v6)" and w1: "files w1 = files v6"
    unfolding enter_def by (fastforce simp: Done_iffs i getuid_def print_def)
  note v = directory_made_then [OF x(1) i made]
  have v5: "ready db_caps (files v) v5" using times v(1,2) x(2) by (auto simp: ready_def time_now_def no_faults_def)
  have "writable (files v) (?D @ [i])"
    using x(1) v(5) [of "[i]"] v(5) [of "[]"] by (auto simp: can_create_def writable_def dir_at_def)
  from createEntry_writes [OF v5 v(6) one this wrote] obtain e j where e: "kind j = Reg (entry_text y e)" "e_workspace e = p"
    and v6: "files v6 = fs_put (?D @ [i]) j (files v)" by (auto simp: ready_def)
  from v(4) obtain d where d: "map_of (files v) (comps p) = Some d" "is_dir d" "owner d = ruid (cred w)" by blast
  show ?thesis
    by (intro exI [of _ e] exI [of _ j] exI [of _ d]) (use e d v(3,5) in \<open>auto simp: w1 v6 map_of_put\<close>)
qed

section \<open>An entry that cannot be written\<close>

text \<open>Where the entry cannot be opened, its writing changes nothing and returns.\<close>

definition still :: "world \<Rightarrow> world \<Rightarrow> bool" where
  "still w v \<longleftrightarrow> can_act db_caps v \<and> fault v = fault w \<and> files v = files w \<and> stdout v = stdout w"

lemma still_shift: "still w v \<Longrightarrow> shifts db_caps m v \<Longrightarrow> (\<And>v'. still w v' \<Longrightarrow> Q () v') \<Longrightarrow> returns m v Q"
  by (auto simp: still_def shifts_def returns_def)

lemma still_caps:
  assumes "still w v" and "\<And>v'. still w v' \<Longrightarrow> Q () v'"
  shows "set ds \<subseteq> set db_caps \<Longrightarrow> returns (raise_cap ds) v Q" and "returns (lower_cap ds u) v Q" and "returns become_db v Q"
  using assms cap_shifts [of db_caps v] by (auto simp: still_def [of w v] intro!: still_shift [OF assms(1)])

lemma still_open:
  assumes "still w v" and "\<And>n. fault w n Sys_open (comps p) \<noteq> None" and "\<And>v'. still w v' \<Longrightarrow> Q False v'"
  shows "returns (open_and_write p s m) v Q"
proof -
  obtain t where t: "fault v (steps v) Sys_open (comps p) = Some t" using assms(1,2) by (auto simp: still_def)
  have "still w (snd (sys_call Sys_open (comps p) v))" using assms(1) by (simp add: still_def sys_call_def)
  with t assms(3) show ?thesis
    by (simp add: open_and_write_def sys_open_trunc_def returns_let change_files_run returns_def [of "change_files op k r" for op k r] ok_def returns_ret)
qed

lemma still_writeEntry:
  assumes "still w v" and "\<And>n. fault w n Sys_open (comps (e_dbfilepath e)) \<noteq> None" and "\<And>v'. still w v' \<Longrightarrow> Q () v'"
  shows "returns (writeEntry y False e) v Q"
proof -
  let ?p = "e_dbfilepath e" and ?d = "dbuid (global (db_config (e_parent e)))"
  have maybe: "returns (when_io b m) v' Q'" if "returns m v' Q'" "Q' () v'" for b m v' and Q' :: "unit \<Rightarrow> world \<Rightarrow> bool"
    using that by (simp add: returns_when)
  have chown: "returns (chown_entry ?p False False u g) v' Q" if "still w v'" for u g v'
    unfolding chown_entry_def seqs_io.simps returns_seq
    by (rule maybe, rule still_caps(1) [OF that])
      (auto simp: returns_when intro!: still_caps(2) assms(3) that)
  have tail: "returns (get_io (\<lambda>w. hascaps (caps w))) v' (\<lambda>hc v'. returns (when_io hc (chown_entry ?p False False u g)) v' Q)"
    if "still w v'" for u g v'
    unfolding returns_get by (rule maybe) (rule chown that assms(3))+
  show ?thesis
    unfolding writeEntry_def Let_def seqs_io.simps returns_seq returns_let returns_when simp_thms if_True
    by (rule still_caps(1) [OF assms(1)], rule still_caps(3), assumption, rule still_open, assumption, rule assms(2), simp only: if_False,
        rule still_caps(1), assumption, rule still_caps(2), assumption, rule tail [unfolded returns_when], assumption) simp_all
qed

lemma missing_entry:
  assumes "getFsConfig (db_config db) (db_fs db) = Some f" and "one_comp i" and "map_of (files w) (comps (fs_database f) @ [i]) = None"
  shows "fst (readEntry y db i False w) = Throw DatabaseException"
proof -
  have "comps (entry_path (db_config db) (db_fs db) i False) = comps (fs_database f) @ [i]"
    using assms(1) comps_append_one [OF assms(2)] by (simp add: entry_path_def database_def getFsConfig_def)
  moreover have "follow 40 (files w) (comps (fs_database f) @ [i]) = None" using assms(3) by (simp add: eval_nat_numeral)
  moreover have "checkID i = ret ()" using assms(2) by (auto simp: checkID_def one_comp_def)
  ultimately show ?thesis
    by (auto simp: readEntry_def readFromFile_def getFileContents_def sys_call_def io_defs Let_def split: option.split)
qed

lemma enter_unsaved:
  assumes act: "can_act db_caps v" and f: "getFsConfig (db_config db) (db_fs db) = Some f" and i: "i = user @ ''-'' @ rq_name rq" "one_comp i"
    and broken: "\<And>n. fault v n Sys_open (comps (fs_database f) @ [i]) \<noteq> None"
  shows "\<exists>w'. enter y c f' opts rq user db gf g p v = (Done True, w') \<and> files w' = files v \<and> stdout w' = p # stdout v"
proof -
  have k: "comps (fs_database f @ ''/'' @ i) = comps (fs_database f) @ [i]" using comps_one [OF i(2)] by (simp add: comps_slash)
  have check: "checkID i = ret ()" using i(2) by (auto simp: checkID_def one_comp_def)
  have entry: "returns (createEntry y db i u p ct x r n gf g ma co) v' (\<lambda>a. still v)" if "still v v'" for u ct x r n ma co v'
    unfolding createEntry_def new_entry_def check fs_config_or_exit_def f option.case let_ret seq_io_def
    by (rule still_writeEntry [OF that]) (use broken in \<open>simp_all add: k [simplified]\<close>)
  have now: "returns time_now v' Q" if "still v v'" "\<And>t v'. still v v' \<Longrightarrow> Q t v'" for v' Q
    using that by (auto simp: returns_def time_now_def still_def)
  have start: "still v v" using act by (simp add: still_def)
  have "returns (enter y c f' opts rq user db gf g p) v (\<lambda>r w'. r \<and> files w' = files v \<and> stdout w' = p # stdout v)"
    unfolding enter_def getuid_def seqs_io.simps returns_let returns_get returns_seq i(1) [symmetric]
    by (rule now [OF start], rule now, assumption) (rule returns_mono [OF entry], assumption, simp add: print_def returns_put returns_ret still_def)
  then show ?thesis by (auto simp: returns_def)
qed

section \<open>Properties\<close>


definition create_example :: allocate_options where
  "create_example = \<lparr>al_name = Some ''new'', al_duration = 0, al_filesystem = None, al_extension = False, al_reminder = 0,
     al_mailaddress = None, al_username = Some ''bob'', al_groupreadable = None, al_groupwritable = None, al_comment = [],
     al_config = []\<rparr>"


text \<open>C15. What \<open>ws_allocate\<close> creates, \<open>ws_find\<close> finds: when no call fails, after a creation that went well the search of its
  owner for the name ends with status 0 and prints one line, the path of a directory that exists and belongs to him.\<close>

theorem created_is_found:
  assumes "ryml_ok y" and x: "can_create x i w" "no_faults w"
    and i: "i = pw_name (cl_user x) @ ''-'' @ rq_name rq" and rq: "rq_user rq = []" "rq_name rq = fi_name fo"
    and run: "create y (cl_config x) opts rq (pw_name (cl_user x)) (cl_name x) w = (Done True, w1)"
    and magic: "map_of (files w) (comps (fs_database (cl_fs x)) @ [''.ws_db_magic'']) = Some m" "kind m = Reg t" "getFirstLine t = cl_name x"
    and w2: "files w2 = files w1" "no_faults w2"
    and user: "getpwuid (accounts w2) (ruid (cred w2)) = Some (cl_user x)" "\<not> isRoot w2" "\<not> isAdmin (cl_config x) (pw_name (cl_user x))"
    and c: "valid_config yc (fi_config fo) w2 = (Done (cl_config x), v)"
    and where_to: "fi_filesystem fo = [] \<and> validFilesystems (cl_config x) (pw_name (cl_user x)) (getGrouplist v) USE = cl_name x # rest \<or>
      fi_filesystem fo = cl_name x \<and> cl_name x \<noteq> [] \<and> cl_name x \<in> set (validFilesystems (cl_config x) (pw_name (cl_user x)) (getGrouplist v) USE)"
    and n: "fi_name fo \<noteq> []" "glob_plain i" "\<not> fi_group fo"
  shows "\<exists>w' p d. ws_find y yc fo w2 = (Exit 0, w') \<and> stdout w' = p # stdout w2 \<and> files w' = files w2 \<and>
    map_of (files w2) (comps p) = Some d \<and> is_dir d \<and> owner d = ruid (cred w)"
proof -
  let ?D = "comps (fs_database (cl_fs x))"
  have "silent w2 v" using silent_config c by (rule keepsD)
  then have nf: "no_faults v" using w2(2) by (simp add: silent_def untouched_def same_setup_def no_faults_def)
  have "''.ws_db_magic'' \<noteq> i"
  proof
    assume "''.ws_db_magic'' = i"
    moreover have "CHR ''-'' \<in> set i" by (simp add: i)
    moreover have "CHR ''-'' \<notin> set ''.ws_db_magic''" by simp
    ultimately show False by metis
  qed
  with create_writes [OF x i rq(1) run] obtain e j d where entry: "map_of (files w2) (?D @ [i]) = Some j" "kind j = Reg (entry_text y e)"
    and d: "map_of (files w2) (comps (e_workspace e)) = Some d" "is_dir d" "owner d = ruid (cred w)"
    and mark: "map_of (files w2) (?D @ [''.ws_db_magic'']) = Some m" and base: "map_of (files w2) ?D = map_of (files w) ?D"
    unfolding w2(1) using magic(1) by (metis append_Nil2 list.inject not_Cons_self2)
  obtain dd where dir: "map_of (files w2) ?D = Some dd" "is_dir dd" using x(1) base by (auto simp: can_create_def)
  have f: "getFsConfig (cl_config x) (cl_name x) = Some (cl_fs x)" and one: "one_comp i" using x(1) by (simp_all add: can_create_def)
  note i' = i [unfolded rq(2)]
  from ws_find_hit [OF assms(1) w2(2) c nf user where_to f mark magic(2,3) dir n(1) one [unfolded i'] n(2) [unfolded i'] n(3) entry(1) [unfolded i'] entry(2)]
  obtain w' where "ws_find y yc fo w2 = (Exit 0, w')" "stdout w' = e_workspace e # stdout w2" "files w' = files w2" by blast
  with d show ?thesis by blast
qed

definition create_request :: request where
  "create_request = \<lparr>rq_name = ''new'', rq_duration = 0, rq_reminder = 0, rq_mailaddress = [], rq_user = [],
     rq_groupreadable = [], rq_groupwritable = []\<rparr>"

definition created_run :: "bool outcome \<times> world" where
  "created_run = create simple_ryml site_config create_example create_request ''alice'' ''ws'' (site_world 5)"

definition site_client :: client where
  "site_client = \<lparr>cl_config = site_config, cl_name = ''ws'', cl_fs = snd (hd (filesystems site_config)),
     cl_user = \<lparr>pw_name = ''alice'', pw_uid = 1000, pw_gid = 100, pw_dir = ''/home/alice''\<rparr>\<rparr>"

lemma site_client_can: "can_create site_client ''alice-new'' (site_world 5)"
proof -
  have "can_act db_caps (site_world 5)"
    by (simp add: can_act_def user_mode_def site_world_def example_world_def user_caps_def setuid_caps_def)
  moreover have "ruid (cred (site_world 5)) \<noteq> 0" "getpwuid (accounts (site_world 5)) (ruid (cred (site_world 5))) = Some (cl_user site_client)"
    "getFsConfig (cl_config site_client) (cl_name site_client) = Some (cl_fs site_client)" "one_comp ''alice-new''"
    "\<forall>space \<in> set (fs_spaces (cl_fs site_client)). apart (comps (fs_database (cl_fs site_client))) (comps space)"
    "map_of (files (site_world 5)) (comps (fs_database (cl_fs site_client)) @ [''alice-new'']) = None" by code_simp+
  moreover have "map_of (files (site_world 5)) (comps (fs_database (cl_fs site_client))) = Some (example_inode Dir)" by code_simp
  moreover have "is_dir (example_inode Dir)" by code_simp
  ultimately show ?thesis unfolding can_create_def by blast
qed

lemma created_is_found_witness:
  "\<exists>w' p d. ws_find simple_ryml site_yaml (find_a\<lparr>fi_name := ''new''\<rparr>) ((site_world 5)\<lparr>files := files (snd created_run)\<rparr>) = (Exit 0, w') \<and>
    stdout w' = [p] \<and> map_of (files (snd created_run)) (comps p) = Some d \<and> is_dir d \<and> owner d = 1000"
proof -
  let ?fo = "find_a\<lparr>fi_name := ''new''\<rparr>" and ?w2 = "(site_world 5)\<lparr>files := files (snd created_run)\<rparr>"
  let ?v = "snd (valid_config site_yaml [] ?w2)"
  have "fst created_run = Done True" by code_simp
  then have run: "create simple_ryml (cl_config site_client) create_example create_request (pw_name (cl_user site_client)) (cl_name site_client)
      (site_world 5) = (Done True, snd created_run)"
    by (simp add: site_client_def created_run_def prod_eq_iff)
  have i: "''alice-new'' = pw_name (cl_user site_client) @ ''-'' @ rq_name create_request" and rq: "rq_user create_request = []" "rq_name create_request = fi_name ?fo"
    by (simp_all add: site_client_def create_request_def)
  have magic: "map_of (files (site_world 5)) (comps (fs_database (cl_fs site_client)) @ [''.ws_db_magic'']) = Some (example_inode (Reg ''ws''))"
    "kind (example_inode (Reg ''ws'')) = Reg ''ws''" "getFirstLine ''ws'' = cl_name site_client" by code_simp+
  have nf: "no_faults (site_world 5)" by (simp add: site_world_def example_world_def no_faults_def)
  then have w2: "files ?w2 = files (snd created_run)" "no_faults ?w2" by simp_all
  have user: "getpwuid (accounts ?w2) (ruid (cred ?w2)) = Some (cl_user site_client)" "\<not> isRoot ?w2" "\<not> isAdmin (cl_config site_client) (pw_name (cl_user site_client))"
    by code_simp+
  have "fst (valid_config site_yaml [] ?w2) = Done site_config" by code_simp
  then have c: "valid_config site_yaml (fi_config ?fo) ?w2 = (Done (cl_config site_client), ?v)"
    by (simp add: find_a_def site_client_def prod_eq_iff)
  have where_to: "fi_filesystem ?fo = [] \<and> validFilesystems (cl_config site_client) (pw_name (cl_user site_client)) (getGrouplist ?v) USE = cl_name site_client # []"
    by code_simp
  have n: "fi_name ?fo \<noteq> []" "glob_plain ''alice-new''" "\<not> fi_group ?fo" by code_simp+
  have s: "stdout ?w2 = []" "ruid (cred (site_world 5)) = 1000" by code_simp+
  from created_is_found [OF simple_ryml_ok site_client_can nf i rq run magic w2 user c disjI1 [OF where_to] n]
  show ?thesis unfolding s w2(1) by blast
qed

text \<open>C16. \<open>ws_allocate\<close> takes no notice of an entry it cannot save: when the entry cannot be opened for writing, a creation that
  has made the directory goes on, prints the directory and reports success; the directory is there, and the database does
  not know it: reading the entry throws. Nothing but the log tells the user, and the directory is a stray.\<close>

theorem allocation_without_entry:
  assumes x: "can_create x i w" and i: "i = pw_name (cl_user x) @ ''-'' @ rq_name rq" and rq: "rq_user rq = []" and open_for: "fs_allocatable (cl_fs x)"
    and made: "directory_made x opts rq w db g p v"
    and broken: "\<And>n. fault w n Sys_open (comps (fs_database (cl_fs x)) @ [i]) \<noteq> None"
  shows "\<exists>w' d. create y (cl_config x) opts rq (pw_name (cl_user x)) (cl_name x) w = (Done True, w') \<and> stdout w' = p # stdout v \<and>
    map_of (files w') (comps p) = Some d \<and> is_dir d \<and>
    (\<forall>w2. files w2 = files w' \<longrightarrow> fst (readEntry y' db i False w2) = Throw DatabaseException)"
proof -
  have f: "getFsConfig (cl_config x) (cl_name x) = Some (cl_fs x)" and one: "one_comp i" using x by (simp_all add: can_create_def)
  note v = directory_made_then [OF x i made]
  from enter_unsaved [OF v(1,6) i one] broken v(2) obtain w' where
    w': "enter y (cl_config x) (cl_fs x) opts rq (pw_name (cl_user x)) db (asks_group opts) g p v = (Done True, w')" "files w' = files v" "stdout w' = p # stdout v"
    by metis
  have run: "create y (cl_config x) opts rq (pw_name (cl_user x)) (cl_name x) w = (Done True, w')"
    using create_stages [OF f rq open_for made] w'(1) by simp
  obtain d where d: "map_of (files w') (comps p) = Some d" "is_dir d" using v(4) by (auto simp: w'(2))
  have "fst (readEntry y' db i False w2) = Throw DatabaseException" if "files w2 = files w'" for w2
  proof (rule missing_entry [OF v(6) one])
    show "map_of (files w2) (comps (fs_database (cl_fs x)) @ [i]) = None"
      using x v(5) [of "[i]"] by (simp add: that w'(2) can_create_def)
  qed
  with run w'(3) d show ?thesis by blast
qed

text \<open>The site, where the file of the new entry cannot be opened.\<close>

definition full_world :: world where
  "full_world = (site_world 5)\<lparr>fault := (\<lambda>n op k. if op = Sys_open \<and> k = [''db'', ''alice-new''] then Some EIO else None)\<rparr>"

lemma full_world_directory:
  "\<exists>v. directory_made site_client create_example create_request full_world \<lparr>db_config = site_config, db_fs = ''ws''\<rparr> ''users'' ''/ws/alice-new'' v \<and> stdout v = []"
proof -
  let ?db = "\<lparr>db_config = site_config, db_fs = ''ws''\<rparr>"
  let ?v1 = "snd (try_database (openDB site_config ''ws'') full_world)"
  let ?v2 = "snd (primary_group create_request ?v1)"
  let ?v = "snd (createWorkspace ?db ''new'' [] False False ''users'' ?v2)"
  have "fst (try_database (openDB site_config ''ws'') full_world) = Done (Some ?db)" by code_simp
  moreover have "fst (primary_group create_request ?v1) = Done ''users''" by code_simp
  moreover have "fst (createWorkspace ?db ''new'' [] False False ''users'' ?v2) = Done ''/ws/alice-new''" by code_simp
  moreover have "stdout ?v = []" by code_simp
  ultimately show ?thesis
    by (intro exI [of _ ?v])
      (auto simp: directory_made_def site_client_def create_request_def create_example_def asks_group_def prod_eq_iff intro!: exI [of _ ?v1] exI [of _ ?v2])
qed

lemma allocation_without_entry_witness:
  "\<exists>w'. create simple_ryml site_config create_example create_request ''alice'' ''ws'' full_world = (Done True, w') \<and> stdout w' = [''/ws/alice-new''] \<and>
    fst (readEntry simple_ryml \<lparr>db_config = site_config, db_fs = ''ws''\<rparr> ''alice-new'' False w') = Throw DatabaseException"
proof -
  have x: "can_create site_client ''alice-new'' full_world"
  proof -
    have "can_act db_caps full_world = can_act db_caps (site_world 5)" by (rule can_act_cong) (simp_all add: full_world_def)
    moreover have "files full_world = files (site_world 5)" "cred full_world = cred (site_world 5)" "accounts full_world = accounts (site_world 5)"
      by (simp_all add: full_world_def)
    ultimately show ?thesis using site_client_can by (simp add: can_create_def)
  qed
  have i: "''alice-new'' = pw_name (cl_user site_client) @ ''-'' @ rq_name create_request" and rq: "rq_user create_request = []"
    by (simp_all add: site_client_def create_request_def)
  have o: "fs_allocatable (cl_fs site_client)" by code_simp
  have "comps (fs_database (cl_fs site_client)) @ [''alice-new''] = [''db'', ''alice-new'']" by code_simp
  then have b: "fault full_world n Sys_open (comps (fs_database (cl_fs site_client)) @ [''alice-new'']) \<noteq> None" for n
    by (simp add: full_world_def)
  obtain v where v: "directory_made site_client create_example create_request full_world \<lparr>db_config = site_config, db_fs = ''ws''\<rparr> ''users'' ''/ws/alice-new'' v"
    "stdout v = []" using full_world_directory by blast
  have c: "cl_config site_client = site_config" "cl_name site_client = ''ws''" "pw_name (cl_user site_client) = ''alice''" by (simp_all add: site_client_def)
  from allocation_without_entry [OF x i rq o v(1) b, of simple_ryml simple_ryml] show ?thesis unfolding c v(2) by blast
qed

end
