(* ===== verification/Lifecycle.thy ===== *)
theory Lifecycle
  imports Restore Release Retention
begin

text \<open>
  What two tools do one after the other: a workspace that \<open>ws_expirer\<close> expires, or that its owner gives back with
  \<open>ws_release\<close>, is where \<open>ws_restore\<close> looks for it, and the restore puts all of it back.
\<close>

section \<open>Paths of a workspace\<close>

lemma comps_strip_slashes: "comps (rev (dropWhile (\<lambda>c. c = CHR ''/'') (rev d))) = comps d"
  by (induction d rule: rev_induct) (auto simp: comps_snoc_slash)

lemma comps_parent_path: "comps (parent_path p) = comps (remove_filename p)"
proof -
  let ?t = "rev (dropWhile (\<lambda>c. c = CHR ''/'') (rev (remove_filename p)))"
  have t: "comps ?t = comps (remove_filename p)" by (rule comps_strip_slashes)
  have root: "comps ''/'' = []" using comps_Cons_slash [of "[]"] by simp
  show ?thesis
  proof (cases "?t = [] \<and> remove_filename p \<noteq> []")
    case True
    have "comps (remove_filename p) = []" using t unfolding conjunct1 [OF True] by simp
    with True root show ?thesis by (simp add: parent_path_def)
  next
    case False
    then have "parent_path p = ?t" unfolding parent_path_def Let_def by (rule if_not_P)
    with t show ?thesis by simp
  qed
qed

lemma workspace_paths:
  assumes "p = s @ CHR ''/'' # n" and "CHR ''/'' \<notin> set n"
  shows "remove_filename p = s @ ''/''" and "filename p = n" and "comps (parent_path p) = comps s"
proof -
  have "rfind_char (CHR ''/'') p = Some (length s)" using assms by (simp add: str_simps)
  then show r: "remove_filename p = s @ ''/''" and "filename p = n" using assms(1) by (simp_all add: remove_filename_def filename_def)
  then show "comps (parent_path p) = comps s" by (simp add: comps_parent_path comps_snoc_slash)
qed

section \<open>Expiry\<close>

lemma expire_entry:
  assumes "expire y timestamp e w = (Done (used, e'), w')"
  shows "e_workspace e' = e_workspace e \<and> e_id e' = e_id e \<and> e_parent e' = e_parent e"
  using assms by (cases rule: expire_steps) auto

text \<open>A site without failing calls on which the entry can be expired at \<open>t\<close>.\<close>

record expiry =
  ex_config :: config
  ex_name :: string
  ex_fs :: Filesystem_config
  ex_space :: path
  ex_entry :: entry
  ex_time :: int

definition entry_key :: "expiry \<Rightarrow> key" where
  "entry_key x = comps (fs_database (ex_fs x)) @ [e_id (ex_entry x)]"

definition gone_entry_key :: "expiry \<Rightarrow> key" where
  "gone_entry_key x = comps (fs_database (ex_fs x)) @ [fs_deletedPath (ex_fs x), stamped (e_id (ex_entry x)) (ex_time x)]"

definition workspace_key :: "expiry \<Rightarrow> key" where
  "workspace_key x = comps (ex_space x) @ [e_id (ex_entry x)]"

definition gone_workspace_key :: "expiry \<Rightarrow> key" where
  "gone_workspace_key x = comps (ex_space x) @ [fs_deletedPath (ex_fs x), stamped (e_id (ex_entry x)) (ex_time x)]"

definition can_expire :: "expiry \<Rightarrow> files \<Rightarrow> bool" where
  "can_expire x fs \<longleftrightarrow>
     getFsConfig (ex_config x) (ex_name x) = Some (ex_fs x) \<and>
     db_config (e_parent (ex_entry x)) = ex_config x \<and> db_fs (e_parent (ex_entry x)) = ex_name x \<and> e_filesystem (ex_entry x) = ex_name x \<and>
     one_comp (e_id (ex_entry x)) \<and> one_comp (fs_deletedPath (ex_fs x)) \<and> e_id (ex_entry x) \<noteq> fs_deletedPath (ex_fs x) \<and>
     comps (e_dbfilepath (ex_entry x)) = entry_key x \<and> e_workspace (ex_entry x) = ex_space x @ CHR ''/'' # e_id (ex_entry x) \<and>
     apart (comps (fs_database (ex_fs x))) (comps (ex_space x)) \<and>
     0 \<le> ex_time x \<and> ex_time x \<le> LLONG_MAX \<and>
     (case map_of fs (entry_key x) of None \<Rightarrow> False | Some i \<Rightarrow> is_reg i) \<and>
     map_of fs (workspace_key x) \<noteq> None \<and>
     map_of fs (gone_entry_key x) = None \<and> map_of fs (gone_workspace_key x) = None \<and>
     dir_at fs (butlast (gone_entry_key x)) \<and> dir_at fs (butlast (gone_workspace_key x))"

lemma can_expireD:
  assumes "can_expire x fs"
  shows "one_comp (e_id (ex_entry x))" and "one_comp (fs_deletedPath (ex_fs x))" and "e_id (ex_entry x) \<noteq> fs_deletedPath (ex_fs x)"
    and "apart (comps (fs_database (ex_fs x))) (comps (ex_space x))" and "CHR ''/'' \<notin> set (e_id (ex_entry x))"
    and "e_workspace (ex_entry x) = ex_space x @ CHR ''/'' # e_id (ex_entry x)" and "0 \<le> ex_time x" and "ex_time x \<le> LLONG_MAX"
    and "getFsConfig (ex_config x) (ex_name x) = Some (ex_fs x)" and "comps (e_dbfilepath (ex_entry x)) = entry_key x"
  using assms by (simp_all add: can_expire_def one_comp_def)

lemma gone_paths:
  assumes "can_expire x fs"
  shows "comps (path_append (db_deleted_dir (ex_fs x)) (stamped (e_id (ex_entry x)) (ex_time x))) = gone_entry_key x"
    and "comps (path_append (ws_deleted_dir (e_workspace (ex_entry x)) (ex_fs x)) (stamped (e_id (ex_entry x)) (ex_time x))) = gone_workspace_key x"
    and "comps (db_deleted_dir (ex_fs x)) = butlast (gone_entry_key x)"
    and "comps (e_workspace (ex_entry x)) = workspace_key x"
proof -
  note d = can_expireD [OF assms]
  show db: "comps (db_deleted_dir (ex_fs x)) = butlast (gone_entry_key x)"
    using comps_append_one [OF d(2)] by (simp add: db_deleted_dir_def gone_entry_key_def butlast_append)
  show "comps (path_append (db_deleted_dir (ex_fs x)) (stamped (e_id (ex_entry x)) (ex_time x))) = gone_entry_key x"
    using stamped_comps [OF d(1)] by (simp add: db gone_entry_key_def butlast_append)
  show "comps (path_append (ws_deleted_dir (e_workspace (ex_entry x)) (ex_fs x)) (stamped (e_id (ex_entry x)) (ex_time x))) = gone_workspace_key x"
    using stamped_comps [OF d(1)] comps_append_one [OF d(2)] workspace_paths(1) [OF d(6,5)]
    by (simp add: ws_deleted_dir_def gone_workspace_key_def comps_snoc_slash)
  show "comps (e_workspace (ex_entry x)) = workspace_key x"
    unfolding d(6) workspace_key_def comps_slash using comps_one [OF d(1)] by simp
qed


lemma settings_expire: "keeps same_setup (expire y timestamp e)"
proof -
  have c: "keeps same_setup (count_up n step t)" if "\<And>t. keeps same_setup (step t)" for n t and step :: "int \<Rightarrow> int option io"
    by (induction n arbitrary: t) (auto intro!: settings.rules that)
  show ?thesis
    unfolding expire_def expire_as_def find_stamp_def either_taken_def Let_def seqs_io.simps
    by (intro settings.readers settings.writeEntry_calls settings.path_calls TrueI c; auto intro!: settings.readers c split: exn.split)
qed

lemma ends_returns: "returns m w P \<Longrightarrow> (\<And>a w'. P a w' \<Longrightarrow> m w = (Done a, w') \<Longrightarrow> Q a w') \<Longrightarrow> ends m w Q F"
  by (auto simp: returns_def ends_def)

text \<open>What is at the two new places, after an expiry or a release.\<close>

definition expired :: "int \<Rightarrow> entry \<Rightarrow> entry" where
  "expired now e = e\<lparr>e_expired := now\<rparr>"

definition released :: "int \<Rightarrow> entry \<Rightarrow> entry" where
  "released now e = e\<lparr>e_released := now\<rparr>"

definition gone_at :: "(int \<Rightarrow> entry \<Rightarrow> entry) \<Rightarrow> ryml \<Rightarrow> expiry \<Rightarrow> files \<Rightarrow> files \<Rightarrow> bool" where
  "gone_at how y x fs fs' \<longleftrightarrow>
     (\<exists>now j. kind j = Reg (entry_text y (how now (ex_entry x))) \<and> map_of fs' (gone_entry_key x) = Some j) \<and>
     (\<forall>q. map_of fs' (gone_workspace_key x @ q) = map_of fs (workspace_key x @ q)) \<and>
     (\<forall>k. \<not> prefix (entry_key x) k \<and> \<not> prefix (gone_entry_key x) k \<and> \<not> prefix (workspace_key x) k \<and> \<not> prefix (gone_workspace_key x) k
        \<longrightarrow> map_of fs' k = map_of fs k)"

lemma key_prefixes:
  assumes "can_expire x fs"
  shows "\<not> prefix (entry_key x) (gone_entry_key x)" and "\<not> prefix (gone_entry_key x) (entry_key x)"
    and "\<not> prefix (workspace_key x) (gone_workspace_key x)" and "\<not> prefix (gone_workspace_key x) (workspace_key x)"
    and "\<not> prefix (entry_key x) (workspace_key x @ q)" and "\<not> prefix (gone_entry_key x) (workspace_key x @ q)"
    and "\<not> prefix (entry_key x) (gone_workspace_key x @ q)" and "\<not> prefix (gone_entry_key x) (gone_workspace_key x @ q)"
    and "\<not> prefix (workspace_key x) (gone_entry_key x)" and "\<not> prefix (gone_workspace_key x) (gone_entry_key x)"
    and "\<not> prefix (entry_key x) (butlast (gone_workspace_key x))" and "\<not> prefix (gone_entry_key x) (butlast (gone_workspace_key x))"
proof -
  have b: "butlast (gone_workspace_key x) = comps (ex_space x) @ [fs_deletedPath (ex_fs x)]"
    by (simp add: gone_workspace_key_def butlast_append)
  show "\<not> prefix (entry_key x) (butlast (gone_workspace_key x))" "\<not> prefix (gone_entry_key x) (butlast (gone_workspace_key x))"
    using apart_append [OF can_expireD(4) [OF assms]] unfolding b entry_key_def gone_entry_key_def by blast+
qed (use can_expireD(3) [OF assms] apart_append [OF can_expireD(4) [OF assms]] in
    \<open>simp_all add: entry_key_def gone_entry_key_def workspace_key_def gone_workspace_key_def\<close>)

lemma moved_entry:
  fixes j :: inode
  assumes x: "can_expire x fs" and i: "map_of fs (entry_key x) = Some i"
  defines "fs1 \<equiv> fs_move (entry_key x) (gone_entry_key x) (fs_put (entry_key x) j fs)"
  shows "map_of fs1 (gone_entry_key x) = Some j"
    and "\<not> prefix (entry_key x) k \<Longrightarrow> \<not> prefix (gone_entry_key x) k \<Longrightarrow> map_of fs1 k = map_of fs k"
proof -
  note p = key_prefixes [OF x]
  note m = map_of_move [OF no_common_extension [OF p(1,2)], where fs = "fs_put (entry_key x) j fs", folded fs1_def]
  show "map_of fs1 (gone_entry_key x) = Some j" using m(1) [of "[]"] by (simp add: map_of_put)
  show "map_of fs1 k = map_of fs k" if "\<not> prefix (entry_key x) k" "\<not> prefix (gone_entry_key x) k"
    using m(3) [OF that(2,1)] that(1) by (auto simp: map_of_put)
qed

lemma moved_workspace:
  assumes x: "can_expire x fs" and i: "map_of fs (entry_key x) = Some i" and j: "kind j = Reg (entry_text y (how now (ex_entry x)))"
  defines "fs1 \<equiv> fs_move (entry_key x) (gone_entry_key x) (fs_put (entry_key x) j fs)"
  defines "fs2 \<equiv> fs_move (workspace_key x) (gone_workspace_key x) fs1"
  shows "rename_rule (workspace_key x) (gone_workspace_key x) fs1 = Inr fs2" and "gone_at how y x fs fs2"
proof -
  note p = key_prefixes [OF x]
  note e = moved_entry [OF x i, where j = j, folded fs1_def]
  note m = map_of_move [OF no_common_extension [OF p(3,4)], where fs = fs1, folded fs2_def]
  have w: "map_of fs1 (workspace_key x @ q) = map_of fs (workspace_key x @ q)" for q by (rule e(2) [OF p(5,6)])
  have g: "map_of fs1 (gone_workspace_key x) = map_of fs (gone_workspace_key x)" using e(2) [OF p(7,8) [of "[]"]] by simp
  have d: "dir_at fs1 (butlast (gone_workspace_key x))" using x e(2) [OF p(11,12)] by (simp add: can_expire_def dir_at_def)
  obtain iw where iw: "map_of fs1 (workspace_key x) = Some iw" using x w [of "[]"] by (auto simp: can_expire_def)
  show "rename_rule (workspace_key x) (gone_workspace_key x) fs1 = Inr fs2"
    unfolding fs2_def by (rule rename_to_free [OF iw _ d p(3,4)]) (use x g in \<open>simp add: can_expire_def\<close>)
  have "map_of fs2 (gone_entry_key x) = Some j" using m(3) [OF p(10,9)] e(1) by simp
  moreover have "map_of fs2 k = map_of fs k"
    if "\<not> prefix (entry_key x) k" "\<not> prefix (gone_entry_key x) k" "\<not> prefix (workspace_key x) k" "\<not> prefix (gone_workspace_key x) k" for k
    using m(3) [OF that(4,3)] e(2) [OF that(1,2)] by simp
  ultimately show "gone_at how y x fs fs2" unfolding gone_at_def using j m(1) w by auto
qed


lemma calm_rename:
  "no_faults v \<Longrightarrow> rename_rule (comps a) (comps b) (files v) = Inr fs \<Longrightarrow> \<exists>v'. sys_rename a b v = (Done None, v') \<and> files v' = fs \<and> no_faults v'"
  by (simp add: sys_rename_def change_files_run no_faults_def sys_call_def)

lemma retire_moves:
  assumes x: "can_expire x fs" and i: "map_of fs (entry_key x) = Some i" and j: "kind j = Reg (entry_text y (how now (ex_entry x)))"
    and v: "files v = fs_move (entry_key x) (gone_entry_key x) (fs_put (entry_key x) j fs)" "no_faults v"
    and e: "e_workspace e = e_workspace (ex_entry x)"
  shows "\<exists>v'. retire_workspace (ex_config x) (ex_name x) e (show_int (ex_time x)) v = (Done (), v') \<and> gone_at how y x fs (files v')"
proof -
  note d = can_expireD [OF x]
  note m = moved_workspace [where how = how and now = now, OF x i j, folded v(1)]
  let ?target = "path_append (path_append (remove_filename (e_workspace e)) (deletedPath (ex_config x) (ex_name x)))
      (filename (e_workspace e) @ CHR ''-'' # show_int (ex_time x))"
  have "deletedPath (ex_config x) (ex_name x) = fs_deletedPath (ex_fs x)" using d(9) by (simp add: deletedPath_def getFsConfig_def)
  then have t: "comps ?target = gone_workspace_key x"
    using gone_paths(2) [OF x] workspace_paths(2) [OF d(6,5)] by (simp add: e ws_deleted_dir_def stamped_def)
  have w: "comps (e_workspace e) = workspace_key x" using gone_paths(4) [OF x] by (simp only: e)
  have "rename_rule (comps (e_workspace e)) (comps ?target) (files v) = Inr (fs_move (workspace_key x) (gone_workspace_key x) (files v))"
    unfolding t w by (rule m(1))
  from calm_rename [OF v(2) this] obtain v'
    where "sys_rename (e_workspace e) ?target v = (Done None, v')" and f: "files v' = fs_move (workspace_key x) (gone_workspace_key x) (files v)"
    by blast
  then have "fs_rename (e_workspace e) ?target v = (Done (), v')" by (simp add: fs_rename_def or_throw_def let_io_def ret_def)
  then have "retire_workspace (ex_config x) (ex_name x) e (show_int (ex_time x)) v = (Done (), v')"
    by (simp add: retire_workspace_def catch_filesystem_error_def robust_rename_def catch_io_def)
  moreover have "gone_at how y x fs (files v')" unfolding f by (rule m(2))
  ultimately show ?thesis by (intro exI conjI)
qed


lemma expire_moves_entry:
  assumes r: "ready db_caps fs w" and x: "can_expire x fs"
  shows "returns (expire y (show_int (ex_time x)) (ex_entry x)) w (\<lambda>p v. fst p = show_int (ex_time x) \<and>
    e_workspace (snd p) = e_workspace (ex_entry x) \<and> no_faults v \<and>
    (\<exists>now j. kind j = Reg (entry_text y (expired now (ex_entry x))) \<and>
      files v = fs_move (entry_key x) (gone_entry_key x) (fs_put (entry_key x) j fs)))"
proof -
  note d = can_expireD [OF x]
  note p = key_prefixes [OF x]
  let ?run = "expire y (show_int (ex_time x)) (ex_entry x)"
  have g: "comps (db_deleted_dir (ex_fs x)) @ [stamped (e_id (ex_entry x)) (ex_time x)] = gone_entry_key x"
    using gone_paths(3) [OF x] by (simp add: gone_entry_key_def butlast_append)
  have "show_int (ex_time x) \<noteq> []" "list_all is_digit (show_int (ex_time x))" "stoll_digits (show_int (ex_time x)) = Some (ex_time x)"
    using d(7,8) by (simp_all add: show_int_nat num_simps)
  moreover have "writable fs (comps (e_dbfilepath (ex_entry x)))"
    using x unfolding d(10) can_expire_def writable_def by (auto split: option.splits)
  moreover have "getFsConfig (db_config (e_parent (ex_entry x))) (e_filesystem (ex_entry x)) = Some (ex_fs x)"
    using x by (simp add: can_expire_def)
  moreover have "free_stamp (ex_fs x) (e_workspace (ex_entry x)) (e_id (ex_entry x)) fs (ex_time x)"
    using x unfolding free_stamp_def gone_paths(1,2) [OF x] by (simp add: can_expire_def)
  moreover have "dir_at fs (comps (db_deleted_dir (ex_fs x)))" using x unfolding gone_paths(3) [OF x] by (simp add: can_expire_def)
  ultimately have "returns ?run w (\<lambda>p v. fst p = show_int (ex_time x) \<and>
      e_dbfilepath (snd p) = path_append (db_deleted_dir (ex_fs x)) (stamped (e_id (ex_entry x)) (ex_time x)) \<and>
      (\<exists>now j. kind j = Reg (entry_text y (expired now (ex_entry x))) \<and>
        files v = fs_move (entry_key x) (gone_entry_key x) (fs_put (entry_key x) j fs)))"
    using expire_returns [OF r _ d(1), of "show_int (ex_time x)" "ex_time x" "ex_fs x" y] p(1,2) unfolding d(10) g expired_def by blast
  then obtain q v where run: "?run w = (Done q, v)" and q: "fst q = show_int (ex_time x)"
    "\<exists>now j. kind j = Reg (entry_text y (expired now (ex_entry x))) \<and>
        files v = fs_move (entry_key x) (gone_entry_key x) (fs_put (entry_key x) j fs)"
    unfolding returns_def by blast
  have "no_faults v" using keepsD [OF settings_expire run] r by (simp add: same_setup_def ready_def no_faults_def)
  moreover have "e_workspace (snd q) = e_workspace (ex_entry x)" using expire_entry [of y _ _ w "fst q" "snd q" v] run by simp
  ultimately show ?thesis using run q unfolding returns_def by blast
qed

lemma expire_one_ends:
  assumes r: "ready db_caps (files w) w" and x: "can_expire x (files w)" and t: "clock w (steps w) = ex_time x"
  shows "ends (expire_one y yc l (ex_config x) (ex_name x) i (ex_entry x)) w
    (\<lambda>a v. gone_at expired y x (files w) (files v)) (\<lambda>v. gone_at expired y x (files w) (files v))"
  unfolding expire_one_def ends_let [where m = time_now] ends_time t
proof (subst ends_let, rule ends_returns [OF returns_catch])
  let ?P = "\<lambda>v. gone_at expired y x (files w) (files v)"
  have "ready db_caps (files w) (w\<lparr>steps := Suc (steps w)\<rparr>)" using r by (simp add: ready_def no_faults_def)
  from expire_moves_entry [OF this x, of y]
  show "returns (let_io (expire y (show_int (ex_time x)) (ex_entry x)) (\<lambda>r. ret (Some r))) (w\<lparr>steps := Suc (steps w)\<rparr>)
      (\<lambda>r v. \<exists>p. r = Some p \<and> fst p = show_int (ex_time x) \<and> e_workspace (snd p) = e_workspace (ex_entry x) \<and> no_faults v \<and>
        (\<exists>now j. kind j = Reg (entry_text y (expired now (ex_entry x))) \<and>
          files v = fs_move (entry_key x) (gone_entry_key x) (fs_put (entry_key x) j (files w))))"
    unfolding returns_let returns_ret by simp
  fix r :: "(string \<times> entry) option" and v assume "\<exists>p. r = Some p \<and> fst p = show_int (ex_time x) \<and> e_workspace (snd p) = e_workspace (ex_entry x) \<and> no_faults v \<and>
        (\<exists>now j. kind j = Reg (entry_text y (expired now (ex_entry x))) \<and>
          files v = fs_move (entry_key x) (gone_entry_key x) (fs_put (entry_key x) j (files w)))"
  then obtain e' now j where s: "r = Some (show_int (ex_time x), e')" and e: "e_workspace e' = e_workspace (ex_entry x)" "no_faults v"
    and j: "kind j = Reg (entry_text y (expired now (ex_entry x)))"
      "files v = fs_move (entry_key x) (gone_entry_key x) (fs_put (entry_key x) j (files w))" by auto
  obtain k where k: "map_of (files w) (entry_key x) = Some k" using x by (auto simp: can_expire_def split: option.splits)
  obtain v' where v': "retire_workspace (ex_config x) (ex_name x) e' (show_int (ex_time x)) v = (Done (), v')" "?P v'"
    using retire_moves [where how = expired and now = now, OF x k j(1,2) e(2,1)] by blast
  have rest: "keeps same_files (let_io (fs_config_or_exit (ex_config x) (ex_name x)) (\<lambda>f.
      when_io (fs_expirationmail f) (send_expiration_mail yc l (ex_config x) f (ex_name x) i e')))"
    by (intro same_expirer)
  have "ends (let_io (fs_config_or_exit (ex_config x) (ex_name x)) (\<lambda>f.
      when_io (fs_expirationmail f) (send_expiration_mail yc l (ex_config x) f (ex_name x) i e'))) v' (\<lambda>a. ?P) ?P"
    by (rule ends_quiet [OF rest]) (use v'(2) in simp_all)
  then show "ends (case r of None \<Rightarrow> ret () | Some (timestamp, e') \<Rightarrow>
      seq_io (retire_workspace (ex_config x) (ex_name x) e' timestamp)
        (let_io (fs_config_or_exit (ex_config x) (ex_name x)) (\<lambda>f.
          when_io (fs_expirationmail f) (send_expiration_mail yc l (ex_config x) f (ex_name x) i e')))) v (\<lambda>a. ?P) ?P"
    unfolding s option.case prod.case ends_seq by (simp add: ends_def [of "retire_workspace c n e t" for c n e t] v'(1))
qed


section \<open>Release\<close>

lemma release_moves_entry:
  assumes r: "ready db_caps fs w" and x: "can_expire x fs"
  shows "returns (release y (ex_time x) (ex_entry x)) w (\<lambda>p v. \<exists>now j. kind j = Reg (entry_text y (released now (ex_entry x))) \<and>
    p = (ex_time x, (ex_entry x)\<lparr>e_released := now, e_dbfilepath := release_target (ex_entry x) (ex_fs x) (ex_time x)\<rparr>) \<and>
    ready db_caps (fs_move (entry_key x) (gone_entry_key x) (fs_put (entry_key x) j fs)) v)"
    (is "returns _ w ?P")
proof -
  note d = can_expireD [OF x] and p = key_prefixes [OF x]
  let ?e = "ex_entry x" and ?own = "entry_key x" and ?gone = "gone_entry_key x"
  have f: "getFsConfig (db_config (e_parent ?e)) (e_filesystem ?e) = Some (ex_fs x)" using x by (simp add: can_expire_def)
  have wr: "writable fs ?own" using x unfolding can_expire_def writable_def by (auto split: option.splits)
  have tg: "release_target (?e\<lparr>e_released := now\<rparr>) (ex_fs x) t = release_target ?e (ex_fs x) t" for now t by (simp add: release_target_def)
  have k: "comps (release_target ?e (ex_fs x) (ex_time x)) = ?gone" using gone_paths(1) [OF x] by (simp add: release_target_def)
  have step: "returns (release_as (?e\<lparr>e_released := now\<rparr>) (ex_fs x) (ex_time x)) v ?P"
    if j: "kind j = Reg (entry_text y (released now ?e))" and v: "ready db_caps (fs_put ?own j fs) v" for now j v
  proof -
    let ?fs = "fs_put ?own j fs"
    have none: "map_of ?fs ?gone = None" using x p(1) by (auto simp: map_of_put can_expire_def)
    then have free: "follow 40 ?fs (comps (release_target ?e (ex_fs x) (ex_time x))) = None" by (simp add: k eval_nat_numeral)
    have dir: "dir_at ?fs (butlast ?gone)"
      by (rule dir_at_put [OF writable_not_dir [OF wr]]) (use x in \<open>simp add: can_expire_def\<close>)
    have m: "rename_rule ?own ?gone ?fs = Inr (fs_move ?own ?gone ?fs)"
      by (rule rename_to_free [OF _ none dir p(1,2)]) (simp add: map_of_put)
    show ?thesis
      unfolding release_as_def Let_def seqs_io.simps returns_seq returns_let tg
    proof (rule ready_caps(1) [OF v], rule ready_caps(3), assumption, rule ready_exists, assumption)
      fix v' assume v': "ready db_caps ?fs v'"
      show "returns (catch_io (fs_rename (e_dbfilepath (?e\<lparr>e_released := now\<rparr>))
              (release_target ?e (ex_fs x) (if follow 40 ?fs (comps (release_target ?e (ex_fs x) (ex_time x))) \<noteq> None then ex_time x + 1 else ex_time x)))
           (\<lambda>z. case z of Filesystem_error er \<Rightarrow> seq_io (lower_cap [CAP_DAC_OVERRIDE, CAP_FOWNER]
                 (dbuid (global (db_config (e_parent (?e\<lparr>e_released := now\<rparr>)))))) (throw DatabaseException) | _ \<Rightarrow> throw z)) v'
          (\<lambda>a w'. returns (lower_cap [CAP_DAC_OVERRIDE, CAP_FOWNER] (dbuid (global (db_config (e_parent (?e\<lparr>e_released := now\<rparr>)))))) w'
            (\<lambda>a w'. returns (ret (if follow 40 ?fs (comps (release_target ?e (ex_fs x) (ex_time x))) \<noteq> None then ex_time x + 1 else ex_time x,
               ?e\<lparr>e_released := now, e_dbfilepath := release_target ?e (ex_fs x)
                 (if follow 40 ?fs (comps (release_target ?e (ex_fs x) (ex_time x))) \<noteq> None then ex_time x + 1 else ex_time x)\<rparr>)) w' ?P))"
        unfolding free simp_thms if_False not_True_eq_False
        apply (intro returns_catch)
        apply (rule ready_fs_rename [OF v'])
         apply (simp add: d(10) k m)
        apply (rule ready_caps(2), assumption)
        apply (use j in \<open>auto simp: returns_ret\<close>)
        done
    qed simp
  qed
  show ?thesis
    unfolding release_def returns_let returns_seq fs_config_or_exit_def
  proof (rule ready_now [OF r])
    fix now v assume v: "ready db_caps fs v"
    show "returns (writeEntry y False (?e\<lparr>e_released := now\<rparr>)) v (\<lambda>a w'. returns
        (case getFsConfig (db_config (e_parent ?e)) (e_filesystem ?e) of None \<Rightarrow> exit_with (- 1) | Some f \<Rightarrow> ret f) w'
        (\<lambda>f w'. returns (release_as (?e\<lparr>e_released := now\<rparr>) f (ex_time x)) w' ?P))"
      by (rule writeEntry_returns [OF v]) (use wr f step d(10) in \<open>simp_all add: returns_ret released_def\<close>)
  qed
qed

lemma give_back_ends:
  assumes r: "ready db_caps (files w) w" and x: "can_expire x (files w)" and t: "clock w (steps w) = ex_time x"
  shows "ends (give_back y c False (ex_entry x)) w
    (\<lambda>a v. gone_at released y x (files w) (files v)) (\<lambda>v. gone_at released y x (files w) (files v))"
proof -
  let ?P = "\<lambda>v. gone_at released y x (files w) (files v)" and ?e = "ex_entry x"
  have r0: "ready db_caps (files w) (w\<lparr>steps := Suc (steps w)\<rparr>)" using r by (simp add: ready_def no_faults_def)
  have f: "getFsConfig (db_config (e_parent ?e)) (e_filesystem ?e) = Some (ex_fs x)" using x by (simp add: can_expire_def)
  note d = can_expireD [OF x]
  have target: "comps (released_dir (ex_fs x) ?e (ex_time x)) = gone_workspace_key x"
    using workspace_paths(3) [OF d(6,5)] comps_append_one [OF d(2)] stamped_comps [OF d(1)]
    by (simp add: released_dir_def gone_workspace_key_def)
  obtain k where k: "map_of (files w) (entry_key x) = Some k" using x by (auto simp: can_expire_def split: option.splits)
  have move: "ends (move_data (?e\<lparr>e_released := now, e_dbfilepath := p\<rparr>) (ex_time x)) v (\<lambda>a. ?P) ?P"
    if j: "kind j = Reg (entry_text y (released now ?e))" and v: "ready db_caps (fs_move (entry_key x) (gone_entry_key x) (fs_put (entry_key x) j (files w))) v"
    for now p j v
  proof -
    let ?fs = "fs_move (entry_key x) (gone_entry_key x) (fs_put (entry_key x) j (files w))" and ?e' = "?e\<lparr>e_released := now, e_dbfilepath := p\<rparr>"
    note m = moved_workspace [where how = released and now = now, OF x k j]
    have same: "e_workspace ?e' = e_workspace ?e" "released_dir (ex_fs x) ?e' (ex_time x) = released_dir (ex_fs x) ?e (ex_time x)"
      by (simp_all add: released_dir_def)
    have rename: "rename_rule (comps (e_workspace ?e)) (comps (released_dir (ex_fs x) ?e (ex_time x))) ?fs =
        Inr (fs_move (workspace_key x) (gone_workspace_key x) ?fs)"
      unfolding target gone_paths(4) [OF x] by (rule m(1))
    have lower: "ends (seq_io (lower_cap [CAP_DAC_OVERRIDE] u) (let_io getUsername (\<lambda>u. ret True))) v' (\<lambda>a. ?P) ?P" if "?P v'" for u v'
      by (rule ends_quiet, intro same.readers) (use that in simp_all)
    have "returns (catch_io (seq_io (fs_rename (e_workspace ?e) (released_dir (ex_fs x) ?e (ex_time x))) (ret True)) h) v' (\<lambda>b v''. b \<and> ?P v'')"
      if "ready db_caps ?fs v'" for h v'
      by (rule returns_catch, unfold returns_seq, rule ready_fs_rename [OF that rename])
        (use m(2) in \<open>simp add: returns_ret ready_def\<close>)
    then have moved: "ends (let_io (catch_io (seq_io (fs_rename (e_workspace ?e) (released_dir (ex_fs x) ?e (ex_time x))) (ret True)) h)
        (\<lambda>moved. if \<not> moved then ret False else seq_io (lower_cap [CAP_DAC_OVERRIDE] u) (let_io getUsername (\<lambda>u. ret True)))) v' (\<lambda>a. ?P) ?P"
      if "ready db_caps ?fs v'" for h u v'
      unfolding ends_let [where m = "catch_io a b" for a b]
      by (rule ends_returns) (use that lower in auto)
    have raise: "returns (raise_cap [CAP_DAC_OVERRIDE]) v (\<lambda>a v'. ready db_caps ?fs v')"
      by (rule ready_caps(1) [OF v]) simp_all
    have parent: "e_parent ?e' = e_parent ?e" "e_filesystem ?e' = e_filesystem ?e" by simp_all
    show ?thesis
      unfolding move_data_def fs_config_or_exit_def parent f option.case let_ret Let_def same ends_seq [where m = "raise_cap cs" for cs]
      by (rule ends_returns [OF raise]) (rule moved)
  qed
  have rel: "returns (try_database (release y (ex_time x) ?e)) (w\<lparr>steps := Suc (steps w)\<rparr>) (\<lambda>r v. \<exists>now j. kind j = Reg (entry_text y (released now ?e)) \<and>
      r = Some (ex_time x, ?e\<lparr>e_released := now, e_dbfilepath := release_target ?e (ex_fs x) (ex_time x)\<rparr>) \<and>
      ready db_caps (fs_move (entry_key x) (gone_entry_key x) (fs_put (entry_key x) j (files w))) v)"
    unfolding try_database_def
    by (rule returns_catch) (use release_moves_entry [OF r0 x, of y] in \<open>simp add: returns_let returns_ret\<close>)
  show ?thesis
    unfolding give_back_def ends_let [where m = time_now] ends_time t ends_let [where m = "try_database z" for z]
    by (rule ends_returns [OF rel]) (use move in auto)
qed

section \<open>Restoring what is gone\<close>

definition gone_name :: "expiry \<Rightarrow> string" where
  "gone_name x = stamped (e_id (ex_entry x)) (ex_time x)"

definition gone_source :: "expiry \<Rightarrow> path" where
  "gone_source x = wssourcename (ex_fs x) (ex_entry x) (gone_name x)"

definition landing_key :: "expiry \<Rightarrow> entry \<Rightarrow> key" where
  "landing_key x t = comps (e_workspace t) @ [gone_name x]"

text \<open>The workspace of \<open>t\<close> is another directory, in which the name is free, and no entry lies in it.\<close>

definition can_receive :: "expiry \<Rightarrow> database_handle \<Rightarrow> entry \<Rightarrow> files \<Rightarrow> bool" where
  "can_receive x db t fs \<longleftrightarrow>
     dir_at fs (comps (e_workspace t)) \<and> map_of fs (landing_key x t) = None \<and>
     list_all (apart (comps (e_workspace t))) [entry_key x, gone_entry_key x, workspace_key x, gone_workspace_key x] \<and>
     (\<forall>k \<in> entry_keys db (gone_name x) t. \<not> prefix (landing_key x t) k)"

lemma gone_source_key:
  assumes "can_expire x fs"
  shows "comps (gone_source x) = gone_workspace_key x" and "comps (restore_target_path t (gone_source x)) = landing_key x t"
    and "comps (entry_path (ex_config x) (ex_name x) (gone_name x) True) = gone_entry_key x"
proof -
  note d = can_expireD [OF assms]
  have n: "one_comp (gone_name x)" unfolding gone_name_def stamped_def by (rule one_comp_stamp [OF d(1)])
  then have s: "CHR ''/'' \<notin> set (gone_name x)" by (simp add: one_comp_def)
  show "comps (gone_source x) = gone_workspace_key x"
    using workspace_paths(3) [OF d(6,5)] comps_one [OF n] comps_one [OF d(2)]
    by (simp add: gone_source_def wssourcename_def comps_slash gone_workspace_key_def gone_name_def)
  have "filename (gone_source x) = gone_name x"
    using workspace_paths(2) [OF _ s, of "gone_source x" "parent_path (e_workspace (ex_entry x)) @ ''/'' @ fs_deletedPath (ex_fs x)"]
    by (simp add: gone_source_def wssourcename_def)
  with comps_one [OF n] show "comps (restore_target_path t (gone_source x)) = landing_key x t"
    by (simp add: restore_target_path_def landing_key_def comps_slash)
  show "comps (entry_path (ex_config x) (ex_name x) (gone_name x) True) = gone_entry_key x"
    using gone_paths(1) [OF assms] d(9)
    by (simp add: entry_path_def gone_name_def db_deleted_dir_def database_def deletedPath_def getFsConfig_def)
qed

lemma landing_prefixes:
  assumes "can_receive x db t fs" and "k \<in> {entry_key x, gone_entry_key x, workspace_key x, gone_workspace_key x}"
  shows "\<not> prefix k (landing_key x t)" and "\<not> prefix (landing_key x t) k" and "\<not> prefix k (comps (e_workspace t))"
proof -
  have a: "apart (comps (e_workspace t)) k" using assms by (auto simp: can_receive_def)
  show "\<not> prefix k (landing_key x t)" "\<not> prefix (landing_key x t) k" "\<not> prefix k (comps (e_workspace t))"
    using apart_append(2) [OF a, of "[]" "[gone_name x]"] apart_append(1) [OF a, of "[gone_name x]" "[]"] a
    by (simp_all add: landing_key_def apart_def)
qed

lemma received:
  assumes x: "can_expire x fs" and m: "gone_at how y x fs fs1" and t: "can_receive x db t fs"
  defines "fs2 \<equiv> fs_move (gone_workspace_key x) (landing_key x t) fs1"
  shows "rename_rule (gone_workspace_key x) (landing_key x t) fs1 = Inr fs2"
    and "map_of fs2 (landing_key x t @ q) = map_of fs (workspace_key x @ q)"
proof -
  note p = landing_prefixes [OF t]
  have same: "map_of fs1 k = map_of fs k" if "k \<in> {comps (e_workspace t), landing_key x t}" for k
  proof -
    have "\<not> prefix j k" if "j \<in> {entry_key x, gone_entry_key x, workspace_key x, gone_workspace_key x}" for j
      using p(1,3) [OF that] \<open>k \<in> _\<close> by blast
    then show ?thesis using m unfolding gone_at_def by blast
  qed
  have w: "map_of fs1 (gone_workspace_key x @ q) = map_of fs (workspace_key x @ q)" for q using m unfolding gone_at_def by blast
  obtain i where i: "map_of fs1 (gone_workspace_key x) = Some i" using w [of "[]"] x by (auto simp: can_expire_def)
  have n: "map_of fs1 (landing_key x t) = None" using same t by (simp add: can_receive_def)
  have d: "dir_at fs1 (butlast (landing_key x t))" using same t by (simp add: can_receive_def dir_at_def landing_key_def)
  show "rename_rule (gone_workspace_key x) (landing_key x t) fs1 = Inr fs2"
    unfolding fs2_def by (rule rename_to_free [OF i n d]) (use p in auto)
  show "map_of fs2 (landing_key x t @ q) = map_of fs (workspace_key x @ q)"
    using map_of_move(1) [OF no_common_extension, of "gone_workspace_key x" "landing_key x t" fs1 q] p w
    by (simp add: fs2_def)
qed

lemma move_back_ends_at:
  assumes x: "can_expire x fs" and m: "gone_at how y x fs (files w)" and t: "can_receive x db t fs"
    and w: "can_act search_caps w" "no_faults w" and c: "\<not> restorenosub (global c)"
  shows "ends (move_back y' c db e t (gone_name x) (gone_source x)) w
    (\<lambda>a v. \<forall>q. map_of (files v) (landing_key x t @ q) = map_of fs (workspace_key x @ q))
    (\<lambda>v. \<forall>q. map_of (files v) (landing_key x t @ q) = map_of fs (workspace_key x @ q))"
proof -
  let ?G = "\<lambda>v. \<forall>q. map_of (files v) (landing_key x t @ q) = map_of fs (workspace_key x @ q)"
  let ?K = "entry_keys db (gone_name x) t"
  note k = gone_source_key [OF x]
  have below: "ends (restore_below db t (gone_name x) (gone_source x)) v (\<lambda>a. ?G) ?G" if v: "ready search_caps (files w) v" for v
  proof -
    have f: "files v = files w" "no_faults v" using v by (simp_all add: ready_def)
    have "rename_rule (comps (gone_source x)) (comps (restore_target_path t (gone_source x))) (files v) =
        Inr (fs_move (gone_workspace_key x) (landing_key x t) (files w))"
      unfolding k f(1) by (rule received(1) [OF x m t])
    from calm_rename [OF f(2) this] obtain v' where run: "sys_rename (gone_source x) (restore_target_path t (gone_source x)) v = (Done None, v')"
      and v': "files v' = fs_move (gone_workspace_key x) (landing_key x t) (files w)" by blast
    have G: "?G v'" unfolding v' using received(2) [OF x m t] by blast
    have drop: "keeps (only (\<lambda>k. k \<in> ?K)) (seq_io become_db (drop_entry db (gone_name x)))"
      by (intro frame.rules frame.cap_calls drop_entry_only) (simp add: entry_keys_def)
    have "ends (seq_io become_db (drop_entry db (gone_name x))) v' (\<lambda>a. ?G) ?G"
    proof (rule ends_keeps [OF drop])
      fix a u assume "only (\<lambda>k. k \<in> ?K) v' u"
      moreover have "landing_key x t @ q \<notin> ?K" for q using t prefixI [OF refl] unfolding can_receive_def by blast
      ultimately show "?G u" using G by (simp add: only_def)
    next
      fix u assume "only (\<lambda>k. k \<in> ?K) v' u"
      moreover have "landing_key x t @ q \<notin> ?K" for q using t prefixI [OF refl] unfolding can_receive_def by blast
      ultimately show "?G u" using G by (simp add: only_def)
    qed
    then show ?thesis
      unfolding restore_below_def Let_def ends_let [where m = "sys_rename a b" for a b]
      by (simp add: ends_def [of "sys_rename a b" for a b] run ends_let ends_simple ok_def)
  qed
  have "returns (raise_cap search_caps) w (\<lambda>a v. ready search_caps (files w) v)"
    by (rule ready_caps(1) [OF _ _ subset_refl, where fs = "files w"]) (use w in \<open>simp_all add: ready_def\<close>)
  then show ?thesis
    unfolding move_back_def seqs_io.simps ends_seq if_not_P [OF c]
  proof (rule ends_returns)
    fix a v assume "ready search_caps (files w) v"
    from below [OF this]
    show "ends (restore_below db t (gone_name x) (gone_source x)) v (\<lambda>a v. ends (lower_cap search_caps (dbuid (global c))) v (\<lambda>a. ?G) ?G) ?G"
      by (rule ends_mono) (auto intro: ends_quiet [OF same.cap_calls(2)])
  qed
qed

text \<open>A site on which \<open>alice-a\<close> expires and is restored into \<open>alice-b\<close>.\<close>

definition expiry_example :: expiry where
  "expiry_example = \<lparr>ex_config = site_config, ex_name = ''ws'', ex_fs = snd (hd (filesystems site_config)), ex_space = ''/ws'',
     ex_entry = site_entry ''alice-a'' 99, ex_time = 120\<rparr>"

definition expiry_world :: "int \<Rightarrow> world" where
  "expiry_world now = (example_world restore_files)\<lparr>clock := (\<lambda>n. now)\<rparr>"

definition expiry_run :: world where
  "expiry_run = snd (expire_one simple_ryml site_yaml example_mail_library site_config ''ws'' ''alice-a'' (site_entry ''alice-a'' 99) (expiry_world 120))"

lemma expiry_world_simps:
  "files (expiry_world t) = restore_files" "clock (expiry_world t) n = t" "can_act cs (expiry_world t)" "no_faults (expiry_world t)"
proof -
  have "can_act cs (expiry_world t) = can_act cs (example_world restore_files)"
    by (rule can_act_cong) (simp_all add: expiry_world_def)
  then show "can_act cs (expiry_world t)" by (simp add: example_can_act)
  have "no_faults (example_world restore_files)" by (rule example_can_act)
  then show "no_faults (expiry_world t)" by (simp add: expiry_world_def no_faults_def)
qed (simp_all add: expiry_world_def example_world_def)

lemma expiry_example_keys:
  "entry_key expiry_example = [''db'', ''alice-a'']" "gone_entry_key expiry_example = [''db'', ''.removed'', ''alice-a-120'']"
  "workspace_key expiry_example = [''ws'', ''alice-a'']" "gone_workspace_key expiry_example = [''ws'', ''.removed'', ''alice-a-120'']"
  "gone_name expiry_example = ''alice-a-120''"
  by code_simp+

lemma expiry_example_simps:
  "getFsConfig (ex_config expiry_example) (ex_name expiry_example) = Some (ex_fs expiry_example)"
  "db_config (e_parent (ex_entry expiry_example)) = ex_config expiry_example"
  by (simp_all add: expiry_example_def getFsConfig_def site_config_def site_entry_def blank_entry_def)

lemma expiry_example_ok: "can_expire expiry_example restore_files"
proof -
  have "db_fs (e_parent (ex_entry expiry_example)) = ex_name expiry_example" by code_simp
  moreover have "e_filesystem (ex_entry expiry_example) = ex_name expiry_example" by code_simp
  moreover have "one_comp (e_id (ex_entry expiry_example))" by code_simp
  moreover have "one_comp (fs_deletedPath (ex_fs expiry_example))" by code_simp
  moreover have "e_id (ex_entry expiry_example) \<noteq> fs_deletedPath (ex_fs expiry_example)" by code_simp
  moreover have "comps (e_dbfilepath (ex_entry expiry_example)) = entry_key expiry_example" by code_simp
  moreover have "e_workspace (ex_entry expiry_example) = ex_space expiry_example @ CHR ''/'' # e_id (ex_entry expiry_example)" by code_simp
  moreover have "comps (fs_database (ex_fs expiry_example)) = [''db'']" by code_simp
  moreover have "comps (ex_space expiry_example) = [''ws'']" by code_simp
  moreover have "0 \<le> ex_time expiry_example \<and> ex_time expiry_example \<le> LLONG_MAX" by code_simp
  ultimately show ?thesis
    by (simp add: can_expire_def expiry_example_simps expiry_example_keys apart_def restore_files_def site_files_def dir_at_def is_dir_def example_inode_def is_reg_def)
qed

lemma expiry_example_room: "can_receive expiry_example \<lparr>db_config = site_config, db_fs = ''ws''\<rparr> (site_entry ''alice-b'' 99) restore_files"
proof -
  have "comps (e_workspace (site_entry ''alice-b'' 99)) = [''ws'', ''alice-b'']" by code_simp
  moreover have "entry_keys \<lparr>db_config = site_config, db_fs = ''ws''\<rparr> ''alice-a-120'' (site_entry ''alice-b'' 99) =
      {[''db'', ''.removed'', ''alice-a-120''], [''db'', ''alice-b'']}" by code_simp
  ultimately show ?thesis
    by (simp add: can_receive_def landing_key_def expiry_example_keys apart_def restore_files_def site_files_def dir_at_def is_dir_def example_inode_def)
qed

section \<open>Properties\<close>

text \<open>When no call fails, a workspace that \<open>ws_expirer\<close> expires at a time whose name is free is where \<open>ws_restore\<close>
  looks for that name: its entry, with the time it was expired, is the file of the deleted entry, and the directory the
  restore derives from the entry holds every file of the workspace; whether or not the mail about it could be sent.\<close>

theorem expired_is_restorable:
  assumes "ready db_caps (files w) w" and "can_expire x (files w)" and "clock w (steps w) = ex_time x"
    and "expire_one y yc l (ex_config x) (ex_name x) i (ex_entry x) w = (r, w')"
  shows "(\<exists>now j. kind j = Reg (entry_text y ((ex_entry x)\<lparr>e_expired := now\<rparr>)) \<and>
      map_of (files w') (comps (entry_path (ex_config x) (ex_name x) (gone_name x) True)) = Some j) \<and>
    map_of (files w') (comps (gone_source x) @ q) = map_of (files w) (comps (e_workspace (ex_entry x)) @ q)"
proof -
  have "gone_at expired y x (files w) (files w')" using endsD [OF expire_one_ends [OF assms(1-3)] assms(4)] by blast
  then show ?thesis unfolding gone_source_key [OF assms(2)] gone_paths(4) [OF assms(2)] gone_at_def expired_def by blast
qed

lemma expired_is_restorable_witness:
  "map_of (files expiry_run) (comps ''/ws/.removed/alice-a-120'' @ [''data'']) = Some (example_inode (Reg ''results''))"
proof -
  obtain r w' where run: "expire_one simple_ryml site_yaml example_mail_library (ex_config expiry_example) (ex_name expiry_example) ''alice-a''
      (ex_entry expiry_example) (expiry_world 120) = (r, w')" by force
  then have w': "w' = expiry_run" by (simp add: expiry_run_def expiry_example_def)
  have "ready db_caps (files (expiry_world 120)) (expiry_world 120)" by (simp add: ready_def expiry_world_simps)
  moreover have "can_expire expiry_example (files (expiry_world 120))" by (simp add: expiry_world_simps expiry_example_ok)
  moreover have "clock (expiry_world 120) (steps (expiry_world 120)) = ex_time expiry_example"
    by (simp add: expiry_world_simps expiry_example_def)
  moreover have "comps (gone_source expiry_example) = comps ''/ws/.removed/alice-a-120''" by code_simp
  moreover have "map_of (files (expiry_world 120)) (comps (e_workspace (ex_entry expiry_example)) @ [''data'']) = Some (example_inode (Reg ''results''))"
    unfolding expiry_world_simps by code_simp
  ultimately show ?thesis using expired_is_restorable [OF _ _ _ run, of "[''data'']"] unfolding w' by metis
qed

text \<open>C9. What the expirer took away, a restore of that name brings back: run by a process that can raise its
  capabilities, on the files the expirer left, the move puts every file of the workspace, with its contents and
  owner, at the same place below the directory of the target that was given.\<close>

theorem restore_brings_back_expired:
  assumes "ready db_caps (files w) w" and "can_expire x (files w)" and "clock w (steps w) = ex_time x"
    and "expire_one y yc l (ex_config x) (ex_name x) i (ex_entry x) w = (r, w1)"
    and "can_receive x db t (files w)" and "files w2 = files w1" and "can_act search_caps w2" and "no_faults w2"
    and "\<not> restorenosub (global c)" and "move_back y' c db e t (gone_name x) (gone_source x) w2 = (r', w3)"
  shows "map_of (files w3) (comps (restore_target_path t (gone_source x)) @ q) = map_of (files w) (comps (e_workspace (ex_entry x)) @ q)"
proof -
  have "gone_at expired y x (files w) (files w2)" using endsD [OF expire_one_ends [OF assms(1-3)] assms(4)] assms(6) by auto
  from endsD [OF move_back_ends_at [OF assms(2) this assms(5,7-9)] assms(10)]
  have "\<forall>q. map_of (files w3) (landing_key x t @ q) = map_of (files w) (workspace_key x @ q)" by blast
  then show ?thesis unfolding gone_source_key [OF assms(2)] gone_paths(4) [OF assms(2)] by blast
qed

lemma restore_brings_back_expired_witness:
  "map_of (files (snd (move_back simple_ryml site_config \<lparr>db_config = site_config, db_fs = ''ws''\<rparr> (site_entry ''alice-a'' 99) (site_entry ''alice-b'' 99)
       (gone_name expiry_example) (gone_source expiry_example) ((expiry_world 130)\<lparr>files := files expiry_run\<rparr>))))
     (comps ''/ws/alice-b/alice-a-120'' @ [''data'']) = Some (example_inode (Reg ''results''))"
proof -
  let ?db = "\<lparr>db_config = site_config, db_fs = ''ws''\<rparr>" and ?w2 = "(expiry_world 130)\<lparr>files := files expiry_run\<rparr>"
  let ?t = "site_entry ''alice-b'' 99"
  obtain r w1 where run: "expire_one simple_ryml site_yaml example_mail_library (ex_config expiry_example) (ex_name expiry_example) ''alice-a''
      (ex_entry expiry_example) (expiry_world 120) = (r, w1)" by force
  then have w1: "w1 = expiry_run" by (simp add: expiry_run_def expiry_example_def)
  obtain r' w3 where undo: "move_back simple_ryml site_config ?db (site_entry ''alice-a'' 99) ?t (gone_name expiry_example) (gone_source expiry_example) ?w2 = (r', w3)"
    by force
  have a: "ready db_caps (files (expiry_world 120)) (expiry_world 120)" by (simp add: ready_def expiry_world_simps)
  have b: "can_expire expiry_example (files (expiry_world 120))" by (simp add: expiry_world_simps expiry_example_ok)
  have c: "clock (expiry_world 120) (steps (expiry_world 120)) = ex_time expiry_example"
    by (simp add: expiry_world_simps expiry_example_def)
  have d: "can_receive expiry_example ?db ?t (files (expiry_world 120))" unfolding expiry_world_simps by (rule expiry_example_room)
  have e: "files ?w2 = files w1" "can_act search_caps ?w2" "no_faults ?w2" by (simp_all add: w1 expiry_world_simps)
  have f: "\<not> restorenosub (global site_config)" by code_simp
  have "comps (restore_target_path ?t (gone_source expiry_example)) = comps ''/ws/alice-b/alice-a-120''" by code_simp
  moreover have "map_of (files (expiry_world 120)) (comps (e_workspace (ex_entry expiry_example)) @ [''data'']) = Some (example_inode (Reg ''results''))"
    unfolding expiry_world_simps by code_simp
  ultimately show ?thesis
    using restore_brings_back_expired [OF a b c run d e f undo, of "[''data'']"] unfolding undo snd_conv by metis
qed

text \<open>C10. What a user gave back with \<open>ws_release\<close> comes back the same way: after a release at a time whose name is free, a
  restore of that name puts every file of the workspace at the same place below the directory of the target.\<close>

theorem restore_brings_back_released:
  assumes "ready db_caps (files w) w" and "can_expire x (files w)" and "clock w (steps w) = ex_time x"
    and "give_back y c False (ex_entry x) w = (r, w1)"
    and "can_receive x db t (files w)" and "files w2 = files w1" and "can_act search_caps w2" and "no_faults w2"
    and "\<not> restorenosub (global c')" and "move_back y' c' db e t (gone_name x) (gone_source x) w2 = (r', w3)"
  shows "map_of (files w3) (comps (restore_target_path t (gone_source x)) @ q) = map_of (files w) (comps (e_workspace (ex_entry x)) @ q)"
proof -
  have "gone_at released y x (files w) (files w2)" using endsD [OF give_back_ends [OF assms(1-3)] assms(4)] assms(6) by auto
  from endsD [OF move_back_ends_at [OF assms(2) this assms(5,7-9)] assms(10)]
  have "\<forall>q. map_of (files w3) (landing_key x t @ q) = map_of (files w) (workspace_key x @ q)" by blast
  then show ?thesis unfolding gone_source_key [OF assms(2)] gone_paths(4) [OF assms(2)] by blast
qed

definition released_run :: world where
  "released_run = snd (give_back simple_ryml site_config False (site_entry ''alice-a'' 99) (expiry_world 120))"

lemma restore_brings_back_released_witness:
  "map_of (files (snd (move_back simple_ryml site_config \<lparr>db_config = site_config, db_fs = ''ws''\<rparr> (site_entry ''alice-a'' 99) (site_entry ''alice-b'' 99)
       (gone_name expiry_example) (gone_source expiry_example) ((expiry_world 130)\<lparr>files := files released_run\<rparr>))))
     (comps ''/ws/alice-b/alice-a-120'' @ [''data'']) = Some (example_inode (Reg ''results''))"
proof -
  let ?db = "\<lparr>db_config = site_config, db_fs = ''ws''\<rparr>" and ?w2 = "(expiry_world 130)\<lparr>files := files released_run\<rparr>"
  let ?t = "site_entry ''alice-b'' 99"
  obtain r w1 where run: "give_back simple_ryml site_config False (ex_entry expiry_example) (expiry_world 120) = (r, w1)" by force
  then have w1: "w1 = released_run" by (simp add: released_run_def expiry_example_def)
  obtain r' w3 where undo: "move_back simple_ryml site_config ?db (site_entry ''alice-a'' 99) ?t (gone_name expiry_example) (gone_source expiry_example) ?w2 = (r', w3)"
    by force
  have a: "ready db_caps (files (expiry_world 120)) (expiry_world 120)" by (simp add: ready_def expiry_world_simps)
  have b: "can_expire expiry_example (files (expiry_world 120))" by (simp add: expiry_world_simps expiry_example_ok)
  have c: "clock (expiry_world 120) (steps (expiry_world 120)) = ex_time expiry_example"
    by (simp add: expiry_world_simps expiry_example_def)
  have d: "can_receive expiry_example ?db ?t (files (expiry_world 120))" unfolding expiry_world_simps by (rule expiry_example_room)
  have e: "files ?w2 = files w1" "can_act search_caps ?w2" "no_faults ?w2" by (simp_all add: w1 expiry_world_simps)
  have f: "\<not> restorenosub (global site_config)" by code_simp
  have "comps (restore_target_path ?t (gone_source expiry_example)) = comps ''/ws/alice-b/alice-a-120''" by code_simp
  moreover have "map_of (files (expiry_world 120)) (comps (e_workspace (ex_entry expiry_example)) @ [''data'']) = Some (example_inode (Reg ''results''))"
    unfolding expiry_world_simps by code_simp
  ultimately show ?thesis
    using restore_brings_back_released [OF a b c run d e f undo, of "[''data'']"] unfolding undo snd_conv by metis
qed

end
