(* ===== verification/Spec2Isabelle.thy ===== *)
theory Spec2Isabelle
  imports Glob Text Regex Acl Config Caps Fsops DbEntry DbV1 Retention WorkQueue Release Restore Allocate EditDb Ical
    Links Prepare Reading Store Creation Lifecycle
begin

text \<open>
  The workspace tools for HPC file systems (the C++ sources under \<open>src/src\<close>): a model of what they do to files, processes
  and mails, and the theorems that make them correct.

  \<^bold>\<open>The program.\<close> A workspace is a directory a user gets for a limited time on one of the file systems of the site. Its
  entry is a small YAML file \<open>user-name\<close> in the database directory of that file system; the directory has the same
  name in one of its spaces. Expired and released workspaces wait in the deleted areas of database and space, under
  \<open>user-name-timestamp\<close>, until they are restored or removed. The tools run for users, with the rights of the
  database owner lent by setuid or file capabilities (\<open>ws_allocate\<close>, \<open>ws_release\<close>, \<open>ws_restore\<close>), or from cron
  for root (\<open>ws_expirer\<close>); the others show, count, mail, prepare, check or edit.

  \<^bold>\<open>The world.\<close> Theory \<open>World\<close> has what all of it acts on: the tree of files, clock, random numbers, credentials and the
  object \<open>caps\<close>, accounts, standard input and output and sent mails, in one record. An operation is a function of
  the world that returns, throws or exits (\<open>io\<close>), with the C++ control flow as combinators (\<open>let_io\<close>, \<open>catch_io\<close>,
  \<open>for_io\<close>, \<open>fold_io\<close>). Every system call asks the field \<open>fault\<close> first, an arbitrary function, so a theorem
  without a hypothesis about it holds whichever calls fail. \<open>Effects\<close> and \<open>Local\<close> hold the ways to reason about it:
  \<open>keeps R m\<close> (all runs of \<open>m\<close> stay in \<open>R\<close>, locales \<open>step_relation\<close>, \<open>credential_relation\<close>, \<open>call_relation\<close>, and in
  \<open>Readers\<close> and \<open>Tools\<close> \<open>quiet_relation\<close> and \<open>tool_relation\<close>, each interpreted on the frame conditions that the
  proofs use), \<open>returns\<close> (a run ends well) and \<open>ends\<close> (both ways).

  \<^bold>\<open>Which theory models what.\<close>
  \<^item> \<open>Prelude\<close>, \<open>Paths\<close>: strings of the C++ library, decimal numbers with their overflow, \<open>std::filesystem::path\<close>.
  \<^item> \<open>Glob\<close>, \<open>Text\<close>, \<open>Regex\<close>, \<open>Fsops\<close>: \<open>utils.cpp\<close> (the pattern matcher, ids and their parts, mail addresses, files,
    \<open>rmtree\<close>); \<open>glob_match\<close> is shown equivalent to full backtracking, \<open>rmtree\<close> to stay below its path and to end.
  \<^item> \<open>Acl\<close>, \<open>Config\<close>: \<open>ws.h\<close>, \<open>config.h\<close>, \<open>config.cpp\<close>: access lists, reading and checking the configuration, access, the
    file systems a user may use and their order.
  \<^item> \<open>Caps\<close>, \<open>User\<close>: \<open>caps.cpp\<close>, \<open>caps.h\<close>, \<open>user.cpp\<close>: identities, capabilities; the identity invariant of setuid tools.
  \<^item> \<open>DbEntry\<close>, \<open>DbV1\<close>: \<open>dbv1.h\<close>, \<open>dbv1.cpp\<close>: entries and their round trip through the file, workspace creation, listing,
    expiry, release, renaming in the deleted area; what a failing call leaves behind.
  \<^item> \<open>Tools\<close>, \<open>Search\<close>, \<open>Listing\<close>, \<open>Entries\<close>: what the \<open>main\<close> functions share.
  \<^item> \<open>Allocate\<close>, \<open>Release\<close>, \<open>Restore\<close>: the three tools for users, \<open>ws_allocate.cpp\<close>, \<open>ws_release.cpp\<close>, \<open>ws_restore.cpp\<close>, each
    from its options to the last call: what they can touch and that no data are lost.
  \<^item> \<open>UserConfig\<close>, \<open>Mail\<close>, \<open>Expirer\<close>, \<open>Retention\<close>: \<open>UserConfig.cpp\<close>, \<open>mail.cpp\<close> and \<open>ws_expirer.cpp\<close>: the stray cleanup
    never takes a registered workspace, nothing is deleted before its time, a dry run changes nothing.
  \<^item> \<open>WorkQueue\<close>, \<open>StatPool\<close>, \<open>Stat\<close>: \<open>PathWorkStealingQueue.hpp\<close> and \<open>ws_stat.cpp\<close>. The queue is a step relation of owner and
    thieves at the level of its atomic accesses, refined to a bag for single steals with thieves that do not sleep
    in the middle of one; the pool of workers interleaves steps on bags. Its count is right for every schedule.
  \<^item> \<open>WsList\<close>, \<open>Find\<close>, \<open>Links\<close>, \<open>Prepare\<close>, \<open>Validate\<close>, \<open>Ical\<close>, \<open>EditDb\<close>: \<open>ws_list.cpp\<close>, \<open>ws_find.cpp\<close>, \<open>ws_register.cpp\<close>,
    \<open>ws_prepare.cpp\<close>, \<open>ws_validate_config.cpp\<close>, \<open>ws_send_ical.cpp\<close>, \<open>ws_editdb.cpp\<close>; \<open>Reading\<close> joins those that change no file.
    The validator's remarks are also stated as a function of the files (\<open>validator_remarks\<close>).
  \<^item> \<open>Store\<close>: the interface of \<open>db.h\<close> for its clients: without failing calls the database is a map from ids to entries, and
    each request, alone or in a sequence, is answered as on that map (a locale, with \<open>dbv1.cpp\<close> as its interpretation).
  \<^item> \<open>Creation\<close>: what \<open>ws_allocate\<close> leaves behind: the only places it writes to, that \<open>ws_find\<close> finds the new workspace, and
    that an entry which cannot be written goes unnoticed.
  \<^item> \<open>Lifecycle\<close>: what two tools do one after the other: a workspace expired by \<open>ws_expirer\<close> or released by \<open>ws_release\<close>
    is where \<open>ws_restore\<close> looks for it, and the restore puts all its files back.
  \<^item> \<open>Site\<close>: a small site for the examples, on which the theorems with hypotheses are applied.

  \<^bold>\<open>Kinds of theorems.\<close> Safety whichever calls fail (the greater part: what a tool can change at most, and what a failure
  leaves behind); functional results on runs without failing calls (a created directory, a found entry, a restored
  workspace, a deleted tree); round trips (entry and file, base64, expiry or release and restore); equivalence with a reference
  (pattern matching, the threaded count); refinement (the database and a map, the queue and a bag); bounds (the end of a workspace, where
  the C++ \<open>int\<close> overflows beyond 24855 days); and theorems that show where the code does not do what it means to
  (a restore into another file system, batches of stolen work, an entry that cannot be written, directories too wide for the queues of \<open>ws_stat\<close>).

  \<^bold>\<open>Bounds.\<close> \<open>rmtree\<close> recurses with the depth of the tree as fuel; \<open>rmtree_fd_fuel\<close> shows that more changes nothing.
  Links are followed 40 times, as the kernel does. The search for a free name in the deleted area tries 1000
  timestamps, as the code. A queue holds 1024 items and a push waits at 922. Times are unbounded integers (\<open>long\<close> in the
  code), except where the code computes in \<open>int\<close>; counters of \<open>ws_stat\<close> are 64 bit words, the accumulator of
  \<open>base64Encode\<close> 32 bits; user ids and modes are words.

  \<^bold>\<open>Parameters.\<close> Libraries that are not part of the sources are arguments: the YAML parsers (\<open>yaml_cpp\<close> for
  the configuration, \<open>ryml\<close> for entries; \<open>ryml_ok\<close> is the contract that what is emitted parses back, and \<open>simple_ryml\<close>
  keeps it), hashing and the formatting of times (\<open>mail_library\<close>), the environment, \<open>statx\<close>, schedules of threads and
  the order \<open>std::sort\<close> leaves equal elements in.

  \<^bold>\<open>Not modelled.\<close> The parsing of the command line by \<open>boost::program_options\<close> (the models start from the parsed options),
  help and version output, logging and debugging messages, locale settings and the build information: no
  state the tools keep depends on them. Standard error is left out. The tree of files is shared with nobody while a tool
  runs: races with other processes, which the \<open>openat\<close> calls of \<open>rmtree\<close> and \<open>O_NOFOLLOW\<close> guard against, are visible
  only as failing calls. Links are resolved in the last component of a path, not before it. Floating point (the
  pretty printed sizes of \<open>ws_stat\<close>) is an argument. The memory orders of the queue are taken as sequentially
  consistent. Code that is not compiled is left out: the second readers of the configuration (\<open>config.cpp\<close>, under
  \<open>RYAML\<close>) and of the user configuration (\<open>WS_RAPIDYAML_CONFIG\<close>), the reader of entries for \<open>yaml-cpp\<close> (\<open>dbv1.cpp\<close>, which defines \<open>WS_RAPIDYAML_DB\<close>), and the commented out
  question \<open>ruh\<close> of \<open>utils.cpp\<close>. \<open>ws_share\<close>, \<open>ws_extend\<close> and the test scripts are not C++.
\<close>

end
